(* ===== verification/Prelude.thy ===== *)
theory Prelude
  imports Main "HOL-Library.Word" "HOL-Library.Product_Lexorder"
begin

text \<open>
  Shared vocabulary of the development: the machine integers of the Rust sources and their
  checked operations, the option- and list-level idioms the sources use (\<open>Iterator::position\<close>,
  \<open>Vec::remove\<close>, \<open>Vec::insert\<close>, slice copies, little-endian bytes) and the lemmas on them that
  every component needs.  \<open>usize\<close> is taken at 64 bits, the only width the sources are built for;
  plain \<open>+\<close>, \<open>-\<close> and \<open>*\<close> on words wrap, as in a release build.
\<close>

unbundle bit_operations_syntax

named_theorems rust_arith \<open>facts about the checked machine arithmetic\<close>
named_theorems rust_list \<open>facts about the list idioms of the sources\<close>

type_synonym u8 = "8 word"
type_synonym u32 = "32 word"
type_synonym u64 = "64 word"

abbreviation u32_max :: u32 where
  "u32_max \<equiv> 0xFFFFFFFF"

abbreviation u64_max :: u64 where
  "u64_max \<equiv> 0xFFFFFFFFFFFFFFFF"

section \<open>Checked machine arithmetic\<close>

definition checked_add :: "'a::len word \<Rightarrow> 'a word \<Rightarrow> 'a word option" where
  "checked_add a b = (if unat a + unat b < 2 ^ LENGTH('a) then Some (a + b) else None)"

definition checked_sub :: "'a::len word \<Rightarrow> 'a word \<Rightarrow> 'a word option" where
  "checked_sub a b = (if b \<le> a then Some (a - b) else None)"

definition saturating_sub :: "'a::len word \<Rightarrow> 'a word \<Rightarrow> 'a word" where
  "saturating_sub a b = (if b \<le> a then a - b else 0)"

definition saturating_add :: "'a::len word \<Rightarrow> 'a word \<Rightarrow> 'a word" where
  "saturating_add a b = (if unat a + unat b < 2 ^ LENGTH('a) then a + b else - 1)"

definition checked_add_signed :: "'a::len word \<Rightarrow> int \<Rightarrow> 'a word option" where
  "checked_add_signed a d =
     (if 0 \<le> uint a + d \<and> uint a + d < 2 ^ LENGTH('a) then Some (word_of_int (uint a + d)) else None)"

lemma checked_add_eq_Some [rust_arith]:
  "checked_add a b = Some c \<longleftrightarrow> unat c = unat a + unat b"
proof
  assume "checked_add a b = Some c"
  then show "unat c = unat a + unat b"
    by (auto simp: checked_add_def unat_word_ariths split: if_splits)
next
  assume c: "unat c = unat a + unat b"
  moreover have "unat c < 2 ^ LENGTH('a)" by simp
  ultimately have "unat a + unat b < 2 ^ LENGTH('a)" by simp
  moreover from this c have "c = a + b"
    by (simp add: word_unat_eq_iff unat_word_ariths)
  ultimately show "checked_add a b = Some c" by (simp add: checked_add_def)
qed

lemma checked_add_eq_None [rust_arith]:
  "checked_add (a::'a::len word) b = None \<longleftrightarrow> 2 ^ LENGTH('a) \<le> unat a + unat b"
  by (simp add: checked_add_def)

lemma checked_add_SomeD: "checked_add a b = Some c \<Longrightarrow> c = a + b"
  by (simp add: checked_add_def split: if_splits)

lemma unat_plus_exact [rust_arith]:
  "unat a + unat b < 2 ^ LENGTH('a) \<Longrightarrow> unat (a + b) = unat a + unat (b::'a::len word)"
  by (simp add: unat_word_ariths)

lemma unat_minus_exact [rust_arith]: "b \<le> a \<Longrightarrow> unat (a - b) = unat a - unat (b::'a::len word)"
  by (rule unat_sub)

lemma checked_sub_eq_Some [rust_arith]:
  "checked_sub a b = Some c \<longleftrightarrow> unat b \<le> unat a \<and> unat c = unat a - unat b"
proof -
  have "b \<le> a \<Longrightarrow> (a - b = c) = (unat c = unat a - unat b)"
    using unat_minus_exact[of b a] by (auto simp: word_unat_eq_iff)
  then show ?thesis
    by (auto simp: checked_sub_def word_le_nat_alt split: if_splits)
qed

lemma unat_of_nat_small: "x < 2 ^ LENGTH('a) \<Longrightarrow> unat (of_nat x :: 'a::len word) = x"
  by (simp add: unat_of_nat)

lemma unat_word_less_max: "(x::'a::len word) \<noteq> - 1 \<Longrightarrow> unat x + 1 < 2 ^ LENGTH('a)"
proof -
  assume "x \<noteq> - 1"
  then have "unat x \<noteq> unat (- 1 :: 'a word)" by (simp add: word_unat_eq_iff)
  then have "unat x \<noteq> 2 ^ LENGTH('a) - 1" by (simp add: unsigned_minus_1_eq_mask mask_eq_exp_minus_1)
  moreover have "unat x < 2 ^ LENGTH('a)" by simp
  ultimately show ?thesis by arith
qed

lemma checked_add_one [rust_arith]:
  "checked_add (x::'a::len word) 1 = (if x = - 1 then None else Some (x + 1))"
proof (cases "LENGTH('a) = 1 \<and> x = 1 \<or> x = - 1")
  case True
  have "(- 1 :: 'a word) = 1" if "LENGTH('a) = 1"
    by (rule bit_word_eqI) (use that in \<open>auto simp: bit_simps\<close>)
  with True have x: "x = - 1" by auto
  have "unat (- 1 :: 'a word) + unat (1 :: 'a word) \<ge> 2 ^ LENGTH('a)"
    by (simp add: unsigned_minus_1_eq_mask mask_eq_exp_minus_1)
  with x show ?thesis by (simp add: checked_add_def)
next
  case False
  then show ?thesis using unat_word_less_max[of x] by (simp add: checked_add_def)
qed

lemma unat_saturating_succ: "unat x + 1 < 2 ^ LENGTH('a) \<Longrightarrow> unat (saturating_add x 1 :: 'a::len word) = unat x + 1"
  by (simp add: saturating_add_def unat_plus_exact)

lemma checked_add_one_u32: "checked_add (x::u32) 1 = (if x = u32_max then None else Some (x + 1))"
  by (simp add: checked_add_one)

lemma checked_add_one_u64: "checked_add (x::u64) 1 = (if x = u64_max then None else Some (x + 1))"
  by (simp add: checked_add_one)

lemma unat_succ_u32 [rust_arith]: "(x::u32) \<noteq> u32_max \<Longrightarrow> unat (x + 1) = unat x + 1"
  using checked_add_one_u32[of x] checked_add_eq_Some[of x 1 "x + 1"] by simp

lemma unat_succ_u64 [rust_arith]: "(x::u64) \<noteq> u64_max \<Longrightarrow> unat (x + 1) = unat x + 1"
  using checked_add_one_u64[of x] checked_add_eq_Some[of x 1 "x + 1"] by simp

text \<open>
  The overflow-safe containment test the sources use everywhere
  (\<open>len <= size && off <= size - len\<close>) says exactly that the span fits.
\<close>

lemma span_fits_iff [rust_arith]:
  "(ln \<le> sz \<and> ofs \<le> sz - ln) \<longleftrightarrow> unat ofs + unat ln \<le> unat (sz::'a::len word)"
proof (cases "ln \<le> sz")
  case True
  then show ?thesis
    by (auto simp: word_le_nat_alt unat_minus_exact)
next
  case False
  then show ?thesis by (auto simp: word_le_nat_alt)
qed

section \<open>Half-open byte spans\<close>

definition span :: "u64 \<Rightarrow> u64 \<Rightarrow> nat set" where
  "span b n = {unat b ..< unat b + unat n}"

lemma mem_span [simp]: "x \<in> span b n \<longleftrightarrow> unat b \<le> x \<and> x < unat b + unat n"
  by (simp add: span_def)

lemma span_disjointI:
  "unat a + unat n \<le> unat b \<or> unat b + unat m \<le> unat a \<Longrightarrow> span a n \<inter> span b m = {}"
  by (auto simp: span_def)

lemma span_subset_object:
  assumes "unat p + unat n \<le> unat q + unat m" "unat q \<le> unat p"
  shows "span p n \<subseteq> span q m"
  using assms by (auto simp: span_def)

section \<open>List idioms\<close>

fun position :: "('a \<Rightarrow> bool) \<Rightarrow> 'a list \<Rightarrow> nat option" where
  "position P [] = None"
| "position P (x # xs) = (if P x then Some 0 else map_option Suc (position P xs))"

lemma position_None [rust_list]: "position P xs = None \<longleftrightarrow> (\<forall>x \<in> set xs. \<not> P x)"
  by (induction xs) auto

lemma position_SomeD:
  "position P xs = Some i \<Longrightarrow> i < length xs \<and> P (xs ! i) \<and> (\<forall>j < i. \<not> P (xs ! j))"
proof (induction xs arbitrary: i)
  case Nil
  then show ?case by simp
next
  case (Cons x xs)
  show ?case
  proof (cases "P x")
    case True
    with Cons.prems show ?thesis by simp
  next
    case False
    with Cons.prems obtain k where k: "position P xs = Some k" "i = Suc k" by auto
    from Cons.IH[OF k(1)] False k(2) show ?thesis
      by (auto simp: nth_Cons split: nat.splits)
  qed
qed

lemma position_ex: "x \<in> set xs \<Longrightarrow> P x \<Longrightarrow> \<exists>i. position P xs = Some i"
  by (metis not_None_eq position_None)

lemma nth_upd [rust_list]: "xs[i := v] ! j = (if i = j \<and> j < length xs then v else xs ! j)"
  by (cases "i < length xs") (auto simp: nth_list_update list_update_beyond)

lemma filter_update_count_up:
  assumes "k < length xs" "\<not> P (xs ! k)" "P y"
  shows "length (filter P (xs[k := y])) = Suc (length (filter P xs))"
proof -
  have "length (filter P xs) = length (filter P (take k xs @ xs ! k # drop (Suc k) xs))"
    using id_take_nth_drop[OF assms(1)] by simp
  then show ?thesis using assms by (simp add: upd_conv_take_nth_drop)
qed

lemma filter_update_count:
  assumes "k < length xs" "P (xs ! k)" "\<not> P y"
  shows "Suc (length (filter P (xs[k := y]))) = length (filter P xs)"
proof -
  have "length (filter P xs) = length (filter P (take k xs @ xs ! k # drop (Suc k) xs))"
    using id_take_nth_drop[OF assms(1)] by simp
  then show ?thesis using assms by (simp add: upd_conv_take_nth_drop)
qed

definition vec_remove :: "nat \<Rightarrow> 'a list \<Rightarrow> 'a list" where
  "vec_remove i xs = take i xs @ drop (Suc i) xs"

definition vec_insert :: "nat \<Rightarrow> 'a \<Rightarrow> 'a list \<Rightarrow> 'a list" where
  "vec_insert i x xs = take i xs @ x # drop i xs"

lemma set_vec_remove_subset: "set (vec_remove i xs) \<subseteq> set xs"
  using set_take_subset[of i xs] set_drop_subset[of "Suc i" xs] by (auto simp: vec_remove_def)

lemma vec_remove_split: "i < length xs \<Longrightarrow> xs = take i xs @ xs ! i # drop (Suc i) xs"
  by (rule id_take_nth_drop)

lemma length_vec_remove: "i < length xs \<Longrightarrow> length (vec_remove i xs) = length xs - 1"
  by (simp add: vec_remove_def)

lemma length_vec_insert [simp]: "length (vec_insert i x xs) = Suc (length xs)"
  by (simp add: vec_insert_def)

lemma set_vec_insert [simp]: "set (vec_insert i x xs) = insert x (set xs)"
  unfolding vec_insert_def by (metis append_take_drop_id list.set(2) set_append Un_insert_right)

text \<open>\<open>memory[base..end].copy_from_slice(data)\<close>, with \<open>end = base + data.len()\<close>.\<close>

definition copy_at :: "nat \<Rightarrow> 'a list \<Rightarrow> 'a list \<Rightarrow> 'a list" where
  "copy_at base data mem = take base mem @ data @ drop (base + length data) mem"

definition slice :: "nat \<Rightarrow> nat \<Rightarrow> 'a list \<Rightarrow> 'a list" where
  "slice base n mem = take n (drop base mem)"

lemma length_copy_at [simp]:
  "base + length data \<le> length mem \<Longrightarrow> length (copy_at base data mem) = length mem"
  by (simp add: copy_at_def)

lemma slice_copy_at_same [simp]:
  "base + length data \<le> length mem \<Longrightarrow> slice base (length data) (copy_at base data mem) = data"
  by (simp add: slice_def copy_at_def)

lemma nth_copy_at:
  assumes "base + length data \<le> length mem" "i < length mem"
  shows "copy_at base data mem ! i
         = (if base \<le> i \<and> i < base + length data then data ! (i - base) else mem ! i)"
  using assms by (auto simp: copy_at_def nth_append min_def)

lemma nth_copy_at_outside:
  assumes "base + length data \<le> length mem" "i < length mem" "i < base \<or> base + length data \<le> i"
  shows "copy_at base data mem ! i = mem ! i"
  using assms by (auto simp: copy_at_def nth_append min_def)

lemma length_slice [simp]: "base + n \<le> length mem \<Longrightarrow> length (slice base n mem) = n"
  by (simp add: slice_def)

lemma slice_cong_nth:
  assumes "length m1 = length m2" "\<And>i. base \<le> i \<Longrightarrow> i < base + n \<Longrightarrow> i < length m1 \<Longrightarrow> m1 ! i = m2 ! i"
  shows "slice base n m1 = slice base n m2"
  unfolding slice_def by (rule nth_equalityI) (use assms in auto)

section \<open>Little-endian bytes\<close>

fun le_bytes :: "nat \<Rightarrow> 'a::len word \<Rightarrow> u8 list" where
  "le_bytes 0 w = []"
| "le_bytes (Suc n) w = ucast w # le_bytes n (drop_bit 8 w)"

fun from_le_bytes :: "u8 list \<Rightarrow> 'a::len word" where
  "from_le_bytes [] = 0"
| "from_le_bytes (b # bs) = ucast b OR push_bit 8 (from_le_bytes bs)"

lemma length_le_bytes [simp]: "length (le_bytes n w) = n"
  by (induction n arbitrary: w) auto

lemma from_le_bytes_le_bytes:
  fixes w :: "'a::len word"
  assumes "LENGTH('a) \<le> 8 * n"
  shows "from_le_bytes (le_bytes n w) = w"
proof -
  have "from_le_bytes (le_bytes n w) = take_bit (8 * n) w"
  proof (induction n arbitrary: w)
    case 0
    then show ?case by simp
  next
    case (Suc n)
    show ?case
      by (rule bit_word_eqI)
        (auto simp: Suc bit_simps not_less le_add_diff_inverse)
  qed
  with assms show ?thesis
    by (simp add: take_bit_word_eq_self)
qed

end
