(* ===== verification/Btree_Map.thy ===== *)
theory Btree_Map
  imports Prelude
begin

text \<open>
  Rust's \<open>BTreeMap\<close> as a key-ordered association list.  Iteration (\<open>iter\<close>, \<open>values\<close>, \<open>keys\<close>) is
  the list itself, so the order in which the sources visit entries is the order of the model.  The
  locale \<open>btree_interface\<close> states what the components rely on; it is interpreted on the
  association lists at the end of the theory.
\<close>

type_synonym ('k, 'v) btm = "('k \<times> 'v) list"

abbreviation btm_get :: "('k, 'v) btm \<Rightarrow> 'k \<Rightarrow> 'v option" where
  "btm_get m k \<equiv> map_of m k"

fun btm_insert :: "'k::linorder \<Rightarrow> 'v \<Rightarrow> ('k, 'v) btm \<Rightarrow> ('k, 'v) btm" where
  "btm_insert k v [] = [(k, v)]"
| "btm_insert k v ((k', v') # m) =
     (if k < k' then (k, v) # (k', v') # m
      else if k = k' then (k, v) # m
      else (k', v') # btm_insert k v m)"

definition btm_remove :: "'k \<Rightarrow> ('k, 'v) btm \<Rightarrow> ('k, 'v) btm" where
  "btm_remove k m = filter (\<lambda>e. fst e \<noteq> k) m"

definition btm_retain :: "('k \<Rightarrow> 'v \<Rightarrow> bool) \<Rightarrow> ('k, 'v) btm \<Rightarrow> ('k, 'v) btm" where
  "btm_retain P m = filter (\<lambda>e. P (fst e) (snd e)) m"

definition btm_contains :: "('k, 'v) btm \<Rightarrow> 'k \<Rightarrow> bool" where
  "btm_contains m k = (map_of m k \<noteq> None)"

definition btm_sorted :: "('k::linorder, 'v) btm \<Rightarrow> bool" where
  "btm_sorted m = sorted_wrt (<) (map fst m)"

section \<open>The contract\<close>

locale btree_interface =
  fixes empty_m :: "'m"
    and get :: "'m \<Rightarrow> 'k \<Rightarrow> 'v option"
    and insert_m :: "'k \<Rightarrow> 'v \<Rightarrow> 'm \<Rightarrow> 'm"
    and remove_m :: "'k \<Rightarrow> 'm \<Rightarrow> 'm"
    and retain_m :: "('k \<Rightarrow> 'v \<Rightarrow> bool) \<Rightarrow> 'm \<Rightarrow> 'm"
    and entries :: "'m \<Rightarrow> ('k \<times> 'v) set"
    and wf :: "'m \<Rightarrow> bool"
  assumes get_empty: "get empty_m k = None"
    and get_insert: "get (insert_m k v m) j = (if j = k then Some v else get m j)"
    and get_remove: "get (remove_m k m) j = (if j = k then None else get m j)"
    and get_retain: "wf m \<Longrightarrow>
      get (retain_m P m) j = (case get m j of None \<Rightarrow> None | Some v \<Rightarrow> if P j v then Some v else None)"
    and entries_get: "wf m \<Longrightarrow> (k, v) \<in> entries m \<longleftrightarrow> get m k = Some v"
    and wf_empty: "wf empty_m"
    and wf_insert: "wf m \<Longrightarrow> wf (insert_m k v m)"
    and wf_remove: "wf m \<Longrightarrow> wf (remove_m k m)"
    and wf_retain: "wf m \<Longrightarrow> wf (retain_m P m)"
begin

lemma insert_same: "get (insert_m k v m) k = Some v"
  by (simp add: get_insert)

lemma insert_other: "j \<noteq> k \<Longrightarrow> get (insert_m k v m) j = get m j"
  by (simp add: get_insert)

lemma remove_insert_fresh: "get m k = None \<Longrightarrow> get (remove_m k (insert_m k v m)) = get m"
  by (auto simp: get_insert get_remove)

lemma retain_keeps: "wf m \<Longrightarrow> get m k = Some v \<Longrightarrow> P k v \<Longrightarrow> get (retain_m P m) k = Some v"
  by (simp add: get_retain)

lemma retain_drops: "wf m \<Longrightarrow> get m k = Some v \<Longrightarrow> \<not> P k v \<Longrightarrow> get (retain_m P m) k = None"
  by (simp add: get_retain)

lemma retain_SomeD: "wf m \<Longrightarrow> get (retain_m P m) k = Some v \<Longrightarrow> get m k = Some v \<and> P k v"
  by (simp add: get_retain split: option.splits if_splits)

lemma entries_insert:
  "wf m \<Longrightarrow> entries (insert_m k v m) = insert (k, v) {e \<in> entries m. fst e \<noteq> k}"
  by (auto simp: entries_get wf_insert get_insert split: if_splits)

end

section \<open>The association lists satisfy it\<close>

lemma map_of_btm_insert [simp]: "map_of (btm_insert k v m) = (map_of m)(k \<mapsto> v)"
  by (induction k v m rule: btm_insert.induct) (auto simp: fun_eq_iff)

lemma map_of_btm_remove [simp]: "map_of (btm_remove k m) = (map_of m)(k := None)"
  by (induction m) (auto simp: btm_remove_def fun_eq_iff)

lemma set_btm_insert: "set (btm_insert k v m) \<subseteq> insert (k, v) (set m)"
  by (induction k v m rule: btm_insert.induct) auto

lemma set_btm_remove: "set (btm_remove k m) = {e \<in> set m. fst e \<noteq> k}"
  by (auto simp: btm_remove_def)

lemma fst_btm_insert: "fst ` set (btm_insert k v m) = insert k (fst ` set m)"
  by (induction k v m rule: btm_insert.induct) auto

lemma btm_sorted_distinct: "btm_sorted m \<Longrightarrow> distinct (map fst m)"
  unfolding btm_sorted_def by (simp add: strict_sorted_iff)

lemma btm_sorted_mem_iff: "btm_sorted m \<Longrightarrow> (k, v) \<in> set m \<longleftrightarrow> map_of m k = Some v"
  using btm_sorted_distinct[of m] by (metis map_of_SomeD map_of_is_SomeI)

lemma btm_sorted_insert: "btm_sorted m \<Longrightarrow> btm_sorted (btm_insert k v m)"
proof (induction k v m rule: btm_insert.induct)
  case (1 k v)
  then show ?case by (simp add: btm_sorted_def)
next
  case (2 k v k' v' m)
  have keys: "fst ` set (btm_insert k v m) = insert k (fst ` set m)" by (rule fst_btm_insert)
  from 2 keys show ?case
    by (auto simp: btm_sorted_def image_iff Ball_def)
qed

lemma btm_sorted_filter: "btm_sorted m \<Longrightarrow> btm_sorted (filter P m)"
  unfolding btm_sorted_def by (induction m) auto

lemma map_of_btm_retain:
  "distinct (map fst m) \<Longrightarrow>
   map_of (btm_retain P m) j = (case map_of m j of None \<Rightarrow> None | Some v \<Rightarrow> if P j v then Some v else None)"
proof (induction m)
  case Nil
  then show ?case by (simp add: btm_retain_def)
next
  case (Cons e m)
  then have "fst e \<notin> dom (map_of m)" by (simp add: dom_map_of_conv_image_fst)
  then have "map_of m (fst e) = None" by (simp add: domIff)
  with Cons show ?case
    by (auto simp: btm_retain_def split: option.splits)
qed

interpretation btmap: btree_interface "[] :: ('k::linorder, 'v) btm" btm_get btm_insert btm_remove
  btm_retain set btm_sorted
proof (unfold_locales, goal_cases)
  case (4 m P j)
  then show ?case by (simp add: map_of_btm_retain btm_sorted_distinct)
next
  case (5 m k v)
  then show ?case by (rule btm_sorted_mem_iff)
next
  case 6
  show ?case by (simp add: btm_sorted_def)
next
  case (8 m k)
  then show ?case by (simp add: btm_remove_def btm_sorted_filter)
next
  case (9 m P)
  then show ?case by (simp add: btm_retain_def btm_sorted_filter)
qed (auto simp: btm_sorted_insert)

lemma btm_contains_iff: "btm_contains m k \<longleftrightarrow> (\<exists>v. map_of m k = Some v)"
  by (auto simp: btm_contains_def)

lemma btm_retain_mem: "e \<in> set (btm_retain P m) \<longleftrightarrow> e \<in> set m \<and> P (fst e) (snd e)"
  by (auto simp: btm_retain_def)

end
