(* ===== verification/Arch_State.thy ===== *)
theory Arch_State
  imports Btree_Map
begin

text \<open>
  The architectural state space of \<open>src/src/anka64/state.rs\<close>: identities, permissions,
  capabilities, objects, agents, domains, memory requests, transactions and fault records, with
  the pure operations the file defines on them.  Permission sets are the source's bit fields on
  eight-bit words; every identity keeps its own type.
\<close>

section \<open>Identities\<close>

datatype agent_id = AgentId u64
datatype domain_id = DomainId u64
datatype object_id = ObjectId u64
datatype transaction_id = TransactionId u64
datatype core_id = CoreId u64
datatype generation = Generation u64
datatype authority_id = AuthorityId u64

primrec object_id_raw :: "object_id \<Rightarrow> u64" where
  "object_id_raw (ObjectId n) = n"

primrec domain_id_raw :: "domain_id \<Rightarrow> u64" where
  "domain_id_raw (DomainId n) = n"

primrec agent_id_raw :: "agent_id \<Rightarrow> u64" where
  "agent_id_raw (AgentId n) = n"

primrec generation_raw :: "generation \<Rightarrow> u64" where
  "generation_raw (Generation n) = n"

instantiation object_id :: linorder
begin
definition less_eq_object_id :: "object_id \<Rightarrow> object_id \<Rightarrow> bool" where
  "less_eq_object_id a b = (object_id_raw a \<le> object_id_raw b)"
definition less_object_id :: "object_id \<Rightarrow> object_id \<Rightarrow> bool" where
  "less_object_id a b = (object_id_raw a < object_id_raw b)"
instance
proof
  fix a b c :: object_id
  show "(a < b) = (a \<le> b \<and> \<not> b \<le> a)" by (auto simp: less_eq_object_id_def less_object_id_def)
  show "a \<le> a" by (simp add: less_eq_object_id_def)
  show "a \<le> b \<Longrightarrow> b \<le> c \<Longrightarrow> a \<le> c" by (simp add: less_eq_object_id_def)
  show "a \<le> b \<Longrightarrow> b \<le> a \<Longrightarrow> a = b" by (cases a; cases b) (simp add: less_eq_object_id_def)
  show "a \<le> b \<or> b \<le> a" by (auto simp: less_eq_object_id_def)
qed
end

instantiation domain_id :: linorder
begin
definition less_eq_domain_id :: "domain_id \<Rightarrow> domain_id \<Rightarrow> bool" where
  "less_eq_domain_id a b = (domain_id_raw a \<le> domain_id_raw b)"
definition less_domain_id :: "domain_id \<Rightarrow> domain_id \<Rightarrow> bool" where
  "less_domain_id a b = (domain_id_raw a < domain_id_raw b)"
instance
proof
  fix a b c :: domain_id
  show "(a < b) = (a \<le> b \<and> \<not> b \<le> a)" by (auto simp: less_eq_domain_id_def less_domain_id_def)
  show "a \<le> a" by (simp add: less_eq_domain_id_def)
  show "a \<le> b \<Longrightarrow> b \<le> c \<Longrightarrow> a \<le> c" by (simp add: less_eq_domain_id_def)
  show "a \<le> b \<Longrightarrow> b \<le> a \<Longrightarrow> a = b" by (cases a; cases b) (simp add: less_eq_domain_id_def)
  show "a \<le> b \<or> b \<le> a" by (auto simp: less_eq_domain_id_def)
qed
end

instantiation agent_id :: linorder
begin
definition less_eq_agent_id :: "agent_id \<Rightarrow> agent_id \<Rightarrow> bool" where
  "less_eq_agent_id a b = (agent_id_raw a \<le> agent_id_raw b)"
definition less_agent_id :: "agent_id \<Rightarrow> agent_id \<Rightarrow> bool" where
  "less_agent_id a b = (agent_id_raw a < agent_id_raw b)"
instance
proof
  fix a b c :: agent_id
  show "(a < b) = (a \<le> b \<and> \<not> b \<le> a)" by (auto simp: less_eq_agent_id_def less_agent_id_def)
  show "a \<le> a" by (simp add: less_eq_agent_id_def)
  show "a \<le> b \<Longrightarrow> b \<le> c \<Longrightarrow> a \<le> c" by (simp add: less_eq_agent_id_def)
  show "a \<le> b \<Longrightarrow> b \<le> a \<Longrightarrow> a = b" by (cases a; cases b) (simp add: less_eq_agent_id_def)
  show "a \<le> b \<or> b \<le> a" by (auto simp: less_eq_agent_id_def)
qed
end

instantiation generation :: linorder
begin
definition less_eq_generation :: "generation \<Rightarrow> generation \<Rightarrow> bool" where
  "less_eq_generation a b = (generation_raw a \<le> generation_raw b)"
definition less_generation :: "generation \<Rightarrow> generation \<Rightarrow> bool" where
  "less_generation a b = (generation_raw a < generation_raw b)"
instance
proof
  fix a b c :: generation
  show "(a < b) = (a \<le> b \<and> \<not> b \<le> a)" by (auto simp: less_eq_generation_def less_generation_def)
  show "a \<le> a" by (simp add: less_eq_generation_def)
  show "a \<le> b \<Longrightarrow> b \<le> c \<Longrightarrow> a \<le> c" by (simp add: less_eq_generation_def)
  show "a \<le> b \<Longrightarrow> b \<le> a \<Longrightarrow> a = b" by (cases a; cases b) (simp add: less_eq_generation_def)
  show "a \<le> b \<or> b \<le> a" by (auto simp: less_eq_generation_def)
qed
end

lemmas id_order_defs =
  less_eq_object_id_def less_object_id_def less_eq_domain_id_def less_domain_id_def
  less_eq_agent_id_def less_agent_id_def less_eq_generation_def less_generation_def

lemma id_less_simps [simp]:
  "ObjectId a < ObjectId b \<longleftrightarrow> a < b" "ObjectId a \<le> ObjectId b \<longleftrightarrow> a \<le> b"
  "DomainId a < DomainId b \<longleftrightarrow> a < b" "DomainId a \<le> DomainId b \<longleftrightarrow> a \<le> b"
  "AgentId a < AgentId b \<longleftrightarrow> a < b" "AgentId a \<le> AgentId b \<longleftrightarrow> a \<le> b"
  "Generation a < Generation b \<longleftrightarrow> a < b" "Generation a \<le> Generation b \<longleftrightarrow> a \<le> b"
  by (simp_all add: id_order_defs)

primrec generation_next :: "generation \<Rightarrow> generation" where
  "generation_next (Generation n) = Generation (n + 1)"

section \<open>Permissions and device rights\<close>

datatype permissions = Permissions u8

primrec perm_bits :: "permissions \<Rightarrow> u8" where
  "perm_bits (Permissions b) = b"

definition PERM_NONE :: permissions where "PERM_NONE = Permissions 0"
definition READ :: permissions where "READ = Permissions 0x01"
definition WRITE :: permissions where "WRITE = Permissions 0x02"
definition EXECUTE :: permissions where "EXECUTE = Permissions 0x04"
definition ATOMIC :: permissions where "ATOMIC = Permissions 0x08"
definition SEAL :: permissions where "SEAL = Permissions 0x10"
definition RW :: permissions where "RW = Permissions 0x03"
definition RX :: permissions where "RX = Permissions 0x05"
definition RWX :: permissions where "RWX = Permissions 0x07"
definition RWS :: permissions where "RWS = Permissions 0x13"

definition PERM_ALL_BITS :: u64 where "PERM_ALL_BITS = 0x1F"

lemmas perm_consts = PERM_NONE_def READ_def WRITE_def EXECUTE_def ATOMIC_def SEAL_def
  RW_def RX_def RWX_def RWS_def

definition perm_from_bits_checked :: "u64 \<Rightarrow> permissions option" where
  "perm_from_bits_checked bits =
     (if bits AND NOT PERM_ALL_BITS \<noteq> 0 then None else Some (Permissions (ucast bits)))"

definition perm_contains :: "permissions \<Rightarrow> permissions \<Rightarrow> bool" where
  "perm_contains p required = (perm_bits p AND perm_bits required = perm_bits required)"

definition perm_is_subset_of :: "permissions \<Rightarrow> permissions \<Rightarrow> bool" where
  "perm_is_subset_of p superset = perm_contains superset p"

datatype device_rights = DeviceRights u8

primrec dev_bits :: "device_rights \<Rightarrow> u8" where
  "dev_bits (DeviceRights b) = b"

definition DEV_NONE :: device_rights where "DEV_NONE = DeviceRights 0"
definition SUBMIT_READ :: device_rights where "SUBMIT_READ = DeviceRights 0x01"
definition EVENT_WAIT :: device_rights where "EVENT_WAIT = DeviceRights 0x04"
definition NIC_RX :: device_rights where "NIC_RX = DeviceRights 0x08"
definition NIC_TX :: device_rights where "NIC_TX = DeviceRights 0x10"
definition DEV_ALL_BITS :: u64 where "DEV_ALL_BITS = 0x1D"
definition BLOCK_ALLOWED :: device_rights where "BLOCK_ALLOWED = DeviceRights 0x05"
definition NIC_ALLOWED :: device_rights where "NIC_ALLOWED = DeviceRights 0x1C"

definition dev_from_bits_checked :: "u64 \<Rightarrow> device_rights option" where
  "dev_from_bits_checked bits =
     (if bits AND NOT DEV_ALL_BITS \<noteq> 0 then None else Some (DeviceRights (ucast bits)))"

definition dev_contains :: "device_rights \<Rightarrow> device_rights \<Rightarrow> bool" where
  "dev_contains p required = (dev_bits p AND dev_bits required = dev_bits required)"

definition dev_is_subset_of :: "device_rights \<Rightarrow> device_rights \<Rightarrow> bool" where
  "dev_is_subset_of p superset = dev_contains superset p"

section \<open>Capabilities and objects\<close>

record capability64 =
  cap_object :: object_id
  cap_generation :: generation
  cap_offset :: u64
  cap_length :: u64
  cap_permissions :: permissions

definition cap_covers :: "capability64 \<Rightarrow> object_id \<Rightarrow> u64 \<Rightarrow> u64 \<Rightarrow> permissions \<Rightarrow> bool" where
  "cap_covers c object req_offset req_width required \<longleftrightarrow>
     cap_object c = object
     \<and> req_width > 0
     \<and> perm_contains (cap_permissions c) required
     \<and> req_offset \<ge> cap_offset c
     \<and> req_width \<le> cap_length c
     \<and> req_offset - cap_offset c \<le> cap_length c - req_width"

datatype object_state = Active | Sealed | Revoked | Freed

datatype object_kind = Memory | Device | Ipc

record object =
  obj_id :: object_id
  obj_generation :: generation
  obj_size :: u64
  obj_state :: object_state
  obj_kind :: object_kind
  obj_name :: string

definition obj_live :: "object \<Rightarrow> bool" where
  "obj_live ob \<longleftrightarrow> obj_state ob = Active \<or> obj_state ob = Sealed"

section \<open>Agents, domains and requests\<close>

datatype privilege = User | Supervisor

datatype agent_kind = Cpu core_id | Dma | Gpu | Storage | Network

primrec is_cpu :: "agent_kind \<Rightarrow> bool" where
  "is_cpu (Cpu _) = True"
| "is_cpu Dma = False"
| "is_cpu Gpu = False"
| "is_cpu Storage = False"
| "is_cpu Network = False"

record agent_state =
  agent_id :: agent_id
  agent_kind :: agent_kind
  agent_domain :: domain_id

record capability_entry =
  ce_cap :: capability64
  ce_authority_id :: "authority_id option"

record device_authority_entry =
  da_object :: object_id
  da_generation :: generation
  da_rights :: device_rights
  da_authority_id :: authority_id

record domain_state =
  dom_id :: domain_id
  dom_capabilities :: "capability_entry list"
  dom_device_authorities :: "device_authority_entry list"

datatype access_kind = Fetch | Read | Write | Atomic

primrec required_permission :: "access_kind \<Rightarrow> permissions" where
  "required_permission Fetch = EXECUTE"
| "required_permission Read = READ"
| "required_permission Write = WRITE"
| "required_permission Atomic = ATOMIC"

datatype width = Byte | Half | Word | Double

primrec width_bytes :: "width \<Rightarrow> u64" where
  "width_bytes Byte = 1"
| "width_bytes Half = 2"
| "width_bytes Word = 4"
| "width_bytes Double = 8"

record access_context =
  ctx_agent :: agent_id
  ctx_domain :: domain_id
  ctx_privilege :: privilege

record memory_request =
  req_context :: access_context
  req_object :: object_id
  req_offset :: u64
  req_width :: width
  req_length :: u64
  req_kind :: access_kind

section \<open>Faults and transactions\<close>

datatype fault_reason =
    NoCapability | StaleGeneration | WrongPermission | InvalidObject | TranslationFault
  | AlignmentFault | ControlFlowViolation | IllegalInstruction | LengthMismatch | InvalidSpan

primrec fault_reason_display :: "fault_reason \<Rightarrow> string" where
  "fault_reason_display NoCapability = ''NoCapability''"
| "fault_reason_display StaleGeneration = ''StaleGeneration''"
| "fault_reason_display WrongPermission = ''WrongPermission''"
| "fault_reason_display InvalidObject = ''InvalidObject''"
| "fault_reason_display TranslationFault = ''TranslationFault''"
| "fault_reason_display AlignmentFault = ''AlignmentFault''"
| "fault_reason_display ControlFlowViolation = ''ControlFlowViolation''"
| "fault_reason_display IllegalInstruction = ''IllegalInstruction''"
| "fault_reason_display LengthMismatch = ''LengthMismatch''"
| "fault_reason_display InvalidSpan = ''InvalidSpan''"

record return_authority =
  ra_code_object :: object_id
  ra_generation :: generation
  ra_target :: u64

datatype event_cause = Syscall | TimerInterrupt | DeviceInterrupt

record event_frame =
  ef_return_pc :: u64
  ef_return_privilege :: privilege
  ef_interrupts_were_enabled :: bool
  ef_cause :: event_cause

record fault_record =
  fr_agent :: agent_id
  fr_domain :: domain_id
  fr_privilege :: privilege
  fr_transaction :: transaction_id
  fr_object :: object_id
  fr_generation :: "generation option"
  fr_offset :: u64
  fr_width :: width
  fr_length :: u64
  fr_kind :: access_kind
  fr_pc :: "u64 option"
  fr_reason :: fault_reason

datatype tx_state = Requested | Authorized | Prepared | Committed | Faulted

primrec tx_is_terminal :: "tx_state \<Rightarrow> bool" where
  "tx_is_terminal Requested = False"
| "tx_is_terminal Authorized = False"
| "tx_is_terminal Prepared = False"
| "tx_is_terminal Committed = True"
| "tx_is_terminal Faulted = True"

record transaction =
  tx_id :: transaction_id
  tx_request :: memory_request
  tx_state :: tx_state
  tx_auth_generation :: "generation option"
  tx_physical_address :: "u64 option"
  tx_write_data :: "u8 list option"
  tx_read_data :: "u8 list option"
  tx_fault :: "fault_record option"

datatype event = Advance nat | Revoke object_id | Move object_id u64

section \<open>Process, request and delegation identities\<close>

record requester_key =
  rk_slot :: u32
  rk_generation :: u32

record process_key =
  pk_slot :: nat
  pk_generation :: u32

record delegation_id =
  del_client :: process_key
  del_driver :: process_key
  del_incarnation :: u64

record request_handle =
  rh_slot :: u8
  rh_generation :: u64

record device_binding =
  db_object :: object_id
  db_generation :: generation

datatype device_completion_status = Success | DmaFault fault_reason

section \<open>Laws of the permission order and of capability coverage\<close>

lemma perm_contains_refl [simp]: "perm_contains p p"
  by (simp add: perm_contains_def)

lemma perm_contains_trans:
  "perm_contains p q \<Longrightarrow> perm_contains q r \<Longrightarrow> perm_contains p r"
  unfolding perm_contains_def by (metis and.assoc and.commute)

lemma perm_subset_contains:
  "perm_is_subset_of c p \<Longrightarrow> perm_contains c r \<Longrightarrow> perm_contains p r"
  unfolding perm_is_subset_of_def by (rule perm_contains_trans)

lemma dev_contains_trans:
  "dev_contains p q \<Longrightarrow> dev_contains q r \<Longrightarrow> dev_contains p r"
  unfolding dev_contains_def by (metis and.assoc and.commute)

lemma cap_covers_iff:
  "cap_covers c ob ofs w req \<longleftrightarrow>
     cap_object c = ob \<and> 0 < unat w \<and> perm_contains (cap_permissions c) req
     \<and> unat (cap_offset c) \<le> unat ofs
     \<and> unat ofs + unat w \<le> unat (cap_offset c) + unat (cap_length c)"
proof (cases "cap_offset c \<le> ofs")
  case True
  then have "unat (ofs - cap_offset c) = unat ofs - unat (cap_offset c)"
    by (rule unat_minus_exact)
  moreover have "(w \<le> cap_length c \<and> ofs - cap_offset c \<le> cap_length c - w)
      \<longleftrightarrow> unat (ofs - cap_offset c) + unat w \<le> unat (cap_length c)"
    by (rule span_fits_iff)
  moreover have "0 < w \<longleftrightarrow> 0 < unat w" by (simp add: word_less_nat_alt)
  ultimately show ?thesis
    using True by (auto simp: cap_covers_def word_le_nat_alt)
next
  case False
  then show ?thesis by (auto simp: cap_covers_def word_le_nat_alt)
qed

lemma contains_execute_or_write_bits:
  "perm_contains p EXECUTE \<longleftrightarrow> bit (perm_bits p) 2"
  "perm_contains p WRITE \<longleftrightarrow> bit (perm_bits p) 1"
  "perm_contains p READ \<longleftrightarrow> bit (perm_bits p) 0"
  "perm_contains p ATOMIC \<longleftrightarrow> bit (perm_bits p) 3"
  "perm_contains p SEAL \<longleftrightarrow> bit (perm_bits p) 4"
proof -
  have m: "(w AND push_bit n 1 = push_bit n 1) \<longleftrightarrow> bit w n" if "n < 8" for w :: u8 and n
  proof
    assume h: "w AND push_bit n 1 = push_bit n 1"
    have "bit (push_bit n 1 :: u8) n" using that by (simp add: bit_simps)
    with h have "bit (w AND push_bit n 1) n" by simp
    then show "bit w n" by (simp add: bit_simps)
  next
    assume "bit w n"
    then show "w AND push_bit n 1 = push_bit n 1"
      by (intro bit_word_eqI) (auto simp: bit_simps)
  qed
  show "perm_contains p EXECUTE \<longleftrightarrow> bit (perm_bits p) 2"
    using m[of 2 "perm_bits p"] by (simp add: perm_contains_def EXECUTE_def push_bit_eq_mult)
  show "perm_contains p WRITE \<longleftrightarrow> bit (perm_bits p) 1"
    using m[of 1 "perm_bits p"] by (simp add: perm_contains_def WRITE_def push_bit_eq_mult)
  show "perm_contains p READ \<longleftrightarrow> bit (perm_bits p) 0"
    using m[of 0 "perm_bits p"] by (simp add: perm_contains_def READ_def push_bit_eq_mult)
  show "perm_contains p ATOMIC \<longleftrightarrow> bit (perm_bits p) 3"
    using m[of 3 "perm_bits p"] by (simp add: perm_contains_def ATOMIC_def push_bit_eq_mult)
  show "perm_contains p SEAL \<longleftrightarrow> bit (perm_bits p) 4"
    using m[of 4 "perm_bits p"] by (simp add: perm_contains_def SEAL_def push_bit_eq_mult)
qed

lemma tx_is_terminal_iff: "tx_is_terminal s \<longleftrightarrow> s = Committed \<or> s = Faulted"
  by (cases s) auto

end
