(* ===== verification/Step_System.thy ===== *)
theory Step_System
  imports Prelude
begin

text \<open>
  State machines as a pair of an initial predicate and a step relation.  \<open>reachable\<close> is the
  inductive reachability predicate every stateful component uses, \<open>steps\<close> its reflexive
  transitive closure; the locale \<open>step_system\<close> is the contract \<open>initial states satisfy the
  invariant and every step keeps it\<close>, and proves once what the components need from it.
\<close>

inductive reachable :: "('s \<Rightarrow> bool) \<Rightarrow> ('s \<Rightarrow> 's \<Rightarrow> bool) \<Rightarrow> 's \<Rightarrow> bool"
  for init :: "'s \<Rightarrow> bool" and step :: "'s \<Rightarrow> 's \<Rightarrow> bool" where
  reach_init: "init s \<Longrightarrow> reachable init step s"
| reach_step: "reachable init step s \<Longrightarrow> step s t \<Longrightarrow> reachable init step t"

inductive steps :: "('s \<Rightarrow> 's \<Rightarrow> bool) \<Rightarrow> 's \<Rightarrow> 's \<Rightarrow> bool"
  for step :: "'s \<Rightarrow> 's \<Rightarrow> bool" where
  steps_refl: "steps step s s"
| steps_step: "steps step s t \<Longrightarrow> step t u \<Longrightarrow> steps step s u"

lemma steps_keep:
  assumes "steps step s t" and "P s" and "\<And>x y. step x y \<Longrightarrow> P x \<Longrightarrow> P y"
  shows "P t"
  using assms by (induction) auto

lemma reachable_steps:
  "steps step s t \<Longrightarrow> reachable init step s \<Longrightarrow> reachable init step t"
  by (induction rule: steps.induct) (auto intro: reach_step)

locale step_system =
  fixes init :: "'s \<Rightarrow> bool"
    and step :: "'s \<Rightarrow> 's \<Rightarrow> bool"
    and inv :: "'s \<Rightarrow> bool"
  assumes init_inv: "init s \<Longrightarrow> inv s"
    and step_inv: "step s t \<Longrightarrow> inv s \<Longrightarrow> inv t"
begin

lemma invariant_reachable: "reachable init step s \<Longrightarrow> inv s"
  by (induction rule: reachable.induct) (auto intro: init_inv step_inv)

lemma invariant_steps: "steps step s t \<Longrightarrow> inv s \<Longrightarrow> inv t"
  by (induction rule: steps.induct) (auto intro: step_inv)

lemma reachable_keep:
  assumes "reachable init step s" and "\<And>x. init x \<Longrightarrow> P x"
    and "\<And>x y. step x y \<Longrightarrow> inv x \<Longrightarrow> P x \<Longrightarrow> P y"
  shows "P s"
proof -
  from assms(1) have "inv s \<and> P s"
    by (induction rule: reachable.induct) (auto intro: init_inv step_inv assms(2,3))
  then show ?thesis ..
qed

end

end
