(* ===== verification/Cap_Table.thy ===== *)
theory Cap_Table
  imports Arch_State Step_System
begin

text \<open>
  The per-process capability table of \<open>src/src/anka64/state.rs\<close> (\<open>CapabilityHandle\<close>,
  \<open>CapabilitySlotState\<close>, \<open>CapabilityTable\<close>): a fixed array of generation-qualified slots with
  installation, three-condition resolution and drop.  The invariant is the array's length; the
  theorems are resolution after installation, the permanent death of dropped handles, the
  freshness of issued handles and the agreement of the read-only drop preflight with the drop.
\<close>

section \<open>Data\<close>

record capability_handle =
  ch_slot :: u32
  ch_generation :: u32

datatype capability_slot_state =
    SlotFree
  | SlotMemory object_id generation u64 u64 permissions authority_id "delegation_id option"
  | SlotDevice object_id generation device_rights authority_id "delegation_id option"

record capability_slot =
  cs_handle_generation :: u32
  cs_state :: capability_slot_state

record capability_table =
  ct_slots :: "capability_slot list"

definition CAP_TABLE_SIZE :: nat where "CAP_TABLE_SIZE = 16"

datatype resolved_capability =
    ResMemory object_id generation u64 u64 permissions authority_id "delegation_id option"
  | ResDevice object_id generation device_rights authority_id "delegation_id option"

primrec res_authority_id :: "resolved_capability \<Rightarrow> authority_id" where
  "res_authority_id (ResMemory ob g ofs ln p a d) = a"
| "res_authority_id (ResDevice ob g r a d) = a"

primrec res_object :: "resolved_capability \<Rightarrow> object_id" where
  "res_object (ResMemory ob g ofs ln p a d) = ob"
| "res_object (ResDevice ob g r a d) = ob"

primrec res_object_generation :: "resolved_capability \<Rightarrow> generation" where
  "res_object_generation (ResMemory ob g ofs ln p a d) = g"
| "res_object_generation (ResDevice ob g r a d) = g"

primrec res_delegation_id :: "resolved_capability \<Rightarrow> delegation_id option" where
  "res_delegation_id (ResMemory ob g ofs ln p a d) = d"
| "res_delegation_id (ResDevice ob g r a d) = d"

primrec is_memory :: "resolved_capability \<Rightarrow> bool" where
  "is_memory (ResMemory ob g ofs ln p a d) = True"
| "is_memory (ResDevice ob g r a d) = False"

primrec is_device :: "resolved_capability \<Rightarrow> bool" where
  "is_device (ResMemory ob g ofs ln p a d) = False"
| "is_device (ResDevice ob g r a d) = True"

text \<open>The two projections that panic on the other kind return \<open>None\<close> there.\<close>

primrec as_memory :: "resolved_capability \<Rightarrow> (u64 \<times> u64 \<times> permissions) option" where
  "as_memory (ResMemory ob g ofs ln p a d) = Some (ofs, ln, p)"
| "as_memory (ResDevice ob g r a d) = None"

primrec as_device_rights :: "resolved_capability \<Rightarrow> device_rights option" where
  "as_device_rights (ResMemory ob g ofs ln p a d) = None"
| "as_device_rights (ResDevice ob g r a d) = Some r"

section \<open>Operations\<close>

definition cap_table_new :: capability_table where
  "cap_table_new = \<lparr>ct_slots = replicate CAP_TABLE_SIZE
     \<lparr>cs_handle_generation = 0, cs_state = SlotFree\<rparr>\<rparr>"

definition slot_allocatable :: "capability_slot \<Rightarrow> bool" where
  "slot_allocatable s \<longleftrightarrow> cs_state s = SlotFree \<and> cs_handle_generation s \<noteq> u32_max"

text \<open>The enumerating loop both installers share: the first allocatable slot is filled.\<close>

fun install_loop :: "capability_slot_state \<Rightarrow> nat \<Rightarrow> capability_slot list
    \<Rightarrow> (capability_handle \<times> capability_slot list) option" where
  "install_loop st i [] = None"
| "install_loop st i (s # ss) =
     (if slot_allocatable s
      then Some (\<lparr>ch_slot = of_nat i, ch_generation = cs_handle_generation s\<rparr>,
                 s\<lparr>cs_state := st\<rparr> # ss)
      else case install_loop st (i + 1) ss of
             None \<Rightarrow> None
           | Some (h, ss') \<Rightarrow> Some (h, s # ss'))"

definition install_slot :: "capability_table \<Rightarrow> capability_slot_state
    \<Rightarrow> capability_handle option \<times> capability_table" where
  "install_slot t st =
     (case install_loop st 0 (ct_slots t) of
        None \<Rightarrow> (None, t)
      | Some (h, ss) \<Rightarrow> (Some h, t\<lparr>ct_slots := ss\<rparr>))"

definition install_memory :: "capability_table \<Rightarrow> object_id \<Rightarrow> generation \<Rightarrow> u64 \<Rightarrow> u64
    \<Rightarrow> permissions \<Rightarrow> authority_id \<Rightarrow> delegation_id option
    \<Rightarrow> capability_handle option \<times> capability_table" where
  "install_memory t ob g ofs ln p a d = install_slot t (SlotMemory ob g ofs ln p a d)"

definition install_device :: "capability_table \<Rightarrow> object_id \<Rightarrow> generation \<Rightarrow> device_rights
    \<Rightarrow> authority_id \<Rightarrow> delegation_id option \<Rightarrow> capability_handle option \<times> capability_table" where
  "install_device t ob g r a d = install_slot t (SlotDevice ob g r a d)"

definition slot_get :: "capability_table \<Rightarrow> capability_handle \<Rightarrow> capability_slot option" where
  "slot_get t h = (if unat (ch_slot h) < length (ct_slots t)
                   then Some (ct_slots t ! unat (ch_slot h)) else None)"

primrec slot_resolved :: "capability_slot_state \<Rightarrow> resolved_capability option" where
  "slot_resolved SlotFree = None"
| "slot_resolved (SlotMemory ob g ofs ln p a d) = Some (ResMemory ob g ofs ln p a d)"
| "slot_resolved (SlotDevice ob g r a d) = Some (ResDevice ob g r a d)"

primrec slot_authority_id :: "capability_slot_state \<Rightarrow> authority_id option" where
  "slot_authority_id SlotFree = None"
| "slot_authority_id (SlotMemory ob g ofs ln p a d) = Some a"
| "slot_authority_id (SlotDevice ob g r a d) = Some a"

definition resolve :: "capability_table \<Rightarrow> capability_handle
    \<Rightarrow> (object_id \<Rightarrow> generation option) \<Rightarrow> resolved_capability option" where
  "resolve t h current_object_gen =
     (case slot_get t h of
        None \<Rightarrow> None
      | Some s \<Rightarrow>
          if cs_handle_generation s \<noteq> ch_generation h then None
          else case slot_resolved (cs_state s) of
                 None \<Rightarrow> None
               | Some resolved \<Rightarrow>
                   (case current_object_gen (res_object resolved) of
                      None \<Rightarrow> None
                    | Some current_gen \<Rightarrow>
                        if res_object_generation resolved \<noteq> current_gen then None
                        else Some resolved))"

definition drop_handle :: "capability_table \<Rightarrow> capability_handle
    \<Rightarrow> authority_id option \<times> capability_table" where
  "drop_handle t h =
     (case slot_get t h of
        None \<Rightarrow> (None, t)
      | Some s \<Rightarrow>
          if cs_handle_generation s \<noteq> ch_generation h then (None, t)
          else case slot_authority_id (cs_state s) of
                 None \<Rightarrow> (None, t)
               | Some auth_id \<Rightarrow>
                   (case checked_add (cs_handle_generation s) 1 of
                      None \<Rightarrow> (None, t)
                    | Some next_gen \<Rightarrow>
                        (Some auth_id,
                         t\<lparr>ct_slots := (ct_slots t)[unat (ch_slot h) :=
                              \<lparr>cs_handle_generation = next_gen, cs_state = SlotFree\<rparr>]\<rparr>)))"

definition preflight_drop :: "capability_table \<Rightarrow> capability_handle \<Rightarrow> authority_id option" where
  "preflight_drop t h =
     (case slot_get t h of
        None \<Rightarrow> None
      | Some s \<Rightarrow>
          if cs_handle_generation s \<noteq> ch_generation h then None
          else case slot_authority_id (cs_state s) of
                 None \<Rightarrow> None
               | Some auth_id \<Rightarrow>
                   (case checked_add (cs_handle_generation s) 1 of
                      None \<Rightarrow> None
                    | Some next_gen \<Rightarrow> Some auth_id))"

definition free_count :: "capability_table \<Rightarrow> nat" where
  "free_count t = length (filter (\<lambda>s. cs_state s = SlotFree) (ct_slots t))"

definition allocatable_count :: "capability_table \<Rightarrow> nat" where
  "allocatable_count t = length (filter slot_allocatable (ct_slots t))"

definition occupied_count :: "capability_table \<Rightarrow> nat" where
  "occupied_count t = CAP_TABLE_SIZE - free_count t"

section \<open>Invariant and step relation\<close>

definition cap_table_wf :: "capability_table \<Rightarrow> bool" where
  "cap_table_wf t \<longleftrightarrow> length (ct_slots t) = CAP_TABLE_SIZE"

inductive cap_step :: "capability_table \<Rightarrow> capability_table \<Rightarrow> bool" where
  step_install_memory: "cap_step t (snd (install_memory t ob g ofs ln p a d))"
| step_install_device: "cap_step t (snd (install_device t ob g r a d))"
| step_drop: "cap_step t (snd (drop_handle t h))"

inductive_cases cap_stepE: "cap_step t t'"

section \<open>Lemmas on the loop\<close>

lemma install_loop_Some:
  assumes "install_loop st i ss = Some (h, ss')"
  shows "\<exists>k < length ss. slot_allocatable (ss ! k) \<and> (\<forall>j < k. \<not> slot_allocatable (ss ! j))
    \<and> h = \<lparr>ch_slot = of_nat (i + k), ch_generation = cs_handle_generation (ss ! k)\<rparr>
    \<and> ss' = ss[k := (ss ! k)\<lparr>cs_state := st\<rparr>]"
  using assms
proof (induction ss arbitrary: i ss')
  case (Cons s ss)
  show ?case
  proof (cases "slot_allocatable s")
    case True
    with Cons.prems show ?thesis by (intro exI[of _ 0]) auto
  next
    case False
    with Cons.prems obtain ss'' where
      r: "install_loop st (i + 1) ss = Some (h, ss'')" "ss' = s # ss''"
      by (auto split: option.splits)
    from Cons.IH[OF r(1)] obtain k where k: "k < length ss" "slot_allocatable (ss ! k)"
      "\<forall>j < k. \<not> slot_allocatable (ss ! j)"
      "h = \<lparr>ch_slot = of_nat (i + 1 + k), ch_generation = cs_handle_generation (ss ! k)\<rparr>"
      "ss'' = ss[k := (ss ! k)\<lparr>cs_state := st\<rparr>]" by blast
    then show ?thesis using False r(2)
      by (intro exI[of _ "Suc k"]) (auto simp: less_Suc_eq_0_disj add_ac)
  qed
qed simp

lemma install_loop_None_iff:
  "install_loop st i ss = None \<longleftrightarrow> (\<forall>s \<in> set ss. \<not> slot_allocatable s)"
proof (induction ss arbitrary: i)
  case (Cons s ss)
  from Cons.IH[of "i + 1"] show ?case by (auto split: option.splits)
qed simp

lemma unat_slot_index: "k < CAP_TABLE_SIZE \<Longrightarrow> unat (of_nat k :: u32) = k"
  by (simp add: CAP_TABLE_SIZE_def unat_of_nat)

lemma install_slot_Some:
  assumes "install_slot t st = (Some h, t')" and "cap_table_wf t"
  shows "unat (ch_slot h) < length (ct_slots t)
    \<and> slot_allocatable (ct_slots t ! unat (ch_slot h))
    \<and> ch_generation h = cs_handle_generation (ct_slots t ! unat (ch_slot h))
    \<and> t' = t\<lparr>ct_slots := (ct_slots t)[unat (ch_slot h) :=
                (ct_slots t ! unat (ch_slot h))\<lparr>cs_state := st\<rparr>]\<rparr>"
proof -
  from assms(1) obtain ss where "install_loop st 0 (ct_slots t) = Some (h, ss)"
    and t': "t' = t\<lparr>ct_slots := ss\<rparr>"
    by (auto simp: install_slot_def split: option.splits)
  from install_loop_Some[OF this(1)] obtain k where
    "k < length (ct_slots t)" "slot_allocatable (ct_slots t ! k)"
    "h = \<lparr>ch_slot = of_nat k, ch_generation = cs_handle_generation (ct_slots t ! k)\<rparr>"
    "ss = (ct_slots t)[k := (ct_slots t ! k)\<lparr>cs_state := st\<rparr>]" by auto
  moreover have "unat (of_nat k :: u32) = k"
    using calculation(1) assms(2) by (simp add: cap_table_wf_def unat_slot_index)
  ultimately show ?thesis using t' by simp
qed

lemma install_slot_None: "install_slot t st = (None, t') \<Longrightarrow> t' = t"
  by (auto simp: install_slot_def split: option.splits)

lemma drop_handle_None: "drop_handle t h = (None, t') \<Longrightarrow> t' = t"
  by (auto simp: drop_handle_def split: option.splits if_splits)

lemma drop_handle_Some:
  "drop_handle t h = (Some a, t') \<longleftrightarrow>
     unat (ch_slot h) < length (ct_slots t)
     \<and> cs_handle_generation (ct_slots t ! unat (ch_slot h)) = ch_generation h
     \<and> slot_authority_id (cs_state (ct_slots t ! unat (ch_slot h))) = Some a
     \<and> ch_generation h \<noteq> u32_max
     \<and> t' = t\<lparr>ct_slots := (ct_slots t)[unat (ch_slot h) :=
                 \<lparr>cs_handle_generation = ch_generation h + 1, cs_state = SlotFree\<rparr>]\<rparr>"
  by (auto simp: drop_handle_def slot_get_def checked_add_one_u32
           split: option.splits if_splits)

lemma cap_stepD:
  assumes "cap_step t t'"
  obtains (install) st r where "install_slot t st = (r, t')"
  | (drop) h r where "drop_handle t h = (r, t')"
  using assms
proof (cases rule: cap_step.cases)
  case (step_install_memory ob g ofs ln p a d)
  then show ?thesis using install prod.collapse
    by (metis install_memory_def)
next
  case (step_install_device ob g r a d)
  then show ?thesis using install prod.collapse
    by (metis install_device_def)
next
  case (step_drop h)
  then show ?thesis using drop prod.collapse by metis
qed

lemma cap_step_wf: "cap_step t t' \<Longrightarrow> cap_table_wf t \<Longrightarrow> cap_table_wf t'"
proof (erule cap_stepD)
  fix st r assume "install_slot t st = (r, t')" and wf: "cap_table_wf t"
  then show "cap_table_wf t'"
    using install_slot_Some[of t st _ t'] install_slot_None[of t st t']
    by (cases r) (auto simp: cap_table_wf_def)
next
  fix h r assume "drop_handle t h = (r, t')" and "cap_table_wf t"
  then show "cap_table_wf t'"
    using drop_handle_None[of t h t'] drop_handle_Some[of t h _ t']
    by (cases r) (auto simp: cap_table_wf_def)
qed

interpretation cap_sys: step_system "\<lambda>t. t = cap_table_new" cap_step cap_table_wf
  by unfold_locales (auto simp: cap_table_wf_def cap_table_new_def intro: cap_step_wf[unfolded cap_table_wf_def])

text \<open>Slot generations never decrease, and a slot that has left generation \<open>g\<close> never returns.\<close>

definition handle_past :: "capability_handle \<Rightarrow> capability_table \<Rightarrow> bool" where
  "handle_past h t \<longleftrightarrow> cap_table_wf t \<and> unat (ch_slot h) < CAP_TABLE_SIZE
     \<and> unat (ch_generation h) < unat (cs_handle_generation (ct_slots t ! unat (ch_slot h)))"

lemma handle_past_step: "cap_step t t' \<Longrightarrow> handle_past h t \<Longrightarrow> handle_past h t'"
proof (erule cap_stepD)
  fix st r assume "install_slot t st = (r, t')" and p: "handle_past h t"
  then show "handle_past h t'"
    using install_slot_Some[of t st _ t'] install_slot_None[of t st t']
    by (cases r) (auto simp: handle_past_def cap_table_wf_def nth_list_update)
next
  fix h' r assume "drop_handle t h' = (r, t')" and p: "handle_past h t"
  then show "handle_past h t'"
    using drop_handle_None[of t h' t'] drop_handle_Some[of t h' _ t']
    by (cases r) (auto simp: handle_past_def cap_table_wf_def nth_list_update unat_succ_u32)
qed

lemma handle_past_steps: "steps cap_step t t' \<Longrightarrow> handle_past h t \<Longrightarrow> handle_past h t'"
  by (rule steps_keep[of cap_step t t' "handle_past h"]) (auto intro: handle_past_step)

lemma handle_past_dead: "handle_past h t \<Longrightarrow> resolve t h gen_of = None"
  by (auto simp: handle_past_def resolve_def slot_get_def split: option.splits)

lemma drop_handle_past:
  assumes "drop_handle t h = (Some a, t')" "cap_table_wf t"
  shows "handle_past h t'"
  using assms by (auto simp: drop_handle_Some handle_past_def cap_table_wf_def unat_succ_u32)

text \<open>A handle that was issued stays either live in its slot or strictly in the slot's past.\<close>

definition handle_spent :: "capability_handle \<Rightarrow> capability_table \<Rightarrow> bool" where
  "handle_spent h t \<longleftrightarrow> cap_table_wf t \<and> unat (ch_slot h) < CAP_TABLE_SIZE
     \<and> (handle_past h t
        \<or> cs_handle_generation (ct_slots t ! unat (ch_slot h)) = ch_generation h
          \<and> cs_state (ct_slots t ! unat (ch_slot h)) \<noteq> SlotFree)"

lemma handle_spent_step:
  assumes "cap_step t t'" "handle_spent h t"
  shows "handle_spent h t'"
proof (cases "handle_past h t")
  case True
  with assms(1) have "handle_past h t'" by (rule handle_past_step)
  then show ?thesis by (simp add: handle_spent_def handle_past_def)
next
  case False
  let ?k = "unat (ch_slot h)"
  from False assms(2) have live: "cap_table_wf t" "?k < CAP_TABLE_SIZE"
    "cs_handle_generation (ct_slots t ! ?k) = ch_generation h" "cs_state (ct_slots t ! ?k) \<noteq> SlotFree"
    by (auto simp: handle_spent_def)
  have wf': "cap_table_wf t'" using assms(1) live(1) by (rule cap_step_wf)
  from assms(1) show ?thesis
  proof (cases rule: cap_stepD)
    case (install st r)
    then show ?thesis using live wf' install_slot_Some[of t st _ t'] install_slot_None[of t st t']
      by (cases r) (auto simp: handle_spent_def cap_table_wf_def nth_list_update slot_allocatable_def)
  next
    case (drop h' r)
    show ?thesis
    proof (cases r)
      case None
      with drop have "t' = t" using drop_handle_None by blast
      with assms(2) show ?thesis by simp
    next
      case (Some a)
      with drop have d: "drop_handle t h' = (Some a, t')" by simp
      show ?thesis
      proof (cases "unat (ch_slot h') = ?k")
        case True
        with d live have "handle_past h t'"
          by (auto simp: drop_handle_Some handle_past_def cap_table_wf_def unat_succ_u32)
        then show ?thesis by (simp add: handle_spent_def handle_past_def)
      next
        case False
        with d live wf' show ?thesis
          by (auto simp: drop_handle_Some handle_spent_def cap_table_wf_def)
      qed
    qed
  qed
qed

lemma handle_spent_steps: "steps cap_step t t' \<Longrightarrow> handle_spent h t \<Longrightarrow> handle_spent h t'"
  by (rule steps_keep[of cap_step t t' "handle_spent h"]) (auto intro: handle_spent_step)

lemma install_slot_spent:
  "install_slot t st = (Some h, t') \<Longrightarrow> cap_table_wf t \<Longrightarrow> st \<noteq> SlotFree \<Longrightarrow> handle_spent h t'"
  using install_slot_Some[of t st h t'] by (auto simp: handle_spent_def cap_table_wf_def)

lemma spent_not_issued:
  assumes "handle_spent h t" "install_slot t st = (Some h', t')"
  shows "h' \<noteq> h"
proof
  assume "h' = h"
  with assms install_slot_Some[of t st h t'] show False
    by (auto simp: handle_spent_def handle_past_def slot_allocatable_def)
qed

lemma install_slot_resolves:
  assumes "install_slot t st = (Some h, t')" "cap_table_wf t" "slot_resolved st = Some r"
    and "current_gen (res_object r) = Some (res_object_generation r)"
  shows "resolve t' h current_gen = Some r
    \<and> (\<forall>h'. h' \<noteq> h \<longrightarrow> resolve t' h' current_gen = resolve t h' current_gen)"
proof (intro conjI allI impI)
  note i = install_slot_Some[OF assms(1,2)]
  show "resolve t' h current_gen = Some r"
    using i assms(3,4) by (auto simp: resolve_def slot_get_def)
  fix h' assume "h' \<noteq> h"
  show "resolve t' h' current_gen = resolve t h' current_gen"
  proof (cases "ch_slot h' = ch_slot h")
    case True
    with \<open>h' \<noteq> h\<close> have "ch_generation h' \<noteq> ch_generation h" by (cases h; cases h') simp
    with True i show ?thesis by (auto simp: resolve_def slot_get_def)
  next
    case False
    then have "unat (ch_slot h') \<noteq> unat (ch_slot h)" by (simp add: word_unat_eq_iff)
    with i show ?thesis by (simp add: resolve_def slot_get_def)
  qed
qed

lemma cap_reach_new: "reachable (\<lambda>t. t = cap_table_new) cap_step cap_table_new"
  by (rule reach_init) simp

lemma cap_table_new_Cons:
  "ct_slots cap_table_new = \<lparr>cs_handle_generation = 0, cs_state = SlotFree\<rparr>
     # replicate 15 \<lparr>cs_handle_generation = 0, cs_state = SlotFree\<rparr>"
  by (simp add: cap_table_new_def CAP_TABLE_SIZE_def numeral_eq_Suc)

lemmas cap_table_eval = install_memory_def install_device_def install_slot_def slot_allocatable_def
  cap_table_new_Cons drop_handle_def slot_get_def checked_add_one_u32

section \<open>Properties\<close>

text \<open>
  C23: on every reachable table, installing a memory capability makes the returned handle resolve to
  exactly the installed authority for as long as the object keeps its generation, and changes the
  resolution of no other handle.
\<close>

theorem install_memory_resolves:
  assumes "reachable (\<lambda>t. t = cap_table_new) cap_step t"
    and "install_memory t ob g ofs ln p a d = (Some h, t')"
    and "current_gen ob = Some g"
  shows "resolve t' h current_gen = Some (ResMemory ob g ofs ln p a d)
    \<and> (\<forall>h'. h' \<noteq> h \<longrightarrow> resolve t' h' current_gen = resolve t h' current_gen)"
  using install_slot_resolves[OF assms(2)[unfolded install_memory_def]
      cap_sys.invariant_reachable[OF assms(1)]] assms(3) by simp

theorem install_memory_resolves_witness:
  "resolve (snd (install_memory cap_table_new (ObjectId 5) (Generation 0) 0 16 RW (AuthorityId 1) None))
     \<lparr>ch_slot = 0, ch_generation = 0\<rparr> (\<lambda>_. Some (Generation 0))
   = Some (ResMemory (ObjectId 5) (Generation 0) 0 16 RW (AuthorityId 1) None)"
proof -
  let ?i = "install_memory cap_table_new (ObjectId 5) (Generation 0) 0 16 RW (AuthorityId 1) None"
  have "?i = (Some \<lparr>ch_slot = 0, ch_generation = 0\<rparr>, snd ?i)" by (simp add: cap_table_eval)
  from install_memory_resolves[OF cap_reach_new this, of "\<lambda>_. Some (Generation 0)"]
  show ?thesis by simp
qed

text \<open>
  C24: a handle is issued at most once and dies for ever when it is dropped.  Whatever sequence of
  installations and drops follows the installation, of memory or of a device, that returned \<open>h\<close>, no
  later installation returns \<open>h\<close> again, and after a successful drop of \<open>h\<close> no later table resolves it,
  whatever the generations of the objects are.
\<close>

theorem handles_never_reissued:
  assumes "reachable (\<lambda>t. t = cap_table_new) cap_step t"
    and "install_memory t ob g ofs ln p a d = (Some h, t1) \<or> install_device t ob g r a d = (Some h, t1)"
    and "steps cap_step t1 t2"
  shows "fst (install_memory t2 ob' g' ofs' ln' p' a' d') \<noteq> Some h
    \<and> fst (install_device t2 ob' g' r' a' d') \<noteq> Some h
    \<and> (drop_handle t2 h = (Some b, t3) \<and> steps cap_step t3 t4 \<longrightarrow> resolve t4 h current_gen = None)"
proof (intro conjI impI)
  have wf: "cap_table_wf t" using assms(1) by (rule cap_sys.invariant_reachable)
  have "handle_spent h t1"
    using assms(2) install_slot_spent[OF _ wf] unfolding install_memory_def install_device_def by blast
  then have sp: "handle_spent h t2" using assms(3) by (blast intro: handle_spent_steps)
  have fresh: "fst (install_slot t2 st) \<noteq> Some h" for st
    using spent_not_issued[OF sp, of st] by (cases "install_slot t2 st") auto
  show "fst (install_memory t2 ob' g' ofs' ln' p' a' d') \<noteq> Some h"
    and "fst (install_device t2 ob' g' r' a' d') \<noteq> Some h"
    by (simp_all add: install_memory_def install_device_def fresh)
  assume d: "drop_handle t2 h = (Some b, t3) \<and> steps cap_step t3 t4"
  then have "handle_past h t3" using sp by (auto simp: handle_spent_def intro: drop_handle_past)
  with d have "handle_past h t4" by (auto intro: handle_past_steps)
  then show "resolve t4 h current_gen = None" by (rule handle_past_dead)
qed

theorem handles_never_reissued_witness:
  "\<exists>t1 t3. install_device cap_table_new (ObjectId 5) (Generation 0) NIC_RX (AuthorityId 1) None
        = (Some \<lparr>ch_slot = 0, ch_generation = 0\<rparr>, t1)
     \<and> drop_handle t1 \<lparr>ch_slot = 0, ch_generation = 0\<rparr> = (Some (AuthorityId 1), t3)
     \<and> fst (install_device t3 (ObjectId 6) (Generation 0) NIC_RX (AuthorityId 2) None) \<noteq> Some \<lparr>ch_slot = 0, ch_generation = 0\<rparr>
     \<and> resolve t3 \<lparr>ch_slot = 0, ch_generation = 0\<rparr> (\<lambda>_. Some (Generation 0)) = None"
proof -
  let ?i = "install_device cap_table_new (ObjectId 5) (Generation 0) NIC_RX (AuthorityId 1) None"
  let ?h = "\<lparr>ch_slot = 0, ch_generation = 0\<rparr> :: capability_handle"
  let ?d = "drop_handle (snd ?i) ?h"
  have i: "?i = (Some ?h, snd ?i)" by (simp add: cap_table_eval)
  have d: "?d = (Some (AuthorityId 1), snd ?d)" by (simp add: cap_table_eval)
  have s: "steps cap_step (snd ?i) (snd ?d)" using steps_step[of cap_step, OF steps_refl step_drop] .
  note N = handles_never_reissued[OF cap_reach_new disjI2[OF i]]
  have "fst (install_device (snd ?d) (ObjectId 6) (Generation 0) NIC_RX (AuthorityId 2) None) \<noteq> Some ?h"
    using N[OF s] by blast
  moreover have "resolve (snd ?d) ?h (\<lambda>_. Some (Generation 0)) = None" 
    by (rule N[OF steps_refl, THEN conjunct2, THEN conjunct2, THEN mp, OF conjI[OF d steps_refl]])
  ultimately show ?thesis using i d by blast
qed

text \<open>
  C34: slot accounting.  Every reachable table has sixteen slots, \<open>occupied_count\<close> counts exactly the
  slots that are not free, and an installation succeeds if and only if \<open>allocatable_count\<close> is
  positive, in which case it occupies exactly one more slot.
\<close>

theorem cap_table_accounting:
  assumes "reachable (\<lambda>t. t = cap_table_new) cap_step t"
  shows "free_count t + occupied_count t = CAP_TABLE_SIZE
    \<and> occupied_count t = length (filter (\<lambda>s. cs_state s \<noteq> SlotFree) (ct_slots t))
    \<and> (fst (install_memory t ob g ofs ln p a d) \<noteq> None \<longleftrightarrow> 0 < allocatable_count t)
    \<and> (fst (install_memory t ob g ofs ln p a d) \<noteq> None \<longrightarrow>
      occupied_count (snd (install_memory t ob g ofs ln p a d)) = Suc (occupied_count t))"
proof (intro conjI impI)
  have wf: "length (ct_slots t) = CAP_TABLE_SIZE"
    using cap_sys.invariant_reachable[OF assms] by (simp add: cap_table_wf_def)
  have le: "free_count t \<le> CAP_TABLE_SIZE" unfolding free_count_def wf[symmetric] by simp
  then show "free_count t + occupied_count t = CAP_TABLE_SIZE" by (simp add: occupied_count_def)
  show "occupied_count t = length (filter (\<lambda>s. cs_state s \<noteq> SlotFree) (ct_slots t))"
    using sum_length_filter_compl[of "\<lambda>s. cs_state s = SlotFree" "ct_slots t"] wf
    by (simp add: occupied_count_def free_count_def)
  let ?st = "SlotMemory ob g ofs ln p a d"
  show "fst (install_memory t ob g ofs ln p a d) \<noteq> None \<longleftrightarrow> 0 < allocatable_count t"
    using install_loop_None_iff[of ?st 0 "ct_slots t"]
    by (auto simp: install_memory_def install_slot_def allocatable_count_def filter_empty_conv
             split: option.splits)
  assume "fst (install_memory t ob g ofs ln p a d) \<noteq> None"
  then obtain h t' where i: "install_slot t ?st = (Some h, t')"
    by (cases "install_slot t ?st") (auto simp: install_memory_def)
  have "Suc (free_count t') = free_count t"
    using install_slot_Some[OF i] wf
      filter_update_count[of "unat (ch_slot h)" "ct_slots t" "\<lambda>s. cs_state s = SlotFree"
        "(ct_slots t ! unat (ch_slot h))\<lparr>cs_state := ?st\<rparr>"]
    by (simp add: free_count_def cap_table_wf_def slot_allocatable_def)
  with le i show "occupied_count (snd (install_memory t ob g ofs ln p a d)) = Suc (occupied_count t)"
    by (simp add: occupied_count_def install_memory_def)
qed

theorem cap_table_accounting_witness:
  "occupied_count (snd (install_memory cap_table_new (ObjectId 5) (Generation 0) 0 16 RW (AuthorityId 1) None)) = 1"
proof -
  have "fst (install_memory cap_table_new (ObjectId 5) (Generation 0) 0 16 RW (AuthorityId 1) None) \<noteq> None"
    by (simp add: cap_table_eval)
  moreover have "occupied_count cap_table_new = 0"
    by (simp add: occupied_count_def free_count_def cap_table_new_def CAP_TABLE_SIZE_def)
  ultimately show ?thesis
    using cap_table_accounting[OF cap_reach_new] by simp
qed

text \<open>
  C35: the read-only preflight answers exactly what the drop will answer, a refused drop changes
  nothing, and a slot at the terminal generation is never recycled.
\<close>

theorem preflight_drop_agrees:
  "preflight_drop t h = fst (drop_handle t h)
   \<and> (fst (drop_handle t h) = None \<longrightarrow> snd (drop_handle t h) = t)
   \<and> (ch_generation h = u32_max \<longrightarrow> drop_handle t h = (None, t))"
  by (auto simp: preflight_drop_def drop_handle_def checked_add_one_u32 split: option.splits)

theorem preflight_drop_agrees_witness:
  "drop_handle cap_table_new \<lparr>ch_slot = 3, ch_generation = u32_max\<rparr> = (None, cap_table_new)"
  using preflight_drop_agrees[of cap_table_new "\<lparr>ch_slot = 3, ch_generation = u32_max\<rparr>"] by simp

end
