(* ===== verification/Insn_Desc.thy ===== *)
theory Insn_Desc
  imports Prelude
begin

text \<open>
  The machine description of \<open>src/src/anka64/desc.rs\<close>: instruction formats, semantics, memory and
  flag effects, and the instruction table \<open>INSNS\<close> with its two lookups.  The text generator of
  the Kleis theory at the end of that file is not modelled.
\<close>

section \<open>Data\<close>

datatype format = FmtR | FmtI | FmtB | FmtS

datatype alu_op = Add | Sub | And | Or | Xor | Shl | Shr | Asr | Mul

datatype sem =
    SPointerMove | SPointerAdd | SPointerLoad | SPointerStore | SPointerRead | SPointerWrite
  | SPointerFrame | SPointerLocal | SPointerUnframe
  | Alu alu_op | SCmp | SMov | SMovi | SLoad | SLoadByte | SStore | SStoreByte | SXchg | SLea
  | SBranch | SCall | SRet | STrap | SEret | SNop | SHalt

datatype mem_effect = MemNone | MemLoad | MemStore | MemAtomic

datatype flag_effect = FlArith | FlSub | FlLogic | FlNone

datatype operands =
    RdRs1Rs2 | RdRs1 | Rs1Rs2 | RdRs1Imm | Rs1Imm | RdImm | RdBaseDisp | SrcBaseDisp
  | CondOff | Off | PointerWidth | ManifestIndex | Imm8 | NoOps

record insn_desc =
  d_name :: string
  d_opcode :: u8
  d_format :: format
  d_operands :: operands
  d_semantics :: sem
  d_mem :: mem_effect
  d_flags :: flag_effect

definition insn :: "string \<Rightarrow> u8 \<Rightarrow> format \<Rightarrow> operands \<Rightarrow> sem \<Rightarrow> mem_effect \<Rightarrow> flag_effect
    \<Rightarrow> insn_desc" where
  "insn n opc f ops s m fl =
     \<lparr>d_name = n, d_opcode = opc, d_format = f, d_operands = ops, d_semantics = s, d_mem = m,
      d_flags = fl\<rparr>"

section \<open>The table\<close>

definition INSNS :: "insn_desc list" where
  "INSNS = [
     insn ''add'' 0x01 FmtR RdRs1Rs2 (Alu Add) MemNone FlArith,
     insn ''sub'' 0x02 FmtR RdRs1Rs2 (Alu Sub) MemNone FlSub,
     insn ''and'' 0x03 FmtR RdRs1Rs2 (Alu And) MemNone FlLogic,
     insn ''or'' 0x04 FmtR RdRs1Rs2 (Alu Or) MemNone FlLogic,
     insn ''xor'' 0x05 FmtR RdRs1Rs2 (Alu Xor) MemNone FlLogic,
     insn ''shl'' 0x06 FmtR RdRs1Rs2 (Alu Shl) MemNone FlLogic,
     insn ''shr'' 0x07 FmtR RdRs1Rs2 (Alu Shr) MemNone FlLogic,
     insn ''asr'' 0x08 FmtR RdRs1Rs2 (Alu Asr) MemNone FlLogic,
     insn ''mul'' 0x0B FmtR RdRs1Rs2 (Alu Mul) MemNone FlLogic,
     insn ''cmp'' 0x09 FmtR Rs1Rs2 SCmp MemNone FlSub,
     insn ''mov'' 0x0A FmtR RdRs1 SMov MemNone FlNone,
     insn ''addi'' 0x10 FmtI RdRs1Imm (Alu Add) MemNone FlArith,
     insn ''subi'' 0x11 FmtI RdRs1Imm (Alu Sub) MemNone FlSub,
     insn ''andi'' 0x12 FmtI RdRs1Imm (Alu And) MemNone FlLogic,
     insn ''ori'' 0x13 FmtI RdRs1Imm (Alu Or) MemNone FlLogic,
     insn ''xori'' 0x14 FmtI RdRs1Imm (Alu Xor) MemNone FlLogic,
     insn ''cmpi'' 0x15 FmtI Rs1Imm SCmp MemNone FlSub,
     insn ''movi'' 0x16 FmtI RdImm SMovi MemNone FlNone,
     insn ''ld'' 0x20 FmtI RdBaseDisp SLoad MemLoad FlNone,
     insn ''st'' 0x21 FmtI SrcBaseDisp SStore MemStore FlNone,
     insn ''lea'' 0x22 FmtI RdBaseDisp SLea MemNone FlNone,
     insn ''xchg'' 0x23 FmtI RdBaseDisp SXchg MemAtomic FlNone,
     insn ''ldb'' 0x24 FmtI RdBaseDisp SLoadByte MemLoad FlNone,
     insn ''stb'' 0x25 FmtI SrcBaseDisp SStoreByte MemStore FlNone,
     insn ''pmov'' 0x26 FmtR RdRs1 SPointerMove MemNone FlNone,
     insn ''padd'' 0x27 FmtR RdRs1Rs2 SPointerAdd MemNone FlNone,
     insn ''pload'' 0x28 FmtI RdBaseDisp SPointerLoad MemLoad FlNone,
     insn ''pstore'' 0x29 FmtI SrcBaseDisp SPointerStore MemStore FlNone,
     insn ''pread'' 0x2A FmtR PointerWidth SPointerRead MemLoad FlNone,
     insn ''pwrite'' 0x2B FmtR PointerWidth SPointerWrite MemStore FlNone,
     insn ''pframe'' 0x2C FmtS ManifestIndex SPointerFrame MemNone FlNone,
     insn ''plocal'' 0x2D FmtI RdImm SPointerLocal MemNone FlNone,
     insn ''punframe'' 0x2E FmtS NoOps SPointerUnframe MemNone FlNone,
     insn ''b'' 0x30 FmtB CondOff SBranch MemNone FlNone,
     insn ''call'' 0x32 FmtB Off SCall MemNone FlNone,
     insn ''ret'' 0x38 FmtS NoOps SRet MemNone FlNone,
     insn ''trap'' 0x39 FmtS Imm8 STrap MemNone FlNone,
     insn ''eret'' 0x3A FmtS NoOps SEret MemNone FlNone,
     insn ''nop'' 0x3F FmtS NoOps SNop MemNone FlNone,
     insn ''halt'' 0x3E FmtS NoOps SHalt MemNone FlNone]"

definition by_opcode :: "u8 \<Rightarrow> insn_desc option" where
  "by_opcode opc = find (\<lambda>d. d_opcode d = opc) INSNS"

definition by_name :: "string \<Rightarrow> insn_desc option" where
  "by_name n = find (\<lambda>d. d_name d = n) INSNS"

section \<open>Structure of the table\<close>

lemma INSNS_opcodes_distinct: "distinct (map d_opcode INSNS)"
  by (simp add: INSNS_def insn_def)

lemma INSNS_names_distinct: "distinct (map d_name INSNS)"
  by (simp add: INSNS_def insn_def)

lemma INSNS_opcode_range: "d \<in> set INSNS \<Longrightarrow> d_opcode d < 64"
  by (auto simp: INSNS_def insn_def)

lemma find_unique:
  assumes "distinct (map f xs)" "x \<in> set xs"
  shows "find (\<lambda>y. f y = f x) xs = Some x"
  using assms by (induction xs) auto

lemma by_opcode_complete: "d \<in> set INSNS \<Longrightarrow> by_opcode (d_opcode d) = Some d"
  unfolding by_opcode_def by (rule find_unique[OF INSNS_opcodes_distinct])

lemma by_name_complete: "d \<in> set INSNS \<Longrightarrow> by_name (d_name d) = Some d"
  unfolding by_name_def by (rule find_unique[OF INSNS_names_distinct])

lemma by_opcode_SomeD: "by_opcode opc = Some d \<Longrightarrow> d \<in> set INSNS \<and> d_opcode d = opc"
  by (auto simp: by_opcode_def find_Some_iff)

lemma by_name_SomeD: "by_name n = Some d \<Longrightarrow> d \<in> set INSNS \<and> d_name d = n"
  by (auto simp: by_name_def find_Some_iff)

text \<open>The declared memory effect is the effect of the semantics, for every row of the table.\<close>

fun sem_mem_effect :: "sem \<Rightarrow> mem_effect" where
  "sem_mem_effect SLoad = MemLoad"
| "sem_mem_effect SLoadByte = MemLoad"
| "sem_mem_effect SPointerLoad = MemLoad"
| "sem_mem_effect SPointerRead = MemLoad"
| "sem_mem_effect SStore = MemStore"
| "sem_mem_effect SStoreByte = MemStore"
| "sem_mem_effect SPointerStore = MemStore"
| "sem_mem_effect SPointerWrite = MemStore"
| "sem_mem_effect SXchg = MemAtomic"
| "sem_mem_effect _ = MemNone"

lemma INSNS_mem_effect: "d \<in> set INSNS \<Longrightarrow> d_mem d = sem_mem_effect (d_semantics d)"
  by (auto simp: INSNS_def insn_def)

end
