(* ===== verification/Isa.thy ===== *)
theory Isa
  imports Insn_Desc Step_System
begin

text \<open>
  The decoder, disassembler and assembler of \<open>src/src/anka64/isa.rs\<close>.  An \<open>i32\<close> operand is its
  32-bit pattern, read with \<open>sint\<close>; the decoded immediate, an \<open>i64\<close> in the source, is an
  integer.  Assembler methods return \<open>None\<close> where the source panics (an unknown mnemonic, an
  unrepresentable immediate, an illegal pointer operand); the \<open>debug_assert\<close>s are compiled out
  of a release build and are not part of the model.
\<close>

section \<open>Conditions and decoded instructions\<close>

datatype cond = CondEq | CondNe | CondLt | CondGe | CondLe | CondGt | CondUlt | CondUge
  | CondUle | CondUgt | CondAl

primrec cond_as_u8 :: "cond \<Rightarrow> u8" where
  "cond_as_u8 CondEq = 0"
| "cond_as_u8 CondNe = 1"
| "cond_as_u8 CondLt = 2"
| "cond_as_u8 CondGe = 3"
| "cond_as_u8 CondLe = 4"
| "cond_as_u8 CondGt = 5"
| "cond_as_u8 CondUlt = 6"
| "cond_as_u8 CondUge = 7"
| "cond_as_u8 CondUle = 8"
| "cond_as_u8 CondUgt = 9"
| "cond_as_u8 CondAl = 15"

definition cond_from_u8 :: "u8 \<Rightarrow> cond" where
  "cond_from_u8 v =
     (if v = 0 then CondEq else if v = 1 then CondNe
      else if v = 2 then CondLt else if v = 3 then CondGe
      else if v = 4 then CondLe else if v = 5 then CondGt
      else if v = 6 then CondUlt else if v = 7 then CondUge
      else if v = 8 then CondUle else if v = 9 then CondUgt
      else CondAl)"

primrec cond_suffix :: "cond \<Rightarrow> string" where
  "cond_suffix CondEq = ''eq''"
| "cond_suffix CondNe = ''ne''"
| "cond_suffix CondLt = ''lt''"
| "cond_suffix CondGe = ''ge''"
| "cond_suffix CondLe = ''le''"
| "cond_suffix CondGt = ''gt''"
| "cond_suffix CondUlt = ''ult''"
| "cond_suffix CondUge = ''uge''"
| "cond_suffix CondUle = ''ule''"
| "cond_suffix CondUgt = ''ugt''"
| "cond_suffix CondAl = []"

record decoded_insn =
  di_desc :: insn_desc
  di_rd :: u8
  di_rs1 :: u8
  di_rs2 :: u8
  di_imm :: int
  di_cond :: cond
  di_raw :: u32

definition ILLEGAL_DESC :: insn_desc where
  "ILLEGAL_DESC = insn ''???'' 0xFF FmtS NoOps SHalt MemNone FlNone"

definition pair_reg :: "u8 \<Rightarrow> bool" where
  "pair_reg v \<longleftrightarrow> v \<le> 10 \<and> v mod 2 = 0"

definition is_illegal :: "decoded_insn \<Rightarrow> bool" where
  "is_illegal i =
     (if d_opcode (di_desc i) = 0xFF then True
      else let func = di_raw i AND 0x3fff in
        case d_semantics (di_desc i) of
          SPointerMove \<Rightarrow> \<not> pair_reg (di_rd i) \<or> \<not> pair_reg (di_rs1 i) \<or> di_rs2 i \<noteq> 0 \<or> func \<noteq> 0
        | SPointerAdd \<Rightarrow> \<not> pair_reg (di_rd i) \<or> \<not> pair_reg (di_rs1 i) \<or> di_rs2 i > 12 \<or> func \<noteq> 0
        | SPointerLoad \<Rightarrow> \<not> pair_reg (di_rd i) \<or> \<not> pair_reg (di_rs1 i)
        | SPointerStore \<Rightarrow> \<not> pair_reg (di_rd i) \<or> \<not> pair_reg (di_rs1 i)
        | SPointerRead \<Rightarrow> di_rd i > 12 \<or> \<not> pair_reg (di_rs1 i) \<or> di_rs2 i \<noteq> 0 \<or> func > 3
        | SPointerWrite \<Rightarrow> di_rd i > 12 \<or> \<not> pair_reg (di_rs1 i) \<or> di_rs2 i \<noteq> 0 \<or> func > 3
        | SPointerLocal \<Rightarrow> \<not> pair_reg (di_rd i) \<or> di_rs1 i \<noteq> 0 \<or> di_imm i < 0
        | SPointerUnframe \<Rightarrow> di_raw i AND 0x3ffffff \<noteq> 0
        | _ \<Rightarrow> False)"

section \<open>Immediates, encoders and the decoder\<close>

definition IMM18_MIN :: int where "IMM18_MIN = - 131072"
definition IMM18_MAX :: int where "IMM18_MAX = 131071"

definition fits_imm18 :: "int \<Rightarrow> bool" where
  "fits_imm18 v \<longleftrightarrow> v \<ge> IMM18_MIN \<and> v \<le> IMM18_MAX"

definition encode_r :: "u8 \<Rightarrow> u8 \<Rightarrow> u8 \<Rightarrow> u8 \<Rightarrow> u32" where
  "encode_r opcode rd rs1 rs2 =
     push_bit 26 (ucast opcode) OR push_bit 22 (ucast rd AND 0xF)
     OR push_bit 18 (ucast rs1 AND 0xF) OR push_bit 14 (ucast rs2 AND 0xF)"

definition encode_i :: "u8 \<Rightarrow> u8 \<Rightarrow> u8 \<Rightarrow> u32 \<Rightarrow> u32" where
  "encode_i opcode rd rs1 imm =
     push_bit 26 (ucast opcode) OR push_bit 22 (ucast rd AND 0xF)
     OR push_bit 18 (ucast rs1 AND 0xF) OR (imm AND 0x3FFFF)"

definition encode_b :: "u8 \<Rightarrow> u8 \<Rightarrow> u32 \<Rightarrow> u32" where
  "encode_b opcode cnd ofs =
     push_bit 26 (ucast opcode) OR push_bit 22 (ucast cnd AND 0xF) OR (ofs AND 0x3FFFFF)"

definition encode_s :: "u8 \<Rightarrow> u32 \<Rightarrow> u32" where
  "encode_s opcode imm = push_bit 26 (ucast opcode) OR (imm AND 0x3FFFFFF)"

definition sign_extend :: "u32 \<Rightarrow> nat \<Rightarrow> int" where
  "sign_extend val bits = (let shift = 32 - bits in sint (signed_drop_bit shift (push_bit shift val)))"

definition decode :: "u32 \<Rightarrow> decoded_insn" where
  "decode word =
     (let opcode = ucast (drop_bit 26 word AND 0x3F) :: u8;
          rd = ucast (drop_bit 22 word AND 0xF);
          rs1 = ucast (drop_bit 18 word AND 0xF);
          rs2 = ucast (drop_bit 14 word AND 0xF);
          imm18 = sign_extend (word AND 0x3FFFF) 18;
          off22 = sign_extend (word AND 0x3FFFFF) 22;
          imm26 = uint (word AND 0x3FFFFFF)
      in case by_opcode opcode of
           Some d \<Rightarrow>
             (let (imm, cond_val) = (case d_format d of
                    FmtR \<Rightarrow> (0, CondAl)
                  | FmtI \<Rightarrow> (imm18, CondAl)
                  | FmtB \<Rightarrow> (off22, cond_from_u8 rd)
                  | FmtS \<Rightarrow> (imm26, CondAl))
              in \<lparr>di_desc = d, di_rd = rd, di_rs1 = rs1, di_rs2 = rs2, di_imm = imm,
                  di_cond = cond_val, di_raw = word\<rparr>)
         | None \<Rightarrow> \<lparr>di_desc = ILLEGAL_DESC, di_rd = 0, di_rs1 = 0, di_rs2 = 0, di_imm = 0,
                    di_cond = CondAl, di_raw = word\<rparr>)"

section \<open>The disassembler\<close>

text \<open>Rust's decimal and upper-case hexadecimal formatting.\<close>

definition digit_char :: "nat \<Rightarrow> char" where
  "digit_char n = (if n < 10 then char_of (48 + n) else char_of (55 + n))"

fun nat_digits :: "nat \<Rightarrow> nat \<Rightarrow> string" where
  "nat_digits b n = (if b < 2 \<or> n < b then [digit_char n]
                     else nat_digits b (n div b) @ [digit_char (n mod b)])"

declare nat_digits.simps [simp del]

definition show_int :: "int \<Rightarrow> string" where
  "show_int i = (if i < 0 then ''-'' @ nat_digits 10 (nat (- i)) else nat_digits 10 (nat i))"

definition show_hex :: "nat \<Rightarrow> nat \<Rightarrow> string" where
  "show_hex w n = (let s = nat_digits 16 n in replicate (w - length s) (CHR ''0'') @ s)"

definition REG_NAMES :: "string list" where
  "REG_NAMES = [''r0'', ''r1'', ''r2'', ''r3'', ''r4'', ''r5'', ''r6'', ''r7'',
     ''r8'', ''r9'', ''r10'', ''r11'', ''r12'', ''fp'', ''lr'', ''sp'']"

definition reg_name :: "u8 \<Rightarrow> string" where
  "reg_name r = REG_NAMES ! unat r"

definition disassemble :: "decoded_insn \<Rightarrow> string" where
  "disassemble i =
     (if is_illegal i then ''.word 0x'' @ show_hex 8 (unat (di_raw i))
      else let d = di_desc i; rd = reg_name (di_rd i); rs1 = reg_name (di_rs1 i);
               rs2 = reg_name (di_rs2 i); imm = show_int (di_imm i) in
        case d_operands d of
          RdRs1Rs2 \<Rightarrow> d_name d @ '' '' @ rd @ '', '' @ rs1 @ '', '' @ rs2
        | RdRs1 \<Rightarrow> d_name d @ '' '' @ rd @ '', '' @ rs1
        | Rs1Rs2 \<Rightarrow> d_name d @ '' '' @ rs1 @ '', '' @ rs2
        | RdRs1Imm \<Rightarrow> d_name d @ '' '' @ rd @ '', '' @ rs1 @ '', #'' @ imm
        | Rs1Imm \<Rightarrow> d_name d @ '' '' @ rs1 @ '', #'' @ imm
        | RdImm \<Rightarrow> d_name d @ '' '' @ rd @ '', #'' @ imm
        | RdBaseDisp \<Rightarrow> d_name d @ '' '' @ rd @ '', ['' @ rs1 @ '' + '' @ imm @ '']''
        | SrcBaseDisp \<Rightarrow> d_name d @ '' '' @ rd @ '', ['' @ rs1 @ '' + '' @ imm @ '']''
        | CondOff \<Rightarrow> ''b'' @ cond_suffix (di_cond i) @ '' '' @ imm
        | Off \<Rightarrow> d_name d @ '' '' @ imm
        | Imm8 \<Rightarrow> d_name d @ '' #'' @ show_int (di_imm i mod 256)
        | PointerWidth \<Rightarrow> d_name d @ '' '' @ rd @ '', ['' @ rs1 @ ''], ''
            @ show_int (2 ^ unat (di_raw i AND 3))
        | ManifestIndex \<Rightarrow> d_name d @ '' #'' @ imm
        | NoOps \<Rightarrow> d_name d)"

section \<open>The assembler\<close>

record asm64 =
  asm_words :: "u32 list"

definition asm_new :: asm64 where "asm_new = \<lparr>asm_words = []\<rparr>"

text \<open>\<open>words_mut\<close> lends the word vector; \<open>edit\<close> is whatever the borrower does to it.\<close>

definition words_mut :: "(u32 list \<Rightarrow> u32 list) \<Rightarrow> asm64 \<Rightarrow> asm64" where
  "words_mut edit a = a\<lparr>asm_words := edit (asm_words a)\<rparr>"

definition asm_here :: "asm64 \<Rightarrow> u32" where
  "asm_here a = of_nat (length (asm_words a))"

definition asm_push :: "asm64 \<Rightarrow> u32 \<Rightarrow> asm64" where
  "asm_push a w = a\<lparr>asm_words := asm_words a @ [w]\<rparr>"

definition emit_r_named :: "string \<Rightarrow> u8 \<Rightarrow> u8 \<Rightarrow> u8 \<Rightarrow> asm64 \<Rightarrow> asm64 option" where
  "emit_r_named n rd rs1 rs2 a =
     (case by_name n of None \<Rightarrow> None
      | Some d \<Rightarrow> Some (asm_push a (encode_r (d_opcode d) rd rs1 rs2)))"

definition emit_i_named :: "string \<Rightarrow> u8 \<Rightarrow> u8 \<Rightarrow> u32 \<Rightarrow> asm64 \<Rightarrow> asm64 option" where
  "emit_i_named n rd rs1 imm a =
     (if \<not> fits_imm18 (sint imm) then None
      else case by_name n of None \<Rightarrow> None
      | Some d \<Rightarrow> Some (asm_push a (encode_i (d_opcode d) rd rs1 imm)))"

definition emit_b_named :: "string \<Rightarrow> u8 \<Rightarrow> u32 \<Rightarrow> asm64 \<Rightarrow> asm64 option" where
  "emit_b_named n cnd ofs a =
     (case by_name n of None \<Rightarrow> None
      | Some d \<Rightarrow> Some (asm_push a (encode_b (d_opcode d) cnd ofs)))"

definition emit_s_named :: "string \<Rightarrow> u32 \<Rightarrow> asm64 \<Rightarrow> asm64 option" where
  "emit_s_named n imm a =
     (case by_name n of None \<Rightarrow> None
      | Some d \<Rightarrow> Some (asm_push a (encode_s (d_opcode d) imm)))"

definition asm_add :: "u8 \<Rightarrow> u8 \<Rightarrow> u8 \<Rightarrow> asm64 \<Rightarrow> asm64 option" where
  "asm_add rd a b = emit_r_named ''add'' rd a b"
definition asm_sub :: "u8 \<Rightarrow> u8 \<Rightarrow> u8 \<Rightarrow> asm64 \<Rightarrow> asm64 option" where
  "asm_sub rd a b = emit_r_named ''sub'' rd a b"
definition asm_and :: "u8 \<Rightarrow> u8 \<Rightarrow> u8 \<Rightarrow> asm64 \<Rightarrow> asm64 option" where
  "asm_and rd a b = emit_r_named ''and'' rd a b"
definition asm_or :: "u8 \<Rightarrow> u8 \<Rightarrow> u8 \<Rightarrow> asm64 \<Rightarrow> asm64 option" where
  "asm_or rd a b = emit_r_named ''or'' rd a b"
definition asm_xor :: "u8 \<Rightarrow> u8 \<Rightarrow> u8 \<Rightarrow> asm64 \<Rightarrow> asm64 option" where
  "asm_xor rd a b = emit_r_named ''xor'' rd a b"
definition asm_shl :: "u8 \<Rightarrow> u8 \<Rightarrow> u8 \<Rightarrow> asm64 \<Rightarrow> asm64 option" where
  "asm_shl rd a b = emit_r_named ''shl'' rd a b"
definition asm_shr :: "u8 \<Rightarrow> u8 \<Rightarrow> u8 \<Rightarrow> asm64 \<Rightarrow> asm64 option" where
  "asm_shr rd a b = emit_r_named ''shr'' rd a b"
definition asm_asr :: "u8 \<Rightarrow> u8 \<Rightarrow> u8 \<Rightarrow> asm64 \<Rightarrow> asm64 option" where
  "asm_asr rd a b = emit_r_named ''asr'' rd a b"
definition asm_cmp :: "u8 \<Rightarrow> u8 \<Rightarrow> asm64 \<Rightarrow> asm64 option" where
  "asm_cmp a b = emit_r_named ''cmp'' 0 a b"
definition asm_mov :: "u8 \<Rightarrow> u8 \<Rightarrow> asm64 \<Rightarrow> asm64 option" where
  "asm_mov rd rs = emit_r_named ''mov'' rd rs 0"
definition asm_mul :: "u8 \<Rightarrow> u8 \<Rightarrow> u8 \<Rightarrow> asm64 \<Rightarrow> asm64 option" where
  "asm_mul rd a b = emit_r_named ''mul'' rd a b"

definition asm_addi :: "u8 \<Rightarrow> u8 \<Rightarrow> u32 \<Rightarrow> asm64 \<Rightarrow> asm64 option" where
  "asm_addi rd a i = emit_i_named ''addi'' rd a i"
definition asm_subi :: "u8 \<Rightarrow> u8 \<Rightarrow> u32 \<Rightarrow> asm64 \<Rightarrow> asm64 option" where
  "asm_subi rd a i = emit_i_named ''subi'' rd a i"
definition asm_cmpi :: "u8 \<Rightarrow> u32 \<Rightarrow> asm64 \<Rightarrow> asm64 option" where
  "asm_cmpi a i = emit_i_named ''cmpi'' 0 a i"
definition asm_movi :: "u8 \<Rightarrow> u32 \<Rightarrow> asm64 \<Rightarrow> asm64 option" where
  "asm_movi rd i = emit_i_named ''movi'' rd 0 i"
definition asm_ld :: "u8 \<Rightarrow> u8 \<Rightarrow> u32 \<Rightarrow> asm64 \<Rightarrow> asm64 option" where
  "asm_ld rd base disp = emit_i_named ''ld'' rd base disp"
definition asm_ldb :: "u8 \<Rightarrow> u8 \<Rightarrow> u32 \<Rightarrow> asm64 \<Rightarrow> asm64 option" where
  "asm_ldb rd base disp = emit_i_named ''ldb'' rd base disp"
definition asm_stb :: "u8 \<Rightarrow> u8 \<Rightarrow> u32 \<Rightarrow> asm64 \<Rightarrow> asm64 option" where
  "asm_stb src base disp = emit_i_named ''stb'' src base disp"
definition asm_st :: "u8 \<Rightarrow> u8 \<Rightarrow> u32 \<Rightarrow> asm64 \<Rightarrow> asm64 option" where
  "asm_st src base disp = emit_i_named ''st'' src base disp"
definition asm_lea :: "u8 \<Rightarrow> u8 \<Rightarrow> u32 \<Rightarrow> asm64 \<Rightarrow> asm64 option" where
  "asm_lea rd base disp = emit_i_named ''lea'' rd base disp"
definition asm_xchg :: "u8 \<Rightarrow> u8 \<Rightarrow> u32 \<Rightarrow> asm64 \<Rightarrow> asm64 option" where
  "asm_xchg rd base disp = emit_i_named ''xchg'' rd base disp"

definition emit_pointer_word :: "u32 \<Rightarrow> asm64 \<Rightarrow> asm64 option" where
  "emit_pointer_word word a = (if is_illegal (decode word) then None else Some (asm_push a word))"

definition asm_pmov :: "u8 \<Rightarrow> u8 \<Rightarrow> asm64 \<Rightarrow> asm64 option" where
  "asm_pmov d s a = (if \<not> pair_reg d \<or> \<not> pair_reg s then None
     else emit_pointer_word (encode_r 0x26 d s 0) a)"
definition asm_padd :: "u8 \<Rightarrow> u8 \<Rightarrow> u8 \<Rightarrow> asm64 \<Rightarrow> asm64 option" where
  "asm_padd d s t a = (if \<not> pair_reg d \<or> \<not> pair_reg s \<or> t > 12 then None
     else emit_pointer_word (encode_r 0x27 d s t) a)"
definition asm_pload :: "u8 \<Rightarrow> u8 \<Rightarrow> u32 \<Rightarrow> asm64 \<Rightarrow> asm64 option" where
  "asm_pload d s disp a = (if \<not> pair_reg d \<or> \<not> pair_reg s \<or> \<not> fits_imm18 (sint disp) then None
     else emit_pointer_word (encode_i 0x28 d s disp) a)"
definition asm_pstore :: "u8 \<Rightarrow> u8 \<Rightarrow> u32 \<Rightarrow> asm64 \<Rightarrow> asm64 option" where
  "asm_pstore d s disp a = (if \<not> pair_reg d \<or> \<not> pair_reg s \<or> \<not> fits_imm18 (sint disp) then None
     else emit_pointer_word (encode_i 0x29 d s disp) a)"

text \<open>\<open>trailing_zeros\<close> on the four widths the assertion admits.\<close>

definition width_log :: "u64 \<Rightarrow> u32 option" where
  "width_log w = (if w = 1 then Some 0 else if w = 2 then Some 1 else if w = 4 then Some 2
                  else if w = 8 then Some 3 else None)"

definition asm_pointer_width :: "u8 \<Rightarrow> u8 \<Rightarrow> u8 \<Rightarrow> u64 \<Rightarrow> asm64 \<Rightarrow> asm64 option" where
  "asm_pointer_width opc d s w a =
     (if d > 12 \<or> \<not> pair_reg s then None
      else case width_log w of None \<Rightarrow> None
      | Some z \<Rightarrow> emit_pointer_word (encode_r opc d s 0 OR z) a)"
definition asm_pread :: "u8 \<Rightarrow> u8 \<Rightarrow> u64 \<Rightarrow> asm64 \<Rightarrow> asm64 option" where
  "asm_pread d s w = asm_pointer_width 0x2a d s w"
definition asm_pwrite :: "u8 \<Rightarrow> u8 \<Rightarrow> u64 \<Rightarrow> asm64 \<Rightarrow> asm64 option" where
  "asm_pwrite d s w = asm_pointer_width 0x2b d s w"
definition asm_pframe :: "u32 \<Rightarrow> asm64 \<Rightarrow> asm64 option" where
  "asm_pframe index a = (if index \<ge> 2 ^ 26 then None else emit_pointer_word (encode_s 0x2c index) a)"
definition asm_plocal :: "u8 \<Rightarrow> u32 \<Rightarrow> asm64 \<Rightarrow> asm64 option" where
  "asm_plocal d index a = (if \<not> pair_reg d \<or> index \<ge> 2 ^ 17 then None
     else emit_pointer_word (encode_i 0x2d d 0 index) a)"
definition asm_punframe :: "asm64 \<Rightarrow> asm64 option" where
  "asm_punframe a = emit_pointer_word (encode_s 0x2e 0) a"

definition asm_bcc :: "cond \<Rightarrow> u32 \<Rightarrow> asm64 \<Rightarrow> asm64 option" where
  "asm_bcc c word_off = emit_b_named ''b'' (cond_as_u8 c) word_off"
definition asm_call :: "u32 \<Rightarrow> asm64 \<Rightarrow> asm64 option" where
  "asm_call word_off = emit_b_named ''call'' 0 word_off"
definition asm_ret :: "asm64 \<Rightarrow> asm64 option" where
  "asm_ret = emit_s_named ''ret'' 0"
definition asm_trap :: "u8 \<Rightarrow> asm64 \<Rightarrow> asm64 option" where
  "asm_trap v = emit_s_named ''trap'' (ucast v)"
definition asm_eret :: "asm64 \<Rightarrow> asm64 option" where
  "asm_eret = emit_s_named ''eret'' 0"
definition asm_nop :: "asm64 \<Rightarrow> asm64 option" where
  "asm_nop = emit_s_named ''nop'' 0"
definition asm_halt :: "asm64 \<Rightarrow> asm64 option" where
  "asm_halt = emit_s_named ''halt'' 0"

definition to_bytes :: "asm64 \<Rightarrow> u8 list" where
  "to_bytes a = concat (map (le_bytes 4) (asm_words a))"

fun listing_from :: "nat \<Rightarrow> u32 list \<Rightarrow> string" where
  "listing_from i [] = []"
| "listing_from i (w # ws) =
     show_hex 4 (i * 4) @ '': '' @ show_hex 8 (unat w) @ ''  '' @ disassemble (decode w)
     @ [char_of (10::nat)] @ listing_from (i + 1) ws"

definition listing :: "asm64 \<Rightarrow> string" where
  "listing a = listing_from 0 (asm_words a)"

section \<open>Field extraction\<close>

lemma isa_masks:
  "(0xF :: u32) = mask 4" "(0x3F :: u32) = mask 6" "(0x3FFFF :: u32) = mask 18"
  "(0x3FFFFF :: u32) = mask 22" "(0x3FFFFFF :: u32) = mask 26" "(0x3fff :: u32) = mask 14"
  by (simp_all add: mask_eq_exp_minus_1)

lemma small_word_bits: "(w::u8) < 2 ^ n \<Longrightarrow> bit w k \<Longrightarrow> k < n"
  by (metis bit_take_bit_iff less_mask_eq take_bit_eq_mask)

lemma reg_bits: "(w::u8) < 16 \<Longrightarrow> bit w k \<Longrightarrow> k < 4"
  using small_word_bits[of w 4] by simp

lemma opc_bits: "(w::u8) < 64 \<Longrightarrow> bit w k \<Longrightarrow> k < 6"
  using small_word_bits[of w 6] by simp

lemma encode_r_fields:
  assumes "opc < 64"
  shows "ucast (drop_bit 26 (encode_r opc rd rs1 rs2) AND 0x3F) = opc"
    and "rd < 16 \<Longrightarrow> ucast (drop_bit 22 (encode_r opc rd rs1 rs2) AND 0xF) = rd"
    and "rs1 < 16 \<Longrightarrow> ucast (drop_bit 18 (encode_r opc rd rs1 rs2) AND 0xF) = rs1"
    and "rs2 < 16 \<Longrightarrow> ucast (drop_bit 14 (encode_r opc rd rs1 rs2) AND 0xF) = rs2"
    and "encode_r opc rd rs1 rs2 AND 0x3fff = 0"
  unfolding isa_masks encode_r_def
  by (rule bit_word_eqI; use assms in \<open>auto simp: bit_simps dest: reg_bits opc_bits\<close>)+

lemma encode_i_fields:
  assumes "opc < 64"
  shows "ucast (drop_bit 26 (encode_i opc rd rs1 imm) AND 0x3F) = opc"
    and "rd < 16 \<Longrightarrow> ucast (drop_bit 22 (encode_i opc rd rs1 imm) AND 0xF) = rd"
    and "rs1 < 16 \<Longrightarrow> ucast (drop_bit 18 (encode_i opc rd rs1 imm) AND 0xF) = rs1"
    and "encode_i opc rd rs1 imm AND 0x3FFFF = imm AND 0x3FFFF"
  unfolding isa_masks encode_i_def
  by (rule bit_word_eqI; use assms in \<open>auto simp: bit_simps dest: reg_bits opc_bits\<close>)+

lemma encode_b_fields:
  assumes "opc < 64"
  shows "ucast (drop_bit 26 (encode_b opc cnd ofs) AND 0x3F) = opc"
    and "cnd < 16 \<Longrightarrow> ucast (drop_bit 22 (encode_b opc cnd ofs) AND 0xF) = cnd"
    and "encode_b opc cnd ofs AND 0x3FFFFF = ofs AND 0x3FFFFF"
  unfolding isa_masks encode_b_def
  by (rule bit_word_eqI; use assms in \<open>auto simp: bit_simps dest: reg_bits opc_bits\<close>)+

lemma encode_s_fields:
  assumes "opc < 64"
  shows "ucast (drop_bit 26 (encode_s opc imm) AND 0x3F) = opc"
    and "encode_s opc imm AND 0x3FFFFFF = imm AND 0x3FFFFFF"
  unfolding isa_masks encode_s_def
  by (rule bit_word_eqI; use assms in \<open>auto simp: bit_simps dest: reg_bits opc_bits\<close>)+

text \<open>Sign extension recovers every value that is representable in the field.\<close>

lemma sint_high_bits:
  fixes w :: u32
  assumes "- (2 ^ k) \<le> sint w" "sint w < 2 ^ k" "k < 31" "k \<le> n" "n < 32"
  shows "bit w n \<longleftrightarrow> bit w k"
proof -
  have "signed_take_bit k (sint w) = sint w"
    using assms(1,2) by (simp add: signed_take_bit_int_eq_self)
  moreover have "bit (signed_take_bit k (sint w)) n \<longleftrightarrow> bit (signed_take_bit k (sint w)) k"
    using assms(4) by (simp add: bit_signed_take_bit_iff min_def)
  ultimately have "bit (sint w) n \<longleftrightarrow> bit (sint w) k" by simp
  then show ?thesis using assms(3-5) by (simp add: bit_simps)
qed

lemma sign_extend_field:
  fixes w :: u32
  assumes "- (2 ^ (b - 1)) \<le> sint w" "sint w < 2 ^ (b - 1)" "1 < b" "b < 32"
  shows "sign_extend (w AND mask b) b = sint w"
proof -
  have "signed_drop_bit (32 - b) (push_bit (32 - b) (w AND mask b)) = w"
  proof (rule bit_word_eqI)
    fix n assume n: "n < LENGTH(32)"
    show "bit (signed_drop_bit (32 - b) (push_bit (32 - b) (w AND mask b))) n = bit w n"
      using n assms(3,4) sint_high_bits[OF assms(1,2), of n] by (auto simp: bit_simps not_le)
  qed
  then show ?thesis by (simp add: sign_extend_def)
qed

lemma sign_extend_imm18: "fits_imm18 (sint w) \<Longrightarrow> sign_extend (w AND 0x3FFFF) 18 = sint w"
  unfolding isa_masks by (rule sign_extend_field) (auto simp: fits_imm18_def IMM18_MIN_def IMM18_MAX_def)

definition fits_off22 :: "int \<Rightarrow> bool" where
  "fits_off22 v \<longleftrightarrow> - (2 ^ 21) \<le> v \<and> v < 2 ^ 21"

lemma sign_extend_off22: "fits_off22 (sint w) \<Longrightarrow> sign_extend (w AND 0x3FFFFF) 22 = sint w"
  unfolding isa_masks by (rule sign_extend_field) (auto simp: fits_off22_def)

lemma cond_roundtrip [simp]: "cond_from_u8 (cond_as_u8 c) = c"
  by (cases c) (simp_all add: cond_from_u8_def)

lemma cond_as_u8_less: "cond_as_u8 c < 16"
  by (cases c) simp_all

section \<open>Decoding what the encoders produce\<close>

lemma decode_encode_r:
  assumes "d \<in> set INSNS" "d_format d = FmtR" "rd < 16" "rs1 < 16" "rs2 < 16"
  shows "decode (encode_r (d_opcode d) rd rs1 rs2)
    = \<lparr>di_desc = d, di_rd = rd, di_rs1 = rs1, di_rs2 = rs2, di_imm = 0, di_cond = CondAl,
       di_raw = encode_r (d_opcode d) rd rs1 rs2\<rparr>"
  using assms INSNS_opcode_range[OF assms(1)]
  by (simp add: decode_def encode_r_fields by_opcode_complete Let_def)

lemma decode_encode_i:
  assumes "d \<in> set INSNS" "d_format d = FmtI" "rd < 16" "rs1 < 16" "fits_imm18 (sint imm)"
  shows "\<exists>rs2. decode (encode_i (d_opcode d) rd rs1 imm)
    = \<lparr>di_desc = d, di_rd = rd, di_rs1 = rs1, di_rs2 = rs2, di_imm = sint imm, di_cond = CondAl,
       di_raw = encode_i (d_opcode d) rd rs1 imm\<rparr>"
  using assms INSNS_opcode_range[OF assms(1)]
  by (simp add: decode_def encode_i_fields by_opcode_complete sign_extend_imm18 Let_def)

lemma decode_encode_b:
  assumes "d \<in> set INSNS" "d_format d = FmtB" "fits_off22 (sint ofs)"
  shows "\<exists>rs1 rs2. decode (encode_b (d_opcode d) (cond_as_u8 c) ofs)
    = \<lparr>di_desc = d, di_rd = cond_as_u8 c, di_rs1 = rs1, di_rs2 = rs2, di_imm = sint ofs,
       di_cond = c, di_raw = encode_b (d_opcode d) (cond_as_u8 c) ofs\<rparr>"
  using assms INSNS_opcode_range[OF assms(1)]
  by (simp add: decode_def encode_b_fields by_opcode_complete sign_extend_off22 cond_as_u8_less Let_def)

lemma decode_encode_s:
  assumes "d \<in> set INSNS" "d_format d = FmtS" "imm < 2 ^ 26"
  shows "\<exists>rd rs1 rs2. decode (encode_s (d_opcode d) imm)
    = \<lparr>di_desc = d, di_rd = rd, di_rs1 = rs1, di_rs2 = rs2, di_imm = uint imm, di_cond = CondAl,
       di_raw = encode_s (d_opcode d) imm\<rparr>"
proof -
  have "imm AND 0x3FFFFFF = imm"
    using assms(3) unfolding isa_masks by (rule less_mask_eq)
  with assms INSNS_opcode_range[OF assms(1)] show ?thesis
    by (simp add: decode_def encode_s_fields by_opcode_complete Let_def)
qed

lemma di_desc_encode:
  assumes "d \<in> set INSNS"
  shows "di_desc (decode (encode_r (d_opcode d) rd rs1 rs2)) = d"
    and "di_desc (decode (encode_i (d_opcode d) rd rs1 imm)) = d"
    and "di_desc (decode (encode_b (d_opcode d) cnd imm)) = d"
    and "di_desc (decode (encode_s (d_opcode d) imm)) = d"
  using assms INSNS_opcode_range[OF assms]
  by (simp_all add: decode_def encode_r_fields encode_i_fields encode_b_fields encode_s_fields
      by_opcode_complete Let_def split: format.splits)

text \<open>The decoder's register fields index \<open>REG_NAMES\<close>, so the disassembler never indexes out of it.\<close>

lemma decode_registers:
  "unat (di_rd (decode w)) < length REG_NAMES \<and> unat (di_rs1 (decode w)) < length REG_NAMES
   \<and> unat (di_rs2 (decode w)) < length REG_NAMES"
proof -
  have "unat (ucast (x AND 0xF) :: u8) < 16" for x :: u32
  proof -
    have "x AND 0xF \<le> 0xF" by (rule word_and_le1)
    then have "unat (x AND 0xF) \<le> 15" by (simp add: word_le_nat_alt)
    then show ?thesis by (simp add: unsigned_ucast_eq take_bit_nat_eq_self)
  qed
  moreover have "length REG_NAMES = 16" by (simp add: REG_NAMES_def)
  ultimately show ?thesis
    by (auto simp: decode_def Let_def split: option.splits format.splits)
qed

section \<open>Programs the assembler can build\<close>

inductive asm_step :: "asm64 \<Rightarrow> asm64 \<Rightarrow> bool" where
  step_add: "asm_add rd a b s = Some s' \<Longrightarrow> asm_step s s'"
| step_sub: "asm_sub rd a b s = Some s' \<Longrightarrow> asm_step s s'"
| step_and: "asm_and rd a b s = Some s' \<Longrightarrow> asm_step s s'"
| step_or: "asm_or rd a b s = Some s' \<Longrightarrow> asm_step s s'"
| step_xor: "asm_xor rd a b s = Some s' \<Longrightarrow> asm_step s s'"
| step_shl: "asm_shl rd a b s = Some s' \<Longrightarrow> asm_step s s'"
| step_shr: "asm_shr rd a b s = Some s' \<Longrightarrow> asm_step s s'"
| step_asr: "asm_asr rd a b s = Some s' \<Longrightarrow> asm_step s s'"
| step_cmp: "asm_cmp a b s = Some s' \<Longrightarrow> asm_step s s'"
| step_mov: "asm_mov rd a s = Some s' \<Longrightarrow> asm_step s s'"
| step_mul: "asm_mul rd a b s = Some s' \<Longrightarrow> asm_step s s'"
| step_addi: "asm_addi rd a i s = Some s' \<Longrightarrow> asm_step s s'"
| step_subi: "asm_subi rd a i s = Some s' \<Longrightarrow> asm_step s s'"
| step_cmpi: "asm_cmpi a i s = Some s' \<Longrightarrow> asm_step s s'"
| step_movi: "asm_movi rd i s = Some s' \<Longrightarrow> asm_step s s'"
| step_ld: "asm_ld rd a i s = Some s' \<Longrightarrow> asm_step s s'"
| step_ldb: "asm_ldb rd a i s = Some s' \<Longrightarrow> asm_step s s'"
| step_stb: "asm_stb rd a i s = Some s' \<Longrightarrow> asm_step s s'"
| step_st: "asm_st rd a i s = Some s' \<Longrightarrow> asm_step s s'"
| step_lea: "asm_lea rd a i s = Some s' \<Longrightarrow> asm_step s s'"
| step_xchg: "asm_xchg rd a i s = Some s' \<Longrightarrow> asm_step s s'"
| step_pmov: "asm_pmov rd a s = Some s' \<Longrightarrow> asm_step s s'"
| step_padd: "asm_padd rd a b s = Some s' \<Longrightarrow> asm_step s s'"
| step_pload: "asm_pload rd a i s = Some s' \<Longrightarrow> asm_step s s'"
| step_pstore: "asm_pstore rd a i s = Some s' \<Longrightarrow> asm_step s s'"
| step_pread: "asm_pread rd a w s = Some s' \<Longrightarrow> asm_step s s'"
| step_pwrite: "asm_pwrite rd a w s = Some s' \<Longrightarrow> asm_step s s'"
| step_pframe: "asm_pframe i s = Some s' \<Longrightarrow> asm_step s s'"
| step_plocal: "asm_plocal rd i s = Some s' \<Longrightarrow> asm_step s s'"
| step_punframe: "asm_punframe s = Some s' \<Longrightarrow> asm_step s s'"
| step_bcc: "asm_bcc c i s = Some s' \<Longrightarrow> asm_step s s'"
| step_call: "asm_call i s = Some s' \<Longrightarrow> asm_step s s'"
| step_ret: "asm_ret s = Some s' \<Longrightarrow> asm_step s s'"
| step_trap: "asm_trap v s = Some s' \<Longrightarrow> asm_step s s'"
| step_eret: "asm_eret s = Some s' \<Longrightarrow> asm_step s s'"
| step_nop: "asm_nop s = Some s' \<Longrightarrow> asm_step s s'"
| step_halt: "asm_halt s = Some s' \<Longrightarrow> asm_step s s'"

text \<open>Every word that is not a legal instruction is one of \<open>R\<close>.\<close>

definition asm_legal :: "u32 set \<Rightarrow> asm64 \<Rightarrow> bool" where
  "asm_legal R a \<longleftrightarrow> (\<forall>w \<in> set (asm_words a). is_illegal (decode w) \<longrightarrow> w \<in> R)"

definition pointer_sem :: "sem \<Rightarrow> bool" where
  "pointer_sem s \<longleftrightarrow> s \<in> {SPointerMove, SPointerAdd, SPointerLoad, SPointerStore, SPointerRead,
     SPointerWrite, SPointerFrame, SPointerLocal, SPointerUnframe}"

definition ordinary_name :: "string \<Rightarrow> bool" where
  "ordinary_name n \<longleftrightarrow> (case by_name n of None \<Rightarrow> False | Some d \<Rightarrow> \<not> pointer_sem (d_semantics d))"

lemma ordinary_names [simp]:
  "ordinary_name ''add''"
  "ordinary_name ''sub''"
  "ordinary_name ''and''"
  "ordinary_name ''or''"
  "ordinary_name ''xor''"
  "ordinary_name ''shl''"
  "ordinary_name ''shr''"
  "ordinary_name ''asr''"
  "ordinary_name ''cmp''"
  "ordinary_name ''mov''"
  "ordinary_name ''mul''"
  "ordinary_name ''addi''"
  "ordinary_name ''subi''"
  "ordinary_name ''cmpi''"
  "ordinary_name ''movi''"
  "ordinary_name ''ld''"
  "ordinary_name ''ldb''"
  "ordinary_name ''stb''"
  "ordinary_name ''st''"
  "ordinary_name ''lea''"
  "ordinary_name ''xchg''"
  "ordinary_name ''b''"
  "ordinary_name ''call''"
  "ordinary_name ''ret''"
  "ordinary_name ''trap''"
  "ordinary_name ''eret''"
  "ordinary_name ''nop''"
  "ordinary_name ''halt''"
  by (simp_all add: ordinary_name_def by_name_def INSNS_def insn_def pointer_sem_def)

lemma ordinary_legal:
  assumes "d \<in> set INSNS" "\<not> pointer_sem (d_semantics d)" "di_desc i = d"
  shows "\<not> is_illegal i"
proof -
  have "d_opcode d \<noteq> 0xFF" using INSNS_opcode_range[OF assms(1)] by auto
  then show ?thesis using assms(2,3)
    by (auto simp: is_illegal_def pointer_sem_def Let_def split: sem.splits)
qed

lemma emit_named_legal:
  assumes "ordinary_name n" "asm_legal R s"
  shows "emit_r_named n rd rs1 rs2 s = Some s' \<Longrightarrow> asm_legal R s'"
    and "emit_i_named n rd rs1 imm s = Some s' \<Longrightarrow> asm_legal R s'"
    and "emit_b_named n cnd imm s = Some s' \<Longrightarrow> asm_legal R s'"
    and "emit_s_named n imm s = Some s' \<Longrightarrow> asm_legal R s'"
proof -
  from assms(1) obtain d where d: "by_name n = Some d" "\<not> pointer_sem (d_semantics d)"
    by (auto simp: ordinary_name_def split: option.splits)
  then have mem: "d \<in> set INSNS" using by_name_SomeD by blast
  note leg = ordinary_legal[OF mem d(2)]
  show "emit_r_named n rd rs1 rs2 s = Some s' \<Longrightarrow> asm_legal R s'"
    using assms(2) leg d(1) di_desc_encode(1)[OF mem]
    by (auto simp: emit_r_named_def asm_legal_def asm_push_def)
  show "emit_i_named n rd rs1 imm s = Some s' \<Longrightarrow> asm_legal R s'"
    using assms(2) leg d(1) di_desc_encode(2)[OF mem]
    by (auto simp: emit_i_named_def asm_legal_def asm_push_def split: if_splits)
  show "emit_b_named n cnd imm s = Some s' \<Longrightarrow> asm_legal R s'"
    using assms(2) leg d(1) di_desc_encode(3)[OF mem]
    by (auto simp: emit_b_named_def asm_legal_def asm_push_def)
  show "emit_s_named n imm s = Some s' \<Longrightarrow> asm_legal R s'"
    using assms(2) leg d(1) di_desc_encode(4)[OF mem]
    by (auto simp: emit_s_named_def asm_legal_def asm_push_def)
qed

lemma emit_pointer_word_legal:
  "emit_pointer_word w s = Some s' \<Longrightarrow> asm_legal R s \<Longrightarrow> asm_legal R s'"
  by (auto simp: emit_pointer_word_def asm_legal_def asm_push_def split: if_splits)

lemmas asm_method_defs = asm_add_def asm_sub_def asm_and_def asm_or_def asm_xor_def asm_shl_def asm_shr_def asm_asr_def asm_cmp_def asm_mov_def asm_mul_def 
  asm_addi_def asm_subi_def asm_cmpi_def asm_movi_def asm_ld_def asm_ldb_def asm_stb_def asm_st_def asm_lea_def asm_xchg_def 
  asm_pmov_def asm_padd_def asm_pload_def asm_pstore_def asm_pread_def asm_pwrite_def asm_pframe_def asm_plocal_def asm_punframe_def 
  asm_bcc_def asm_call_def asm_ret_def asm_trap_def asm_eret_def asm_nop_def asm_halt_def
  asm_pointer_width_def

lemmas emit_named_legalD =
  emit_named_legal(1)[rotated 2] emit_named_legal(2)[rotated 2]
  emit_named_legal(3)[rotated 2] emit_named_legal(4)[rotated 2]

lemma asm_step_legal: "asm_step s s' \<Longrightarrow> asm_legal R s \<Longrightarrow> asm_legal R s'"
  by (erule asm_step.cases)
    (auto simp: asm_method_defs split: if_splits option.splits
          dest!: emit_named_legalD emit_pointer_word_legal)

text \<open>
  The assembler with its word vector lent out: the second component collects the words that edits
  through \<open>words_mut\<close> have written.
\<close>

inductive asm_use :: "asm64 \<times> u32 set \<Rightarrow> asm64 \<times> u32 set \<Rightarrow> bool" where
  use_method: "asm_step s s' \<Longrightarrow> asm_use (s, R) (s', R)"
| use_words_mut: "asm_use (s, R) (words_mut edit s, R \<union> (set (edit (asm_words s)) - set (asm_words s)))"

interpretation asm_sys: step_system "\<lambda>s. s = (asm_new, {})" asm_use "\<lambda>(a, R). asm_legal R a"
proof
  show "case s of (a, R) \<Rightarrow> asm_legal R a" if "s = (asm_new, {})" for s using that by (simp add: asm_new_def asm_legal_def)
  show "case t of (a, R) \<Rightarrow> asm_legal R a" if "asm_use s t" "case s of (a, R) \<Rightarrow> asm_legal R a" for s t
    using that(1)
  proof cases
    case (use_method a a' R)
    then show ?thesis using asm_step_legal that(2) by simp
  qed (use that(2) in \<open>auto simp: asm_legal_def words_mut_def\<close>)
qed

text \<open>Pointer mnemonics: the operand assertions already exclude every illegal encoding.\<close>

lemma by_opcode_pointer:
  "by_opcode 0x26 = Some (insn ''pmov'' 0x26 FmtR RdRs1 SPointerMove MemNone FlNone)"
  "by_opcode 0x27 = Some (insn ''padd'' 0x27 FmtR RdRs1Rs2 SPointerAdd MemNone FlNone)"
  "by_opcode 0x28 = Some (insn ''pload'' 0x28 FmtI RdBaseDisp SPointerLoad MemLoad FlNone)"
  "by_opcode 0x29 = Some (insn ''pstore'' 0x29 FmtI SrcBaseDisp SPointerStore MemStore FlNone)"
  "by_opcode 0x2a = Some (insn ''pread'' 0x2A FmtR PointerWidth SPointerRead MemLoad FlNone)"
  "by_opcode 0x2b = Some (insn ''pwrite'' 0x2B FmtR PointerWidth SPointerWrite MemStore FlNone)"
  "by_opcode 0x2c = Some (insn ''pframe'' 0x2C FmtS ManifestIndex SPointerFrame MemNone FlNone)"
  "by_opcode 0x2d = Some (insn ''plocal'' 0x2D FmtI RdImm SPointerLocal MemNone FlNone)"
  "by_opcode 0x2e = Some (insn ''punframe'' 0x2E FmtS NoOps SPointerUnframe MemNone FlNone)"
  by (simp_all add: by_opcode_def INSNS_def insn_def)

lemma pair_reg_less: "pair_reg r \<Longrightarrow> r < 16"
  by (auto simp: pair_reg_def word_le_nat_alt word_less_nat_alt)

lemma word32_less4_bits:
  assumes "(z::u32) < 4" "bit z k"
  shows "k < 2"
proof -
  have "z AND mask 2 = z" by (rule less_mask_eq) (use assms(1) in simp)
  with assms(2) have "bit (z AND mask 2) k" by simp
  then show ?thesis by (simp add: bit_simps)
qed

lemma encode_r_or_fields:
  assumes "opc < 64" "z < 4"
  shows "ucast (drop_bit 26 (encode_r opc rd rs1 rs2 OR z) AND 0x3F) = opc"
    and "rd < 16 \<Longrightarrow> ucast (drop_bit 22 (encode_r opc rd rs1 rs2 OR z) AND 0xF) = rd"
    and "rs1 < 16 \<Longrightarrow> ucast (drop_bit 18 (encode_r opc rd rs1 rs2 OR z) AND 0xF) = rs1"
    and "rs2 < 16 \<Longrightarrow> ucast (drop_bit 14 (encode_r opc rd rs1 rs2 OR z) AND 0xF) = rs2"
    and "(encode_r opc rd rs1 rs2 OR z) AND 0x3fff = z"
  unfolding isa_masks encode_r_def
  by (rule bit_word_eqI; use assms in \<open>auto simp: bit_simps dest: reg_bits opc_bits word32_less4_bits\<close>)+

lemmas pointer_encoding = decode_def is_illegal_def by_opcode_pointer insn_def Let_def pair_reg_less
  encode_r_fields encode_i_fields encode_s_fields encode_r_or_fields

lemma sint_small: "(x::u32) < 2 ^ 17 \<Longrightarrow> fits_imm18 (sint x) \<and> 0 \<le> sint x"
proof -
  assume "x < 2 ^ 17"
  then have "uint x < uint (2 ^ 17 :: u32)" by (simp only: word_less_def)
  then have u: "uint x < 131072" by simp
  moreover have "- (2 ^ 31) \<le> uint x" by (rule order_trans[of _ 0]) simp_all
  ultimately have "signed_take_bit 31 (uint x) = uint x" by (intro signed_take_bit_int_eq_self) simp_all
  then have "sint x = uint x" by (simp add: sint_uint)
  moreover have "- 131072 \<le> uint x" by (rule order_trans[of _ 0]) simp_all
  ultimately show ?thesis using u by (simp add: fits_imm18_def IMM18_MIN_def IMM18_MAX_def)
qed

lemma pointer_width_emit:
  assumes "d \<le> 12" "pair_reg s" "width_log w = Some z" "opc = 0x2a \<or> opc = 0x2b"
  shows "\<not> is_illegal (decode (encode_r opc d s 0 OR z))"
proof -
  have "z < 4" "z \<le> 3" using assms(3) by (auto simp: width_log_def split: if_splits)
  moreover have "d < 16" using assms(1) by (auto simp: word_le_nat_alt word_less_nat_alt)
  ultimately show ?thesis using assms by (auto simp: pointer_encoding simp del: drop_bit_or)
qed

lemma pointer_emit:
  "pair_reg d \<Longrightarrow> pair_reg s \<Longrightarrow> \<not> is_illegal (decode (encode_r 0x26 d s 0))"
  "pair_reg d \<Longrightarrow> pair_reg s \<Longrightarrow> t \<le> 12 \<Longrightarrow> \<not> is_illegal (decode (encode_r 0x27 d s t))"
  "pair_reg d \<Longrightarrow> pair_reg s \<Longrightarrow> \<not> is_illegal (decode (encode_i 0x28 d s disp))"
  "pair_reg d \<Longrightarrow> pair_reg s \<Longrightarrow> \<not> is_illegal (decode (encode_i 0x29 d s disp))"
  "\<not> is_illegal (decode (encode_s 0x2c disp))"
  "pair_reg d \<Longrightarrow> index < 2 ^ 17 \<Longrightarrow> \<not> is_illegal (decode (encode_i 0x2d d 0 index))"
  "\<not> is_illegal (decode (encode_s 0x2e 0))"
proof -
  have t16: "t < 16" if "t \<le> 12" for t :: u8
    using that by (auto simp: word_le_nat_alt word_less_nat_alt)
  show "pair_reg d \<Longrightarrow> pair_reg s \<Longrightarrow> t \<le> 12 \<Longrightarrow> \<not> is_illegal (decode (encode_r 0x27 d s t))"
    using t16[of t] by (simp add: pointer_encoding)
  show "pair_reg d \<Longrightarrow> index < 2 ^ 17 \<Longrightarrow> \<not> is_illegal (decode (encode_i 0x2d d 0 index))"
    using sint_small[of index] by (simp add: pointer_encoding sign_extend_imm18)
qed (simp_all add: pointer_encoding)

section \<open>Properties\<close>

text \<open>
  C27: the table, the assembler and the decoder agree.  For every row of the table and every operand
  the field can hold, the word the encoder of the row's format builds decodes to that row with
  exactly those operands; an I-format immediate outside the signed 18-bit range is rejected
  instead of being truncated.
\<close>

theorem assembler_decoder_roundtrip:
  assumes "d \<in> set INSNS" and "rd < 16" and "rs1 < 16" and "rs2 < 16"
  shows "(d_format d = FmtR \<longrightarrow>
       emit_r_named (d_name d) rd rs1 rs2 a = Some (asm_push a (encode_r (d_opcode d) rd rs1 rs2))
       \<and> decode (encode_r (d_opcode d) rd rs1 rs2)
         = \<lparr>di_desc = d, di_rd = rd, di_rs1 = rs1, di_rs2 = rs2, di_imm = 0, di_cond = CondAl,
            di_raw = encode_r (d_opcode d) rd rs1 rs2\<rparr>)
    \<and> (d_format d = FmtI \<longrightarrow>
       (if fits_imm18 (sint imm)
        then emit_i_named (d_name d) rd rs1 imm a = Some (asm_push a (encode_i (d_opcode d) rd rs1 imm))
          \<and> (\<exists>u. decode (encode_i (d_opcode d) rd rs1 imm)
             = \<lparr>di_desc = d, di_rd = rd, di_rs1 = rs1, di_rs2 = u, di_imm = sint imm,
                di_cond = CondAl, di_raw = encode_i (d_opcode d) rd rs1 imm\<rparr>)
        else emit_i_named (d_name d) rd rs1 imm a = None))
    \<and> (d_format d = FmtB \<and> fits_off22 (sint ofs) \<longrightarrow>
       (\<exists>u v. decode (encode_b (d_opcode d) (cond_as_u8 c) ofs)
             = \<lparr>di_desc = d, di_rd = cond_as_u8 c, di_rs1 = u, di_rs2 = v, di_imm = sint ofs,
                di_cond = c, di_raw = encode_b (d_opcode d) (cond_as_u8 c) ofs\<rparr>))
    \<and> (d_format d = FmtS \<and> k < 2 ^ 26 \<longrightarrow>
       (\<exists>u v w. decode (encode_s (d_opcode d) k)
             = \<lparr>di_desc = d, di_rd = u, di_rs1 = v, di_rs2 = w, di_imm = uint k, di_cond = CondAl,
                di_raw = encode_s (d_opcode d) k\<rparr>))"
  using decode_encode_r[OF assms(1) _ assms(2-4)] decode_encode_i[OF assms(1) _ assms(2,3), of imm]
    decode_encode_b[OF assms(1), of ofs c] decode_encode_s[OF assms(1), of k] by_name_complete[OF assms(1)]
  by (simp add: emit_r_named_def emit_i_named_def)

theorem assembler_decoder_roundtrip_witness:
  "decode (encode_r 0x01 3 4 5) = \<lparr>di_desc = insn ''add'' 0x01 FmtR RdRs1Rs2 (Alu Add) MemNone FlArith,
     di_rd = 3, di_rs1 = 4, di_rs2 = 5, di_imm = 0, di_cond = CondAl, di_raw = encode_r 0x01 3 4 5\<rparr>"
proof -
  let ?d = "insn ''add'' 0x01 FmtR RdRs1Rs2 (Alu Add) MemNone FlArith"
  have "?d \<in> set INSNS" by (simp add: INSNS_def)
  from assembler_decoder_roundtrip[OF this, of 3 4 5 asm_new 0 0 CondAl 0] show ?thesis
    by (simp add: insn_def)
qed

text \<open>
  C28: the assembler emits only legal instructions.  A program is built by the assembler's methods and
  by edits of the word vector that \<open>words_mut\<close> lends out; a word of it that does not decode to a legal
  instruction was written by such an edit.  The protected-pointer mnemonics accept exactly the operands
  their register, width and range assertions describe: the final legality assertion never fires on its
  own.
\<close>

theorem assembled_programs_legal:
  assumes "reachable (\<lambda>s. s = (asm_new, {})) asm_use (a, edited)"
  shows "(\<forall>w \<in> set (asm_words a). is_illegal (decode w) \<longrightarrow> w \<in> edited)
    \<and> (asm_pmov d s a \<noteq> None \<longleftrightarrow> pair_reg d \<and> pair_reg s)
    \<and> (asm_padd d s t a \<noteq> None \<longleftrightarrow> pair_reg d \<and> pair_reg s \<and> t \<le> 12)
    \<and> (asm_pload d s disp a \<noteq> None \<longleftrightarrow> pair_reg d \<and> pair_reg s \<and> fits_imm18 (sint disp))
    \<and> (asm_pstore d s disp a \<noteq> None \<longleftrightarrow> pair_reg d \<and> pair_reg s \<and> fits_imm18 (sint disp))
    \<and> (asm_pread d s w a \<noteq> None \<longleftrightarrow> d \<le> 12 \<and> pair_reg s \<and> w \<in> {1, 2, 4, 8})
    \<and> (asm_pwrite d s w a \<noteq> None \<longleftrightarrow> d \<le> 12 \<and> pair_reg s \<and> w \<in> {1, 2, 4, 8})
    \<and> (asm_pframe disp a \<noteq> None \<longleftrightarrow> disp < 2 ^ 26)
    \<and> (asm_plocal d disp a \<noteq> None \<longleftrightarrow> pair_reg d \<and> disp < 2 ^ 17)
    \<and> asm_punframe a \<noteq> None"
proof -
  have wl: "width_log w \<noteq> None \<longleftrightarrow> w \<in> {1, 2, 4, 8}" by (simp add: width_log_def)
  have pw: "asm_pointer_width opc d s w a \<noteq> None \<longleftrightarrow> d \<le> 12 \<and> pair_reg s \<and> w \<in> {1, 2, 4, 8}"
    if "opc = 0x2a \<or> opc = 0x2b" for opc
    using wl pointer_width_emit[of d s w _ opc] that
    by (cases "width_log w") (auto simp: asm_pointer_width_def emit_pointer_word_def not_less)
  show ?thesis
    using asm_sys.invariant_reachable[OF assms] pointer_emit pw
    by (auto simp: asm_legal_def asm_pmov_def asm_padd_def asm_pload_def asm_pstore_def asm_pread_def
        asm_pwrite_def asm_pframe_def asm_plocal_def asm_punframe_def emit_pointer_word_def not_less not_le)
qed

theorem assembled_programs_legal_witness:
  "\<exists>a. asm_pmov 2 4 asm_new = Some a \<and> list_all (\<lambda>w. \<not> is_illegal (decode w)) (asm_words a)"
proof -
  have r: "reachable (\<lambda>s. s = (asm_new, {})) asm_use (asm_new, {})" by (rule reach_init) simp
  obtain a where a: "asm_pmov 2 4 asm_new = Some a"
    using assembled_programs_legal[OF r, of 2 4, THEN conjunct2, THEN conjunct1] by (auto simp: pair_reg_def)
  have "reachable (\<lambda>s. s = (asm_new, {})) asm_use (a, {})" by (rule reach_step[OF r use_method[OF step_pmov[OF a]]])
  from assembled_programs_legal[OF this] a show ?thesis by (auto simp: list_all_iff)
qed

end
