(* ===== verification/Extents.thy ===== *)
theory Extents
  imports Step_System
begin

text \<open>
  Page-aligned extents and free lists, shared by the physical and the virtual placement managers
  (\<open>src/src/anka64/placement.rs\<close>): the extent type, page rounding, extent validity and the
  placement errors, followed by the contract of an extent pool.  The locale \<open>extent_pool\<close> says
  that every step either leaves the pool alone, takes an extent out of the free bytes for a key,
  or gives a held extent back; it proves once that free and held extents always partition the
  pool.
\<close>

section \<open>Data and rounding\<close>

record extent =
  ext_base :: u64
  ext_size :: u64

definition mk_extent :: "u64 \<Rightarrow> u64 \<Rightarrow> extent" where
  "mk_extent b n = \<lparr>ext_base = b, ext_size = n\<rparr>"

lemma mk_extent_sel [simp]: "ext_base (mk_extent b n) = b" "ext_size (mk_extent b n) = n"
  by (simp_all add: mk_extent_def)

definition ext_end :: "extent \<Rightarrow> u64 option" where
  "ext_end e = checked_add (ext_base e) (ext_size e)"

datatype placement_error =
    InvalidPool | ZeroSize | POverflow | OwnerAlreadyAllocated | UnknownOwner
  | ComposedReleaseRequiresFabricCheck | ObjectStillPlaced | OutOfMemory | UnknownObject
  | ObjectAlreadyPlaced | FabricRejected | InvalidVirtualLayout | ReservationCapacity
  | HostAllocation | ReservationMismatch | WrongMode

definition PLACEMENT_PAGE_SIZE :: u64 where "PLACEMENT_PAGE_SIZE = 0x1000"
definition PLACEMENT_PAGE_MASK :: u64 where "PLACEMENT_PAGE_MASK = PLACEMENT_PAGE_SIZE - 1"

definition is_page_aligned :: "u64 \<Rightarrow> bool" where
  "is_page_aligned v \<longleftrightarrow> v AND PLACEMENT_PAGE_MASK = 0"

definition page_ceil :: "u64 \<Rightarrow> placement_error + u64" where
  "page_ceil sz =
     (if sz = 0 then Inl ZeroSize
      else case checked_add sz PLACEMENT_PAGE_MASK of
             None \<Rightarrow> Inl POverflow
           | Some v \<Rightarrow>
               let r = v AND NOT PLACEMENT_PAGE_MASK in
               if r \<noteq> 0 then Inr r else Inl POverflow)"

definition valid_extent :: "extent \<Rightarrow> bool" where
  "valid_extent e \<longleftrightarrow> ext_size e \<noteq> 0 \<and> is_page_aligned (ext_base e) \<and> is_page_aligned (ext_size e)
     \<and> ext_end e \<noteq> None"

section \<open>Page arithmetic\<close>

lemma page_mask: "PLACEMENT_PAGE_MASK = mask 12"
  by (simp add: PLACEMENT_PAGE_MASK_def PLACEMENT_PAGE_SIZE_def mask_eq_exp_minus_1)

lemma unat_take_bit: "unat (take_bit n (w::u64)) = unat w mod 2 ^ n"
  by (subst unsigned_take_bit_eq) (rule take_bit_eq_mod)

lemma page_aligned_iff: "is_page_aligned v \<longleftrightarrow> unat v mod 4096 = 0"
proof -
  have "v AND mask 12 = take_bit 12 v" by (simp add: take_bit_eq_mask)
  moreover have "take_bit 12 v = 0 \<longleftrightarrow> unat (take_bit 12 v) = 0" by (simp add: unat_eq_0)
  ultimately show ?thesis by (simp add: is_page_aligned_def page_mask unat_take_bit)
qed

lemma unat_and_not_mask: "unat (v AND NOT (mask n) :: u64) = unat v - unat v mod 2 ^ n"
proof -
  have p: "v AND NOT (mask n) = push_bit n (drop_bit n v)"
    by (rule bit_word_eqI) (auto simp: bit_simps)
  have s: "push_bit n (drop_bit n v) + take_bit n v = v" by (rule bits_ident)
  have "push_bit n (drop_bit n v) = v - take_bit n v" using s by (metis add_diff_cancel_right')
  moreover have "take_bit n v \<le> v"
    by (simp add: word_le_nat_alt unat_take_bit)
  ultimately show ?thesis using p unat_minus_exact[of "take_bit n v" v] by (simp add: unat_take_bit)
qed

lemma page_ceil_cases:
  "page_ceil sz =
     (if sz = 0 then Inl ZeroSize
      else if unat sz + 4095 < 2 ^ 64 then Inr (of_nat (((unat sz + 4095) div 4096) * 4096))
      else Inl POverflow)"
proof (cases "sz = 0")
  case False
  have m: "unat PLACEMENT_PAGE_MASK = 4095" by (simp add: PLACEMENT_PAGE_MASK_def PLACEMENT_PAGE_SIZE_def)
  show ?thesis
  proof (cases "unat sz + 4095 < 2 ^ 64")
    case True
    then have v: "checked_add sz PLACEMENT_PAGE_MASK = Some (sz + PLACEMENT_PAGE_MASK)"
      "unat (sz + PLACEMENT_PAGE_MASK) = unat sz + 4095" by (simp_all add: checked_add_def m unat_plus_exact)
    let ?r = "(sz + PLACEMENT_PAGE_MASK) AND NOT PLACEMENT_PAGE_MASK"
    have r: "unat ?r = (unat sz + 4095) div 4096 * 4096"
      using unat_and_not_mask[of "sz + PLACEMENT_PAGE_MASK" 12] v(2)
      by (simp add: page_mask minus_mod_eq_div_mult)
    have "0 < unat sz" using False by (simp add: unat_gt_0)
    then have "unat ?r \<noteq> 0" using r by auto
    then have "?r \<noteq> 0" by auto
    moreover have "?r = of_nat ((unat sz + 4095) div 4096 * 4096)"
      unfolding r[symmetric] by simp
    ultimately show ?thesis using False True v(1) by (simp add: page_ceil_def)
  next
    case F: False
    then have "checked_add sz PLACEMENT_PAGE_MASK = None" by (simp add: checked_add_def m)
    then show ?thesis using False F by (simp add: page_ceil_def)
  qed
qed (simp add: page_ceil_def)

lemma ceil_4096_ge: "(n::nat) \<le> (n + 4095) div 4096 * 4096"
proof -
  have "(n + 4095) div 4096 * 4096 + (n + 4095) mod 4096 = n + 4095" by simp
  moreover have "(n + 4095) mod 4096 \<le> 4095" using mod_less_divisor[of 4096 "n + 4095"] by linarith
  ultimately show ?thesis by linarith
qed

lemma page_ceil_Inr:
  assumes "page_ceil sz = Inr v"
  shows "unat v = (unat sz + 4095) div 4096 * 4096" "is_page_aligned v" "v \<noteq> 0" "sz \<le> v" "sz \<noteq> 0"
proof -
  from assms have c: "sz \<noteq> 0" "unat sz + 4095 < 2 ^ 64" "v = of_nat ((unat sz + 4095) div 4096 * 4096)"
    by (auto simp: page_ceil_cases split: if_splits)
  have b: "(unat sz + 4095) div 4096 * 4096 \<le> unat sz + 4095" by simp
  then have "(unat sz + 4095) div 4096 * 4096 < 2 ^ LENGTH(64)" using c(2) by simp
  then show u: "unat v = (unat sz + 4095) div 4096 * 4096" unfolding c(3) by (rule unat_of_nat_small)
  show "is_page_aligned v" by (simp add: page_aligned_iff u)
  have ge: "unat sz \<le> (unat sz + 4095) div 4096 * 4096" by (rule ceil_4096_ge)
  then show "sz \<le> v" by (simp add: word_le_nat_alt u)
  have "0 < unat sz" using c(1) by (simp add: unat_gt_0)
  then have "0 < unat v" using ge u by simp
  then show "v \<noteq> 0" by auto
  show "sz \<noteq> 0" by (rule c(1))
qed

section \<open>Bytes of extents and free lists\<close>

definition ext_set :: "extent \<Rightarrow> nat set" where
  "ext_set e = {unat (ext_base e) ..< unat (ext_base e) + unat (ext_size e)}"

definition free_set :: "extent list \<Rightarrow> nat set" where
  "free_set fs = \<Union> (ext_set ` set fs)"

abbreviation ext_limit :: "extent \<Rightarrow> nat" where
  "ext_limit e \<equiv> unat (ext_base e) + unat (ext_size e)"

definition free_wf :: "extent list \<Rightarrow> bool" where
  "free_wf fs \<longleftrightarrow> (\<forall>e \<in> set fs. valid_extent e)
     \<and> sorted_wrt (\<lambda>a b. ext_limit a < unat (ext_base b)) fs"

lemma valid_extent_iff:
  "valid_extent e \<longleftrightarrow> 0 < unat (ext_size e) \<and> unat (ext_base e) mod 4096 = 0
     \<and> unat (ext_size e) mod 4096 = 0 \<and> ext_limit e < 2 ^ 64"
  by (simp add: valid_extent_def page_aligned_iff ext_end_def checked_add_def unat_gt_0)

lemma ext_end_eq_Some: "ext_end e = Some x \<longleftrightarrow> unat x = ext_limit e"
  by (simp add: ext_end_def checked_add_eq_Some)

lemma valid_ext_end: "valid_extent e \<Longrightarrow> ext_end e = Some (ext_base e + ext_size e)
    \<and> unat (ext_base e + ext_size e) = ext_limit e"
  by (simp add: valid_extent_iff ext_end_def checked_add_def unat_plus_exact)

lemma ext_set_nonempty: "valid_extent e \<Longrightarrow> unat (ext_base e) \<in> ext_set e"
  by (simp add: ext_set_def valid_extent_iff)

lemma free_set_simps [simp]:
  "free_set [] = {}" "free_set (e # fs) = ext_set e \<union> free_set fs"
  "free_set (fs @ gs) = free_set fs \<union> free_set gs"
  by (auto simp: free_set_def)

lemma ext_disjoint_iff:
  assumes "valid_extent a" "valid_extent b"
  shows "ext_set a \<inter> ext_set b = {} \<longleftrightarrow> ext_limit a \<le> unat (ext_base b) \<or> ext_limit b \<le> unat (ext_base a)"
proof
  assume d: "ext_set a \<inter> ext_set b = {}"
  show "ext_limit a \<le> unat (ext_base b) \<or> ext_limit b \<le> unat (ext_base a)"
  proof (rule ccontr)
    assume "\<not> ?thesis"
    then have "max (unat (ext_base a)) (unat (ext_base b)) \<in> ext_set a \<inter> ext_set b"
      using assms by (auto simp: ext_set_def valid_extent_iff)
    with d show False by simp
  qed
qed (auto simp: ext_set_def)

text \<open>Removing a prefix of a hole.\<close>

lemma free_wf_set_nth:
  assumes "free_wf fs" "k < length fs" "valid_extent e"
    and "unat (ext_base (fs ! k)) \<le> unat (ext_base e)" "ext_limit e \<le> ext_limit (fs ! k)"
  shows "free_wf (fs[k := e])"
proof -
  have srt: "ext_limit (fs ! i) < unat (ext_base (fs ! j))" if "i < j" "j < length fs" for i j
    using assms(1) that by (simp add: free_wf_def sorted_wrt_iff_nth_less)
  have "ext_limit (fs[k := e] ! i) < unat (ext_base (fs[k := e] ! j))" if "i < j" "j < length fs" for i j
    using srt[OF that] srt[of k j] srt[of i k] that assms(2,4,5) by (auto simp: nth_upd)
  then show ?thesis using assms(1,3)
    by (auto simp: free_wf_def sorted_wrt_iff_nth_less dest!: set_update_subset_insert[THEN subsetD])
qed

lemma free_wf_remove:
  assumes "free_wf fs" shows "free_wf (vec_remove k fs)"
proof (cases "k < length fs")
  case True
  have "free_wf (take k fs @ fs ! k # drop (Suc k) fs)" using assms id_take_nth_drop[OF True] by simp
  then show ?thesis by (auto simp: free_wf_def vec_remove_def sorted_wrt_append)
next
  case False
  then show ?thesis using assms by (simp add: vec_remove_def)
qed

lemma free_wf_disjoint_nth:
  assumes "free_wf fs" "i < length fs" "j < length fs" "i \<noteq> j"
  shows "ext_set (fs ! i) \<inter> ext_set (fs ! j) = {}"
proof -
  have "ext_limit (fs ! i) < unat (ext_base (fs ! j)) \<or> ext_limit (fs ! j) < unat (ext_base (fs ! i))"
    using assms unfolding free_wf_def sorted_wrt_iff_nth_less by (metis nat_neq_iff)
  then show ?thesis by (auto simp: ext_set_def)
qed

lemma free_wf_disjoint:
  assumes "free_wf fs" "a \<in> set fs" "b \<in> set fs" "a \<noteq> b"
  shows "ext_set a \<inter> ext_set b = {}"
  using free_wf_disjoint_nth[OF assms(1)] assms(2-4) unfolding in_set_conv_nth by metis

lemma free_wf_distinct: "free_wf fs \<Longrightarrow> distinct fs"
proof -
  assume wf: "free_wf fs"
  have "fs ! i \<noteq> fs ! j" if "i < length fs" "j < length fs" "i \<noteq> j" for i j
    using free_wf_disjoint_nth[OF wf that] wf that(1) ext_set_nonempty[of "fs ! i"]
    by (auto simp: free_wf_def)
  then show ?thesis by (simp add: distinct_conv_nth)
qed

lemma free_set_split_nth:
  assumes "k < length fs"
  shows "free_set fs = ext_set (fs ! k) \<union> free_set (vec_remove k fs)"
    and "free_set (fs[k := e]) = ext_set e \<union> free_set (vec_remove k fs)"
proof -
  have "free_set fs = free_set (take k fs @ fs ! k # drop (Suc k) fs)"
    using id_take_nth_drop[OF assms] by simp
  then show "free_set fs = ext_set (fs ! k) \<union> free_set (vec_remove k fs)"
    by (auto simp: vec_remove_def)
  show "free_set (fs[k := e]) = ext_set e \<union> free_set (vec_remove k fs)"
    using assms by (auto simp: upd_conv_take_nth_drop vec_remove_def)
qed

lemma free_remove_disjoint:
  assumes "free_wf fs" "k < length fs"
  shows "ext_set (fs ! k) \<inter> free_set (vec_remove k fs) = {}"
proof -
  have "distinct fs" using assms(1) by (rule free_wf_distinct)
  then have "fs ! k \<notin> set (vec_remove k fs)"
    using id_take_nth_drop[OF assms(2)]
    by (metis Un_iff distinct.simps(2) distinct_append disjoint_iff list.set_intros(1) set_append vec_remove_def)
  then show ?thesis
    using free_wf_disjoint[OF assms(1), of "fs ! k"] assms(2) set_vec_remove_subset[of k fs]
    by (fastforce simp: free_set_def)
qed

lemma mod_add_4096: "(a::nat) mod 4096 = 0 \<Longrightarrow> b mod 4096 = 0 \<Longrightarrow> (a + b) mod 4096 = 0"
  by (simp add: mod_add_eq[symmetric])

lemma mod_diff_4096: "(a::nat) mod 4096 = 0 \<Longrightarrow> b mod 4096 = 0 \<Longrightarrow> (a - b) mod 4096 = 0"
  by (metis dvd_diff_nat mod_0_imp_dvd dvd_imp_mod_0)

lemma valid_prefix:
  assumes "valid_extent s" "is_page_aligned n" "n \<noteq> 0" "n \<le> ext_size s"
  shows "valid_extent (mk_extent (ext_base s) n)"
    and "ext_set (mk_extent (ext_base s) n) \<subseteq> ext_set s"
  using assms by (auto simp: valid_extent_iff page_aligned_iff word_le_nat_alt unat_gt_0 ext_set_def)

lemma valid_suffix:
  assumes "valid_extent s" "is_page_aligned n" "n < ext_size s"
  shows "valid_extent (mk_extent (ext_base s + n) (ext_size s - n))"
    and "ext_set (mk_extent (ext_base s + n) (ext_size s - n)) = ext_set s - ext_set (mk_extent (ext_base s) n)"
    and "unat (ext_base s) \<le> unat (ext_base s + n)"
    and "unat (ext_base s + n) + unat (ext_size s - n) = ext_limit s"
proof -
  have n: "unat n < unat (ext_size s)" using assms(3) by (simp add: word_less_nat_alt)
  have v: "0 < unat (ext_size s)" "unat (ext_base s) mod 4096 = 0" "unat (ext_size s) mod 4096 = 0"
    "ext_limit s < 2 ^ 64" using assms(1) by (auto simp: valid_extent_iff)
  have nm: "unat n mod 4096 = 0" using assms(2) by (simp add: page_aligned_iff)
  have b: "unat (ext_base s + n) = unat (ext_base s) + unat n"
    using n v(4) by (intro unat_plus_exact) simp
  have d: "unat (ext_size s - n) = unat (ext_size s) - unat n"
    using assms(3) by (intro unat_minus_exact) simp
  show "unat (ext_base s) \<le> unat (ext_base s + n)" by (simp add: b)
  show lim: "unat (ext_base s + n) + unat (ext_size s - n) = ext_limit s" using b d n by simp
  show "valid_extent (mk_extent (ext_base s + n) (ext_size s - n))"
    using n v nm lim by (simp add: valid_extent_iff b d mod_add_4096 mod_diff_4096)
  show "ext_set (mk_extent (ext_base s + n) (ext_size s - n)) = ext_set s - ext_set (mk_extent (ext_base s) n)"
    using n by (auto simp: ext_set_def b d)
qed

text \<open>Carving the first \<open>n\<close> bytes out of hole \<open>k\<close>: exactly those bytes leave the free set.\<close>

lemma carve_hole:
  assumes "free_wf fs" "k < length fs" "is_page_aligned n" "n \<noteq> 0" "n \<le> ext_size (fs ! k)"
    and "fs' = (if n = ext_size (fs ! k) then vec_remove k fs
                else fs[k := mk_extent (ext_base (fs ! k) + n) (ext_size (fs ! k) - n)])"
  shows "free_wf fs' \<and> valid_extent (mk_extent (ext_base (fs ! k)) n)
    \<and> ext_set (mk_extent (ext_base (fs ! k)) n) \<subseteq> free_set fs
    \<and> free_set fs' = free_set fs - ext_set (mk_extent (ext_base (fs ! k)) n)"
proof -
  let ?s = "fs ! k"
  let ?e = "mk_extent (ext_base ?s) n"
  have v: "valid_extent ?s" using assms(1,2) by (auto simp: free_wf_def)
  note p = valid_prefix[OF v assms(3-5)]
  have fs: "free_set fs = ext_set ?s \<union> free_set (vec_remove k fs)"
    using assms(2) by (rule free_set_split_nth)
  have dj: "ext_set ?s \<inter> free_set (vec_remove k fs) = {}" using assms(1,2) by (rule free_remove_disjoint)
  show ?thesis
  proof (cases "n = ext_size ?s")
    case True
    then have "?e = ?s" by (cases ?s) (simp add: mk_extent_def)
    moreover have "fs' = vec_remove k fs" using True assms(6) by simp
    moreover have "free_set (vec_remove k fs) = free_set fs - ext_set ?s" using fs dj by blast
    ultimately show ?thesis using p fs free_wf_remove[OF assms(1)] by auto
  next
    case False
    with assms(5) have lt: "n < ext_size ?s" by simp
    note q = valid_suffix[OF v assms(3) lt]
    have "free_wf fs'" using False q assms(6)
      by (simp add: free_wf_set_nth[OF assms(1,2)])
    moreover have "free_set fs' = (ext_set ?s - ext_set ?e) \<union> free_set (vec_remove k fs)"
      using False q(2) free_set_split_nth(2)[OF assms(2)] by (simp add: assms(6))
    ultimately show ?thesis using p fs dj by auto
  qed
qed

section \<open>Extent pools\<close>

definition pool_inv :: "extent \<Rightarrow> extent list \<Rightarrow> ('k \<Rightarrow> extent option) \<Rightarrow> bool" where
  "pool_inv pool fs held \<longleftrightarrow> valid_extent pool \<and> free_wf fs
     \<and> (\<forall>k e. held k = Some e \<longrightarrow> valid_extent e \<and> ext_set e \<inter> free_set fs = {})
     \<and> (\<forall>k k' e e'. k \<noteq> k' \<and> held k = Some e \<and> held k' = Some e' \<longrightarrow> ext_set e \<inter> ext_set e' = {})
     \<and> free_set fs \<union> (\<Union> (ext_set ` ran held)) = ext_set pool"

definition take_effect :: "extent list \<Rightarrow> ('k \<Rightarrow> extent option) \<Rightarrow> 'k \<Rightarrow> extent \<Rightarrow> extent list
    \<Rightarrow> ('k \<Rightarrow> extent option) \<Rightarrow> bool" where
  "take_effect fs held k e fs' held' \<longleftrightarrow> held k = None \<and> valid_extent e \<and> ext_set e \<subseteq> free_set fs
     \<and> free_wf fs' \<and> free_set fs' = free_set fs - ext_set e \<and> held' = held(k \<mapsto> e)"

definition give_effect :: "extent list \<Rightarrow> ('k \<Rightarrow> extent option) \<Rightarrow> 'k \<Rightarrow> extent \<Rightarrow> extent list
    \<Rightarrow> ('k \<Rightarrow> extent option) \<Rightarrow> bool" where
  "give_effect fs held k e fs' held' \<longleftrightarrow> held k = Some e \<and> free_wf fs'
     \<and> free_set fs' = free_set fs \<union> ext_set e \<and> held' = held(k := None)"

lemma pool_inv_take:
  assumes "pool_inv pool fs held" "take_effect fs held k e fs' held'"
  shows "pool_inv pool fs' held'"
proof -
  have r: "ran held' = insert e (ran held)"
    using assms(2) by (simp add: take_effect_def)
  have u: "free_set fs' \<union> (\<Union> (ext_set ` ran held')) = free_set fs \<union> (\<Union> (ext_set ` ran held))"
    unfolding r using assms(2) by (auto simp: take_effect_def)
  have old: "ext_set e \<inter> ext_set e' = {}" if "held k' = Some e'" for k' e'
    using assms that unfolding pool_inv_def take_effect_def by blast
  show ?thesis
    using assms u old unfolding pool_inv_def take_effect_def
    by (auto split: if_splits) (metis disjoint_iff)+
qed

lemma pool_inv_give:
  assumes "pool_inv pool fs held" "give_effect fs held k e fs' held'"
  shows "pool_inv pool fs' held'"
proof -
  have r: "\<Union> (ext_set ` ran held) = ext_set e \<union> \<Union> (ext_set ` ran held')"
  proof -
    have "ran held = insert e (ran held')"
    proof
      show "ran held \<subseteq> insert e (ran held')"
      proof
        fix x assume "x \<in> ran held"
        then obtain j where "held j = Some x" by (auto simp: ran_def)
        then show "x \<in> insert e (ran held')" using assms(2) by (cases "j = k") (auto simp: give_effect_def ran_def)
      qed
      show "insert e (ran held') \<subseteq> ran held"
        using assms(2) by (auto simp: give_effect_def ran_def split: if_splits)
    qed
    then show ?thesis by auto
  qed
  have u: "free_set fs' \<union> (\<Union> (ext_set ` ran held')) = free_set fs \<union> (\<Union> (ext_set ` ran held))"
    unfolding r using assms(2) by (auto simp: give_effect_def)
  have h: "held' j = Some e' \<Longrightarrow> j \<noteq> k \<and> held j = Some e'" for j e'
    using assms(2) by (auto simp: give_effect_def split: if_splits)
  have dj: "ext_set e' \<inter> free_set fs' = {}" if "held' j = Some e'" for j e'
    using assms h[OF that] unfolding pool_inv_def give_effect_def by blast
  show ?thesis
    using assms u h dj unfolding pool_inv_def give_effect_def by (metis (no_types, lifting))
qed

lemma pool_inv_start: "valid_extent pool \<Longrightarrow> pool_inv pool [pool] (\<lambda>k. None)"
  by (simp add: pool_inv_def free_wf_def ran_def)

lemma pool_inv_no_overlap:
  assumes "pool_inv pool fs held" "held k = Some e" "held k' = Some e'" "k \<noteq> k'"
  shows "ext_set e \<inter> ext_set e' = {} \<and> ext_set e \<subseteq> ext_set pool"
  using assms unfolding pool_inv_def by (metis UnCI UN_I ranI subsetI)

text \<open>A maximal free list is determined by the bytes it covers.\<close>

lemma free_wf_head:
  assumes "free_wf (e # fs)"
  shows "x \<in> free_set (e # fs) \<Longrightarrow> unat (ext_base e) \<le> x" "unat (ext_base e) \<in> free_set (e # fs)"
    "ext_limit e \<notin> free_set (e # fs)" "free_set fs = free_set (e # fs) - ext_set e"
proof -
  have v: "valid_extent e" "\<forall>f \<in> set fs. valid_extent f \<and> ext_limit e < unat (ext_base f)"
    using assms by (auto simp: free_wf_def)
  show "x \<in> free_set (e # fs) \<Longrightarrow> unat (ext_base e) \<le> x" using v by (fastforce simp: free_set_def ext_set_def)
  show "unat (ext_base e) \<in> free_set (e # fs)" using ext_set_nonempty[OF v(1)] by simp
  show "ext_limit e \<notin> free_set (e # fs)" using v by (fastforce simp: free_set_def ext_set_def)
  have "ext_set e \<inter> free_set fs = {}" using v by (fastforce simp: free_set_def ext_set_def)
  then show "free_set fs = free_set (e # fs) - ext_set e" by auto
qed

lemma free_wf_unique:
  assumes "free_wf fs" "free_wf gs" "free_set fs = free_set gs"
  shows "fs = gs"
  using assms
proof (induction fs arbitrary: gs)
  case Nil
  then show ?case using free_wf_head(2) by (cases gs) auto
next
  case (Cons e fs)
  then obtain g gs' where g: "gs = g # gs'" using free_wf_head(2)[OF Cons.prems(1)] by (cases gs) auto
  note E = free_wf_head[OF Cons.prems(1)] and G = free_wf_head[OF Cons.prems(2)[unfolded g]]
  have same: "free_set (e # fs) = free_set (g # gs')" using Cons.prems(3) g by simp
  have "unat (ext_base e) = unat (ext_base g)"
    using E(1)[of "unat (ext_base g)"] G(1)[of "unat (ext_base e)"] E(2) G(2) same by (simp del: free_set_simps)
  moreover from this have "ext_limit e = ext_limit g"
  proof -
    have "ext_limit g \<notin> ext_set e" "ext_limit e \<notin> ext_set g" using E(3) G(3) same by auto
    then show ?thesis using \<open>unat (ext_base e) = unat (ext_base g)\<close> by (auto simp: ext_set_def)
  qed
  ultimately have eq: "e = g" by (cases e; cases g) (simp add: word_unat_eq_iff)
  have "free_wf fs" "free_wf gs'" using Cons.prems g by (auto simp: free_wf_def)
  moreover have "free_set fs = free_set gs'" using E(4) G(4) same eq by simp
  ultimately show ?case using Cons.IH g eq by simp
qed

text \<open>Between two holes there is always a held extent, so a pool has at most one hole more.\<close>

lemma gap_is_held:
  assumes "pool_inv pool fs held" "Suc i < length fs"
  shows "\<exists>k e. held k = Some e \<and> ext_limit (fs ! i) \<in> ext_set e"
proof -
  let ?g = "ext_limit (fs ! i)"
  have wf: "free_wf fs" and cover: "free_set fs \<union> (\<Union> (ext_set ` ran held)) = ext_set pool"
    using assms(1) by (auto simp: pool_inv_def)
  have lt: "ext_limit (fs ! a) < unat (ext_base (fs ! b))" if "a < b" "b < length fs" for a b
    using wf that by (simp add: free_wf_def sorted_wrt_iff_nth_less)
  have val: "valid_extent (fs ! a)" if "a < length fs" for a using wf that by (simp add: free_wf_def)
  have mem: "unat (ext_base (fs ! a)) \<in> ext_set pool" if "a < length fs" for a
    using cover ext_set_nonempty[OF val[OF that]] that unfolding free_set_def by (metis UN_I UnI1 nth_mem)
  have "?g \<in> ext_set pool" using mem[of i] mem[of "Suc i"] lt[of i "Suc i"] assms(2) by (simp add: ext_set_def)
  moreover have "?g \<notin> ext_set (fs ! a)" if "a < length fs" for a
    using lt[of a i] lt[of i a] that assms(2) by (cases a i rule: linorder_cases) (auto simp: ext_set_def)
  then have "?g \<notin> free_set fs" by (auto simp: free_set_def in_set_conv_nth)
  ultimately have "?g \<in> \<Union> (ext_set ` ran held)" using cover by blast
  then show ?thesis by (auto simp: ran_def)
qed

lemma pool_holes_bound:
  assumes "pool_inv pool fs held" "finite (dom held)"
  shows "length fs \<le> card (dom held) + 1"
proof -
  have wf: "free_wf fs" using assms(1) by (simp add: pool_inv_def)
  have "\<forall>i \<in> {..<length fs - 1}. \<exists>k. \<exists>e. held k = Some e \<and> ext_limit (fs ! i) \<in> ext_set e"
    using gap_is_held[OF assms(1)] by auto
  then obtain f where f: "\<forall>i \<in> {..<length fs - 1}. \<exists>e. held (f i) = Some e \<and> ext_limit (fs ! i) \<in> ext_set e"
    by metis
  have no: "f i \<noteq> f j" if ij: "i < j" "j < length fs - 1" for i j
  proof
    assume same: "f i = f j"
    obtain e where e: "held (f i) = Some e" "ext_limit (fs ! i) \<in> ext_set e" using f ij by force
    have g: "ext_limit (fs ! j) \<in> ext_set e" using f ij(2) e(1) same by force
    have "ext_limit (fs ! i) < unat (ext_base (fs ! j))" "valid_extent (fs ! j)" "fs ! j \<in> set fs"
      using wf ij by (auto simp: free_wf_def sorted_wrt_iff_nth_less)
    then have "unat (ext_base (fs ! j)) \<in> ext_set e \<inter> free_set fs"
      using e(2) g ext_set_nonempty[of "fs ! j"] by (auto simp: ext_set_def free_set_def)
    then show False using assms(1) e(1) unfolding pool_inv_def by blast
  qed
  then have "inj_on f {..<length fs - 1}" by (metis inj_onI lessThan_iff linorder_neqE_nat)
  moreover have "f ` {..<length fs - 1} \<subseteq> dom held" using f by blast
  ultimately have "card {..<length fs - 1} \<le> card (dom held)" using assms(2) by (rule card_inj_on_le)
  then show ?thesis by simp
qed

locale extent_pool =
  fixes init :: "'s \<Rightarrow> bool" and step :: "'s \<Rightarrow> 's \<Rightarrow> bool"
    and pool :: "'s \<Rightarrow> extent" and free :: "'s \<Rightarrow> extent list" and held :: "'s \<Rightarrow> 'k \<Rightarrow> extent option"
  assumes pool_start: "init s \<Longrightarrow> valid_extent (pool s) \<and> free s = [pool s] \<and> held s = (\<lambda>k. None)"
    and pool_step: "step s t \<Longrightarrow> pool_inv (pool s) (free s) (held s) \<Longrightarrow> pool t = pool s
      \<and> (free t = free s \<and> held t = held s
         \<or> (\<exists>k e. take_effect (free s) (held s) k e (free t) (held t))
         \<or> (\<exists>k e. give_effect (free s) (held s) k e (free t) (held t)))"
begin

lemma partition_start: "init s \<Longrightarrow> pool_inv (pool s) (free s) (held s)"
  using pool_start[of s] pool_inv_start[of "pool s"] by auto

lemma partition_step: "step s t \<Longrightarrow> pool_inv (pool s) (free s) (held s) \<Longrightarrow> pool_inv (pool t) (free t) (held t)"
  using pool_step[of s t] pool_inv_take pool_inv_give by metis

end

sublocale extent_pool \<subseteq> partition_sys: step_system init step "\<lambda>s. pool_inv (pool s) (free s) (held s)"
  by unfold_locales (auto intro: partition_start partition_step)

end
