(* ===== verification/Bounded_Claims.thy ===== *)
theory Bounded_Claims
  imports Extents
begin

text \<open>
  The fixed-capacity reservation table of \<open>src/src/anka64/placement/bounded.rs\<close>: a plan is
  prepared without touching the table and committed later under the same exclusive borrow.  The
  free list lives beside the table, as in the source; the capacity of its vector, which the source
  reads from the \<open>Vec\<close>, is a field of the table here.  The interpretation of \<open>extent_pool\<close> gives
  the partition invariant, on which the two main theorems rest: a prepared take or return is
  exact, and a return of a held claim can never be refused.
\<close>

section \<open>Data\<close>

record reservation_key =
  rvk_owner :: u64
  rvk_slot :: u32
  rvk_generation :: u32
  rvk_job :: u64

definition key_valid :: "reservation_key \<Rightarrow> bool" where
  "key_valid k \<longleftrightarrow> rvk_owner k \<noteq> 0 \<and> rvk_slot k \<noteq> 0 \<and> rvk_generation k \<noteq> 0 \<and> rvk_job k \<noteq> 0
     \<and> rvk_job k \<noteq> u64_max"

record claim =
  clm_key :: reservation_key
  clm_extent :: extent

record claims =
  cl_rows :: "claim option list"
  cl_held :: nat
  cl_free_capacity :: nat

record take_plan =
  tk_claim :: nat
  tk_hole :: nat
  tk_before :: extent
  tk_suffix :: "extent option"
  tk_key :: reservation_key
  tk_extent :: extent
  tk_revision :: u64

record return_plan =
  rt_claim :: nat
  rt_index :: nat
  rt_left :: bool
  rt_right :: bool
  rt_merged :: extent
  rt_key :: reservation_key
  rt_extent :: extent
  rt_revision :: u64

section \<open>Operations\<close>

text \<open>The element size \<open>size_of::<T>()\<close> is the compiler's; it is an argument.\<close>

definition storage_bytes :: "nat \<Rightarrow> nat \<Rightarrow> placement_error + u64" where
  "storage_bytes elem capacity =
     (if capacity * elem < 2 ^ 64 then Inr (of_nat (capacity * elem)) else Inl POverflow)"

definition minimum_bytes :: "nat \<Rightarrow> nat \<Rightarrow> nat \<Rightarrow> placement_error + u64" where
  "minimum_bytes claim_elem extent_elem k =
     (if k > unat u32_max then Inl ReservationCapacity
      else if \<not> k + 2 < 2 ^ 64 then Inl POverflow
      else case storage_bytes claim_elem k of
        Inl e \<Rightarrow> Inl e
      | Inr a \<Rightarrow>
         (case storage_bytes extent_elem (k + 2) of
            Inl e \<Rightarrow> Inl e
          | Inr b \<Rightarrow> (case checked_add a b of None \<Rightarrow> Inl POverflow | Some n \<Rightarrow> Inr n)))"

definition claims_new :: "nat \<Rightarrow> nat \<Rightarrow> nat \<Rightarrow> extent \<Rightarrow> placement_error + claims \<times> extent list" where
  "claims_new claim_elem extent_elem k pool =
     (case minimum_bytes claim_elem extent_elem k of
        Inl e \<Rightarrow> Inl e
      | Inr _ \<Rightarrow>
          if \<not> valid_extent pool then Inl InvalidPool
          else Inr (\<lparr>cl_rows = replicate k None, cl_held = 0, cl_free_capacity = k + 2\<rparr>, [pool]))"

definition claims_count :: "claims \<Rightarrow> nat" where
  "claims_count c = cl_held c"

definition claims_extent :: "claims \<Rightarrow> reservation_key \<Rightarrow> extent option" where
  "claims_extent c key = map_option clm_extent (find (\<lambda>r. clm_key r = key) (List.map_filter id (cl_rows c)))"

definition claims_shape :: "claims \<Rightarrow> extent list \<Rightarrow> placement_error + unit" where
  "claims_shape c free =
     (if cl_held c > length (cl_rows c) \<or> length free > cl_held c + 1
         \<or> cl_free_capacity c < length (cl_rows c) + 2
      then Inl ReservationMismatch else Inr ())"

definition prepare_take :: "claims \<Rightarrow> extent list \<Rightarrow> reservation_key \<Rightarrow> u64 \<Rightarrow> u64
    \<Rightarrow> placement_error + take_plan" where
  "prepare_take c free key logical revision =
     (case claims_shape c free of
        Inl e \<Rightarrow> Inl e
      | Inr _ \<Rightarrow>
          if \<not> key_valid key \<or> revision = u64_max \<or> claims_extent c key \<noteq> None then Inl ReservationMismatch
          else if cl_held c = length (cl_rows c) then Inl ReservationCapacity
          else case position (\<lambda>r. r = None) (cl_rows c) of
            None \<Rightarrow> Inl ReservationCapacity
          | Some claim \<Rightarrow>
             (case page_ceil logical of
                Inl e \<Rightarrow> Inl e
              | Inr sz \<Rightarrow>
                 (case position (\<lambda>e. ext_size e \<ge> sz) free of
                    None \<Rightarrow> Inl OutOfMemory
                  | Some hole \<Rightarrow>
                      let before = free ! hole in
                      (case checked_add (ext_base before) sz of
                         None \<Rightarrow> Inl POverflow
                       | Some end \<Rightarrow>
                           Inr \<lparr>tk_claim = claim, tk_hole = hole, tk_before = before,
                                tk_suffix = (if sz < ext_size before
                                             then Some (mk_extent end (ext_size before - sz)) else None),
                                tk_key = key, tk_extent = mk_extent (ext_base before) sz,
                                tk_revision = revision\<rparr>))))"

definition claims_take :: "claims \<Rightarrow> extent list \<Rightarrow> take_plan \<Rightarrow> claims \<times> extent list" where
  "claims_take c free plan =
     (c\<lparr>cl_rows := (cl_rows c)[tk_claim plan := Some \<lparr>clm_key = tk_key plan, clm_extent = tk_extent plan\<rparr>],
        cl_held := cl_held c + 1\<rparr>,
      case tk_suffix plan of
        Some suffix \<Rightarrow> free[tk_hole plan := suffix]
      | None \<Rightarrow> vec_remove (tk_hole plan) free)"

text \<open>\<open>partition_point\<close> on the base-ordered free list is the length of the smaller prefix.\<close>

definition partition_point :: "extent list \<Rightarrow> u64 \<Rightarrow> nat" where
  "partition_point free b = length (takeWhile (\<lambda>e. ext_base e < b) free)"

text \<open>The neighbour checks and the merged extent of a return whose claim was found.\<close>

definition merged_plan :: "extent list \<Rightarrow> nat \<Rightarrow> reservation_key \<Rightarrow> extent \<Rightarrow> u64 \<Rightarrow> u64
    \<Rightarrow> placement_error + return_plan" where
  "merged_plan free claim key ext end revision =
     (let index = partition_point free (ext_base ext);
          before = (if index = 0 then None else Some (free ! (index - 1)));
          after = (if index < length free then Some (free ! index) else None)
      in if (case before of None \<Rightarrow> False
             | Some e \<Rightarrow> (case ext_end e of None \<Rightarrow> True | Some n \<Rightarrow> n > ext_base ext))
            \<or> (case after of None \<Rightarrow> False | Some e \<Rightarrow> end > ext_base e)
         then Inl ReservationMismatch
         else
           let left = (case before of None \<Rightarrow> False | Some e \<Rightarrow> ext_end e = Some (ext_base ext));
               right = (case after of None \<Rightarrow> False | Some e \<Rightarrow> ext_base e = end);
               base = (case before of Some e \<Rightarrow> if left then ext_base e else ext_base ext
                       | None \<Rightarrow> ext_base ext)
           in case (case after of Some e \<Rightarrow> if right then ext_end e else Some end
                    | None \<Rightarrow> Some end) of
                None \<Rightarrow> Inl POverflow
              | Some merged_end \<Rightarrow>
                 (case checked_sub merged_end base of
                    None \<Rightarrow> Inl POverflow
                  | Some sz \<Rightarrow>
                      Inr \<lparr>rt_claim = claim, rt_index = index, rt_left = left, rt_right = right,
                           rt_merged = mk_extent base sz, rt_key = key, rt_extent = ext,
                           rt_revision = revision\<rparr>))"

definition prepare_return :: "claims \<Rightarrow> extent list \<Rightarrow> extent \<Rightarrow> reservation_key \<Rightarrow> extent \<Rightarrow> u64
    \<Rightarrow> placement_error + return_plan" where
  "prepare_return c free pool key ext revision =
     (case claims_shape c free of
        Inl e \<Rightarrow> Inl e
      | Inr _ \<Rightarrow>
         (case position (\<lambda>r. r = Some \<lparr>clm_key = key, clm_extent = ext\<rparr>) (cl_rows c) of
            None \<Rightarrow> Inl ReservationMismatch
          | Some claim \<Rightarrow>
             (case ext_end ext of
                None \<Rightarrow> Inl POverflow
              | Some end \<Rightarrow>
                  if \<not> valid_extent ext \<or> ext_base ext < ext_base pool \<or> unat end > ext_limit pool
                     \<or> cl_held c = 0 \<or> length free = cl_free_capacity c
                  then Inl ReservationMismatch
                  else merged_plan free claim key ext end revision)))"

definition give_back_free :: "extent list \<Rightarrow> return_plan \<Rightarrow> extent list" where
  "give_back_free free plan =
     (let f1 = vec_insert (rt_index plan) (rt_extent plan) free;
          f2 = (if rt_right plan then vec_remove (rt_index plan + 1) f1 else f1)
      in if rt_left plan
         then (vec_remove (rt_index plan) f2)[rt_index plan - 1 := rt_merged plan]
         else f2[rt_index plan := rt_merged plan])"

definition give_back :: "claims \<Rightarrow> extent list \<Rightarrow> return_plan \<Rightarrow> claims \<times> extent list" where
  "give_back c free plan =
     (c\<lparr>cl_rows := (cl_rows c)[rt_claim plan := None], cl_held := cl_held c - 1\<rparr>,
      give_back_free free plan)"

section \<open>The free list after a return\<close>

lemma give_back_free_shape:
  assumes "rt_index plan = length A" "free = A @ B" "rt_left plan \<longrightarrow> A \<noteq> []" "rt_right plan \<longrightarrow> B \<noteq> []"
  shows "give_back_free free plan
    = (if rt_left plan then butlast A else A) @ rt_merged plan # (if rt_right plan then tl B else B)"
proof -
  let ?B = "if rt_right plan then tl B else B"
  have f2: "(if rt_right plan then vec_remove (rt_index plan + 1) (vec_insert (rt_index plan) (rt_extent plan) free)
             else vec_insert (rt_index plan) (rt_extent plan) free) = A @ rt_extent plan # ?B"
    using assms by (cases B) (auto simp: vec_insert_def vec_remove_def)
  show ?thesis
  proof (cases "rt_left plan")
    case True
    then obtain A' a where A: "A = A' @ [a]" using assms(3) by (metis append_butlast_last_id)
    show ?thesis unfolding give_back_free_def Let_def f2
      using True A assms(1) by (simp add: vec_remove_def list_update_append)
  next
    case False
    show ?thesis unfolding give_back_free_def Let_def f2 using False assms(1) by simp
  qed
qed

lemma free_wf_append:
  "free_wf (A @ B) \<longleftrightarrow> free_wf A \<and> free_wf B \<and> (\<forall>a \<in> set A. \<forall>b \<in> set B. ext_limit a < unat (ext_base b))"
  by (auto simp: free_wf_def sorted_wrt_append)

lemma free_wf_Cons:
  "free_wf (e # B) \<longleftrightarrow> valid_extent e \<and> free_wf B \<and> (\<forall>b \<in> set B. ext_limit e < unat (ext_base b))"
  by (auto simp: free_wf_def)

lemma valid_limit_less: "valid_extent e \<Longrightarrow> unat (ext_base e) < ext_limit e"
  by (simp add: valid_extent_iff)

text \<open>
  Merging an extent into the gap between two parts of a free list: with the last hole of the left
  part if they touch, with the first hole of the right part if they touch.
\<close>

lemma merge_left_part:
  assumes "free_wf A" "valid_extent e" "\<forall>a \<in> set A. ext_limit a \<le> unat (ext_base e)"
    and "left \<longleftrightarrow> A \<noteq> [] \<and> ext_limit (last A) = unat (ext_base e)"
    and "unat (ext_base m) = (if left then unat (ext_base (last A)) else unat (ext_base e))"
    and "A' = (if left then butlast A else A)"
  shows "free_wf A' \<and> (\<forall>a \<in> set A'. ext_limit a < unat (ext_base m)) \<and> unat (ext_base m) \<le> unat (ext_base e)
    \<and> unat (ext_base m) mod 4096 = 0
    \<and> free_set A \<union> {unat (ext_base e) ..< x} = free_set A' \<union> {unat (ext_base m) ..< x} \<or> x \<le> unat (ext_base e)"
proof (cases "A = []")
  case True
  then show ?thesis using assms by (auto simp: valid_extent_iff)
next
  case False
  then obtain C l where A: "A = C @ [l]" by (metis append_butlast_last_id)
  have wf: "free_wf C" "valid_extent l" "\<forall>c \<in> set C. ext_limit c < unat (ext_base l)"
    using assms(1) by (auto simp: A free_wf_append free_wf_Cons)
  note l = valid_limit_less[OF wf(2)]
  show ?thesis
  proof (cases left)
    case True
    then have "ext_limit l = unat (ext_base e)" "unat (ext_base m) = unat (ext_base l)" "A' = C"
      using assms(4-6) A by auto
    then show ?thesis using wf l by (auto simp: A ext_set_def valid_extent_iff)
  next
    case False
    then have "ext_limit l < unat (ext_base e)" using assms(3,4) A by auto
    moreover have "\<forall>c \<in> set C. ext_limit c < unat (ext_base e)" using wf(3) l assms(3) A by fastforce
    ultimately show ?thesis using False assms(1,2,5,6) A by (auto simp: valid_extent_iff)
  qed
qed

lemma merge_right_part:
  assumes "free_wf B" "valid_extent e" "\<forall>b \<in> set B. ext_limit e \<le> unat (ext_base b)"
    and "right \<longleftrightarrow> B \<noteq> [] \<and> unat (ext_base (hd B)) = ext_limit e"
    and "lim = (if right then ext_limit (hd B) else ext_limit e)"
    and "B' = (if right then tl B else B)"
  shows "free_wf B' \<and> (\<forall>b \<in> set B'. lim < unat (ext_base b)) \<and> ext_limit e \<le> lim \<and> lim mod 4096 = 0 \<and> lim < 2 ^ 64
    \<and> (x \<le> ext_limit e \<longrightarrow> {x ..< ext_limit e} \<union> free_set B = {x ..< lim} \<union> free_set B')"
proof (cases B)
  case Nil
  then show ?thesis using assms by (auto simp: valid_extent_iff mod_add_4096)
next
  case (Cons h C)
  have wf: "free_wf C" "valid_extent h" "\<forall>c \<in> set C. ext_limit h < unat (ext_base c)"
    using assms(1) by (auto simp: Cons free_wf_Cons)
  note h = valid_limit_less[OF wf(2)]
  show ?thesis
  proof (cases right)
    case True
    then have "unat (ext_base h) = ext_limit e" "lim = ext_limit h" "B' = C" using assms(4-6) Cons by auto
    then show ?thesis using wf h by (auto simp: Cons ext_set_def valid_extent_iff mod_add_4096)
  next
    case False
    then have "ext_limit e < unat (ext_base h)" using assms(3,4) Cons by fastforce
    moreover have "\<forall>c \<in> set C. ext_limit e < unat (ext_base c)" using wf(3) h assms(3) Cons by fastforce
    ultimately show ?thesis using False assms(1,2,5,6) Cons by (auto simp: valid_extent_iff mod_add_4096)
  qed
qed

lemma merge_between:
  assumes "free_wf (A @ B)" "valid_extent e"
    and "\<forall>a \<in> set A. ext_limit a \<le> unat (ext_base e)" "\<forall>b \<in> set B. ext_limit e \<le> unat (ext_base b)"
    and "left \<longleftrightarrow> A \<noteq> [] \<and> ext_limit (last A) = unat (ext_base e)"
    and "right \<longleftrightarrow> B \<noteq> [] \<and> unat (ext_base (hd B)) = ext_limit e"
    and "unat (ext_base m) = (if left then unat (ext_base (last A)) else unat (ext_base e))"
    and "ext_limit m = (if right then ext_limit (hd B) else ext_limit e)"
  shows "free_wf ((if left then butlast A else A) @ m # (if right then tl B else B))
    \<and> free_set ((if left then butlast A else A) @ m # (if right then tl B else B)) = free_set (A @ B) \<union> ext_set e"
proof -
  let ?A = "if left then butlast A else A" and ?B = "if right then tl B else B"
  have wf: "free_wf A" "free_wf B" using assms(1) by (auto simp: free_wf_append)
  note L = merge_left_part[OF wf(1) assms(2,3,5,7) refl]
  note R = merge_right_part[OF wf(2) assms(2,4,6,8) refl]
  have e: "unat (ext_base e) < ext_limit e" using assms(2) by (rule valid_limit_less)
  from L[of "ext_limit e"] e have l: "free_wf ?A" "\<forall>a \<in> set ?A. ext_limit a < unat (ext_base m)"
    "unat (ext_base m) \<le> unat (ext_base e)" "unat (ext_base m) mod 4096 = 0"
    "free_set A \<union> {unat (ext_base e) ..< ext_limit e} = free_set ?A \<union> {unat (ext_base m) ..< ext_limit e}" by auto
  from R[of "unat (ext_base m)"] e l(3) have r: "free_wf ?B" "\<forall>b \<in> set ?B. ext_limit m < unat (ext_base b)"
    "ext_limit e \<le> ext_limit m" "ext_limit m mod 4096 = 0" "ext_limit m < 2 ^ 64"
    "{unat (ext_base m) ..< ext_limit e} \<union> free_set B = {unat (ext_base m) ..< ext_limit m} \<union> free_set ?B" by auto
  have "unat (ext_size m) = ext_limit m - unat (ext_base m)" by simp
  then have "unat (ext_size m) mod 4096 = 0" using mod_diff_4096[OF r(4) l(4)] by simp
  moreover have "0 < unat (ext_size m)" using e l(3) r(3) by linarith
  ultimately have m: "valid_extent m" using l(4) r(5) by (simp add: valid_extent_iff)
  have "free_wf (?A @ m # ?B)" unfolding free_wf_append free_wf_Cons
    using l(1,2) r(1,2) m valid_limit_less[OF m] by fastforce
  moreover have "free_set (?A @ m # ?B) = free_set A \<union> ext_set e \<union> free_set B"
  proof -
    have "free_set (?A @ m # ?B) = free_set ?A \<union> ({unat (ext_base m) ..< ext_limit m} \<union> free_set ?B)"
      by (simp add: ext_set_def)
    also have "\<dots> = (free_set ?A \<union> {unat (ext_base m) ..< ext_limit e}) \<union> free_set B"
      using r(6) by (simp add: Un_assoc)
    also have "\<dots> = free_set A \<union> ext_set e \<union> free_set B" using l(5) by (simp add: ext_set_def)
    finally show ?thesis .
  qed
  ultimately show ?thesis by auto
qed

section \<open>The table as an extent pool\<close>

type_synonym claims_state = "claims \<times> extent list"

definition row_extent :: "claims_state \<Rightarrow> nat \<Rightarrow> extent option" where
  "row_extent s i = (if i < length (cl_rows (fst s)) then map_option clm_extent (cl_rows (fst s) ! i) else None)"

inductive claims_step :: "extent \<Rightarrow> claims_state \<Rightarrow> claims_state \<Rightarrow> bool" for pool where
  step_take: "prepare_take c free key logical revision = Inr plan \<Longrightarrow>
    claims_step pool (c, free) (claims_take c free plan)"
| step_return: "prepare_return c free pool key e revision = Inr rplan \<Longrightarrow>
    claims_step pool (c, free) (give_back c free rplan)"

lemma prepare_take_Inr:
  assumes "prepare_take c free key logical revision = Inr plan"
  shows "page_ceil logical = Inr (ext_size (tk_extent plan)) \<and> tk_claim plan < length (cl_rows c)
    \<and> cl_rows c ! tk_claim plan = None \<and> tk_hole plan < length free
    \<and> ext_size (tk_extent plan) \<le> ext_size (free ! tk_hole plan)
    \<and> tk_extent plan = mk_extent (ext_base (free ! tk_hole plan)) (ext_size (tk_extent plan))
    \<and> tk_suffix plan = (if ext_size (tk_extent plan) < ext_size (free ! tk_hole plan)
       then Some (mk_extent (ext_base (free ! tk_hole plan) + ext_size (tk_extent plan))
                            (ext_size (free ! tk_hole plan) - ext_size (tk_extent plan))) else None)
    \<and> tk_key plan = key \<and> key_valid key \<and> claims_extent c key = None"
  using assms unfolding prepare_take_def Let_def
  by (auto dest!: checked_add_SomeD position_SomeD split: sum.splits option.splits if_splits)

lemma take_is_take:
  assumes "prepare_take c free key logical revision = Inr plan" "free_wf free"
  shows "take_effect free (row_extent (c, free)) (tk_claim plan) (tk_extent plan)
    (snd (claims_take c free plan)) (row_extent (claims_take c free plan))"
proof -
  define sz where "sz = ext_size (tk_extent plan)"
  have p: "page_ceil logical = Inr sz" "tk_claim plan < length (cl_rows c)"
    "cl_rows c ! tk_claim plan = None" "tk_hole plan < length free" "sz \<le> ext_size (free ! tk_hole plan)"
    "tk_extent plan = mk_extent (ext_base (free ! tk_hole plan)) sz"
    "tk_suffix plan = (if sz < ext_size (free ! tk_hole plan)
       then Some (mk_extent (ext_base (free ! tk_hole plan) + sz) (ext_size (free ! tk_hole plan) - sz)) else None)"
    using prepare_take_Inr[OF assms(1)] unfolding sz_def by blast+
  have f: "snd (claims_take c free plan) = (if sz = ext_size (free ! tk_hole plan) then vec_remove (tk_hole plan) free
      else free[tk_hole plan := mk_extent (ext_base (free ! tk_hole plan) + sz) (ext_size (free ! tk_hole plan) - sz)])"
    using p(5) by (auto simp: claims_take_def p(7) split: if_splits)
  note c = carve_hole[OF assms(2) p(4) page_ceil_Inr(2,3)[OF p(1)] p(5) f]
  have "row_extent (claims_take c free plan) = (row_extent (c, free))(tk_claim plan \<mapsto> tk_extent plan)"
    using p(2) by (auto simp: row_extent_def claims_take_def nth_upd fun_eq_iff)
  with c p show ?thesis by (simp add: take_effect_def row_extent_def)
qed

lemma merged_plan_Inr:
  assumes "merged_plan free claim key e end revision = Inr plan" "unat end = ext_limit e"
  shows "rt_claim plan = claim \<and> rt_extent plan = e \<and> rt_index plan = partition_point free (ext_base e)
    \<and> rt_left plan = (rt_index plan \<noteq> 0 \<and> ext_limit (free ! (rt_index plan - 1)) = unat (ext_base e))
    \<and> rt_right plan = (rt_index plan < length free \<and> unat (ext_base (free ! rt_index plan)) = ext_limit e)
    \<and> ext_base (rt_merged plan) = (if rt_left plan then ext_base (free ! (rt_index plan - 1)) else ext_base e)
    \<and> ext_limit (rt_merged plan) = (if rt_right plan then ext_limit (free ! rt_index plan) else ext_limit e)"
proof -
  define i where "i = partition_point free (ext_base e)"
  show ?thesis
    using assms unfolding merged_plan_def i_def[symmetric]
    by (cases "i = 0"; cases "i < length free")
      (auto simp: Let_def checked_sub_eq_Some ext_end_eq_Some word_unat_eq_iff split: option.splits if_splits)
qed

lemma prepare_return_Inr:
  assumes "prepare_return c free pool key e revision = Inr plan"
  shows "rt_claim plan < length (cl_rows c)
    \<and> cl_rows c ! rt_claim plan = Some \<lparr>clm_key = key, clm_extent = e\<rparr> \<and> valid_extent e
    \<and> (\<exists>end. merged_plan free (rt_claim plan) key e end revision = Inr plan \<and> unat end = ext_limit e)"
proof -
  from assms obtain claim "end" where c: "position (\<lambda>r. r = Some \<lparr>clm_key = key, clm_extent = e\<rparr>) (cl_rows c) = Some claim"
    "ext_end e = Some end" "valid_extent e" "merged_plan free claim key e end revision = Inr plan"
    unfolding prepare_return_def by (auto split: sum.splits option.splits if_splits)
  then show ?thesis using merged_plan_Inr[OF c(4)] position_SomeD[OF c(1)] by (auto simp: ext_end_eq_Some)
qed

lemma partition_point_split:
  assumes "free_wf free" "valid_extent e" "ext_set e \<inter> free_set free = {}"
  defines "A \<equiv> takeWhile (\<lambda>x. ext_base x < ext_base e) free" and "B \<equiv> dropWhile (\<lambda>x. ext_base x < ext_base e) free"
  shows "free = A @ B" "partition_point free (ext_base e) = length A"
    "\<forall>a \<in> set A. ext_limit a \<le> unat (ext_base e)" "\<forall>b \<in> set B. ext_limit e \<le> unat (ext_base b)"
proof -
  show s: "free = A @ B" by (simp add: A_def B_def)
  show "partition_point free (ext_base e) = length A" by (simp add: partition_point_def A_def)
  have dj: "ext_limit x \<le> unat (ext_base e) \<or> ext_limit e \<le> unat (ext_base x)" "valid_extent x" if "x \<in> set free" for x
    using that assms(1-3) ext_disjoint_iff[of x e] by (auto simp: free_wf_def free_set_def)
  show "\<forall>a \<in> set A. ext_limit a \<le> unat (ext_base e)"
  proof
    fix a assume a: "a \<in> set A"
    then have "ext_base a < ext_base e" unfolding A_def by (rule set_takeWhileD[THEN conjunct2])
    then have "unat (ext_base a) < unat (ext_base e)" by (simp add: word_less_nat_alt)
    then show "ext_limit a \<le> unat (ext_base e)" using dj[of a] a s valid_limit_less[OF assms(2)] by auto
  qed
  show "\<forall>b \<in> set B. ext_limit e \<le> unat (ext_base b)"
  proof (cases B)
    case (Cons h C)
    then have "\<not> ext_base h < ext_base e" unfolding B_def by (metis dropWhile_eq_Cons_conv)
    then have h: "unat (ext_base e) \<le> unat (ext_base h)" by (simp add: word_less_nat_alt)
    have "free_wf (h # C)" using assms(1) s Cons by (simp add: free_wf_append)
    then have "\<forall>b \<in> set B. unat (ext_base e) \<le> unat (ext_base b)"
      using h Cons by (fastforce simp: free_wf_Cons)
    then show ?thesis using dj s valid_limit_less by fastforce
  qed simp
qed

lemma nth_at_split:
  "A \<noteq> [] \<Longrightarrow> (A @ B) ! (length A - 1) = last A" "B \<noteq> [] \<Longrightarrow> (A @ B) ! length A = hd B"
  by (auto simp: nth_append last_conv_nth hd_conv_nth)

lemma return_is_give:
  assumes "prepare_return c free pool key e revision = Inr plan" "free_wf free"
    and "ext_set e \<inter> free_set free = {}"
  shows "give_effect free (row_extent (c, free)) (rt_claim plan) e
    (snd (give_back c free plan)) (row_extent (give_back c free plan))"
proof -
  have p: "rt_claim plan < length (cl_rows c)"
    "cl_rows c ! rt_claim plan = Some \<lparr>clm_key = key, clm_extent = e\<rparr>"
    "valid_extent e" "rt_extent plan = e" "rt_index plan = partition_point free (ext_base e)"
    "rt_left plan = (rt_index plan \<noteq> 0 \<and> ext_limit (free ! (rt_index plan - 1)) = unat (ext_base e))"
    "rt_right plan = (rt_index plan < length free \<and> unat (ext_base (free ! rt_index plan)) = ext_limit e)"
    "ext_base (rt_merged plan) = (if rt_left plan then ext_base (free ! (rt_index plan - 1)) else ext_base e)"
    "ext_limit (rt_merged plan) = (if rt_right plan then ext_limit (free ! rt_index plan) else ext_limit e)"
    using prepare_return_Inr[OF assms(1)] merged_plan_Inr by blast+
  obtain A B where sp: "free = A @ B" "partition_point free (ext_base e) = length A"
    "\<forall>a \<in> set A. ext_limit a \<le> unat (ext_base e)" "\<forall>b \<in> set B. ext_limit e \<le> unat (ext_base b)"
    using partition_point_split[OF assms(2) p(3) assms(3)] by blast
  have idx: "rt_index plan = length A" using p(5) sp(2) by simp
  have left: "rt_left plan \<longleftrightarrow> A \<noteq> [] \<and> ext_limit (last A) = unat (ext_base e)"
    using p(6) nth_at_split(1)[of A B] by (auto simp: idx sp(1))
  have right: "rt_right plan \<longleftrightarrow> B \<noteq> [] \<and> unat (ext_base (hd B)) = ext_limit e"
    using p(7) nth_at_split(2)[of B A] by (auto simp: idx sp(1))
  have free: "snd (give_back c free plan)
      = (if rt_left plan then butlast A else A) @ rt_merged plan # (if rt_right plan then tl B else B)"
    unfolding give_back_def using give_back_free_shape[OF idx sp(1)] left right by simp
  have base: "unat (ext_base (rt_merged plan)) = (if rt_left plan then unat (ext_base (last A)) else unat (ext_base e))"
    using p(8) left nth_at_split(1)[of A B] by (simp add: idx sp(1))
  have lim: "ext_limit (rt_merged plan) = (if rt_right plan then ext_limit (hd B) else ext_limit e)"
    using p(9) right nth_at_split(2)[of B A] by (simp add: idx sp(1))
  have m: "free_wf (snd (give_back c free plan))
    \<and> free_set (snd (give_back c free plan)) = free_set free \<union> ext_set e"
    unfolding free unfolding sp(1)
    by (rule merge_between[OF assms(2)[unfolded sp(1)] p(3) sp(3,4) left right base lim])
  have "row_extent (give_back c free plan) = (row_extent (c, free))(rt_claim plan := None)"
    using p(1) by (auto simp: row_extent_def give_back_def nth_upd fun_eq_iff)
  with m p(1,2) show ?thesis by (simp add: give_effect_def row_extent_def)
qed

definition claims_init :: "extent \<Rightarrow> claims_state \<Rightarrow> bool" where
  "claims_init pool s \<longleftrightarrow> (\<exists>claim_elem extent_elem k. claims_new claim_elem extent_elem k pool = Inr s)"

lemma claims_new_Inr:
  assumes "claims_new claim_elem extent_elem k pool = Inr s"
  shows "s = (\<lparr>cl_rows = replicate k None, cl_held = 0, cl_free_capacity = k + 2\<rparr>, [pool]) \<and> valid_extent pool"
  using assms by (auto simp: claims_new_def split: sum.splits if_splits)

lemma prepare_return_held:
  assumes "prepare_return c free pool key e revision = Inr plan"
  shows "row_extent (c, free) (rt_claim plan) = Some e"
  using prepare_return_Inr[OF assms] by (simp add: row_extent_def)

interpretation claims_pool: extent_pool "claims_init pool" "claims_step pool" "\<lambda>_. pool" snd row_extent
  for pool
proof unfold_locales
  fix s assume "claims_init pool s"
  then show "valid_extent pool \<and> snd s = [pool] \<and> row_extent s = (\<lambda>k. None)"
    by (auto simp: claims_init_def row_extent_def fun_eq_iff dest!: claims_new_Inr)
next
  fix s t assume "claims_step pool s t" and inv: "pool_inv pool (snd s) (row_extent s)"
  then show "pool = pool \<and> (snd t = snd s \<and> row_extent t = row_extent s
      \<or> (\<exists>k e. take_effect (snd s) (row_extent s) k e (snd t) (row_extent t))
      \<or> (\<exists>k e. give_effect (snd s) (row_extent s) k e (snd t) (row_extent t)))"
  proof cases
    case (step_take c free key logical revision plan)
    have "free_wf free" using inv step_take(1) by (simp add: pool_inv_def)
    from take_is_take[OF step_take(3) this] show ?thesis unfolding step_take(1,2) snd_conv by blast
  next
    case (step_return c free key e revision plan)
    then have "ext_set e \<inter> free_set free = {}" "free_wf free"
      using prepare_return_held inv unfolding pool_inv_def by (metis snd_conv)+
    from return_is_give[OF step_return(3) this(2,1)] show ?thesis unfolding step_return(1,2) snd_conv by blast
  qed
qed

section \<open>The accounts of the table\<close>

definition keys_distinct :: "claim option list \<Rightarrow> bool" where
  "keys_distinct rows \<longleftrightarrow> (\<forall>i < length rows. \<forall>j < length rows. \<forall>a b.
     rows ! i = Some a \<and> rows ! j = Some b \<and> clm_key a = clm_key b \<longrightarrow> i = j)"

definition claims_wf :: "claims_state \<Rightarrow> bool" where
  "claims_wf s \<longleftrightarrow> cl_held (fst s) = length (filter (\<lambda>r. r \<noteq> None) (cl_rows (fst s)))
     \<and> length (cl_rows (fst s)) + 2 \<le> cl_free_capacity (fst s) \<and> keys_distinct (cl_rows (fst s))"

lemma claims_extent_None:
  "claims_extent c key = None \<Longrightarrow> i < length (cl_rows c) \<Longrightarrow> cl_rows c ! i = Some a \<Longrightarrow> clm_key a \<noteq> key"
  unfolding claims_extent_def by (force simp: find_None_iff List.map_filter_def in_set_conv_nth)

lemma keys_distinct_take:
  assumes "keys_distinct (cl_rows c)" "claims_extent c (clm_key r) = None"
  shows "keys_distinct ((cl_rows c)[i := Some r])"
  unfolding keys_distinct_def
proof (intro allI impI)
  fix j k a b assume j: "j < length ((cl_rows c)[i := Some r])" and k: "k < length ((cl_rows c)[i := Some r])"
    and ab: "(cl_rows c)[i := Some r] ! j = Some a \<and> (cl_rows c)[i := Some r] ! k = Some b \<and> clm_key a = clm_key b"
  note other = claims_extent_None[OF assms(2)]
  show "j = k"
  proof (cases "j = i \<or> k = i")
    case True
    then show ?thesis using other[of k b] other[of j a] j k ab by (auto simp: nth_upd split: if_splits)
  next
    case False
    then show ?thesis using assms(1) j k ab unfolding keys_distinct_def by (auto simp: nth_upd)
  qed
qed

lemma keys_distinct_drop: "keys_distinct rows \<Longrightarrow> keys_distinct (rows[i := None])"
  unfolding keys_distinct_def by (auto simp: nth_upd split: if_splits)

lemma claims_wf_step:
  assumes "claims_step pool s t" "claims_wf s" shows "claims_wf t"
  using assms(1)
proof cases
  case (step_take c free key logical revision plan)
  note p = prepare_take_Inr[OF step_take(3)]
  let ?r = "\<lparr>clm_key = tk_key plan, clm_extent = tk_extent plan\<rparr>"
  have "keys_distinct ((cl_rows c)[tk_claim plan := Some ?r])"
    using assms(2) p step_take(1) by (intro keys_distinct_take) (simp_all add: claims_wf_def)
  moreover have "length (filter (\<lambda>r. r \<noteq> None) ((cl_rows c)[tk_claim plan := Some ?r])) = cl_held c + 1"
    using filter_update_count_up[of "tk_claim plan" "cl_rows c" "\<lambda>r. r \<noteq> None" "Some ?r"] p assms(2) step_take(1)
    by (simp add: claims_wf_def)
  ultimately show ?thesis using assms(2) step_take(1,2) by (simp add: claims_wf_def claims_take_def)
next
  case (step_return c free key e revision plan)
  note p = prepare_return_Inr[OF step_return(3)]
  have "keys_distinct ((cl_rows c)[rt_claim plan := None])"
    using assms(2) step_return(1) by (intro keys_distinct_drop) (simp add: claims_wf_def)
  moreover have "length (filter (\<lambda>r. r \<noteq> None) ((cl_rows c)[rt_claim plan := None])) = cl_held c - 1"
    using filter_update_count[of "rt_claim plan" "cl_rows c" "\<lambda>r. r \<noteq> None" None] p assms(2) step_return(1)
    by (simp add: claims_wf_def)
  ultimately show ?thesis using assms(2) step_return(1,2) by (simp add: claims_wf_def give_back_def)
qed

interpretation claims_accounts: step_system "claims_init pool" "claims_step pool" claims_wf for pool
proof unfold_locales
  fix s assume "claims_init pool s"
  then show "claims_wf s"
    by (auto simp: claims_init_def claims_wf_def keys_distinct_def dest!: claims_new_Inr)
qed (rule claims_wf_step)

lemma dom_row_extent: "dom (row_extent s) = {i. i < length (cl_rows (fst s)) \<and> cl_rows (fst s) ! i \<noteq> None}"
  by (auto simp: row_extent_def split: if_splits)

lemma claims_shape_ok:
  assumes "claims_wf s" "pool_inv pool (snd s) (row_extent s)"
  shows "claims_shape (fst s) (snd s) = Inr ()"
proof -
  have f: "finite (dom (row_extent s))" by (simp add: dom_row_extent)
  have "length (snd s) \<le> card (dom (row_extent s)) + 1" using pool_holes_bound[OF assms(2) f] .
  moreover have "card (dom (row_extent s)) = cl_held (fst s)"
    using assms(1) by (simp add: dom_row_extent claims_wf_def length_filter_conv_card)
  ultimately show ?thesis using assms(1) by (auto simp: claims_shape_def claims_wf_def not_less)
qed

lemma merged_plan_succeeds:
  assumes "free = A @ B" "partition_point free (ext_base e) = length A" "free_wf free" "valid_extent e"
    and "\<forall>a \<in> set A. ext_limit a \<le> unat (ext_base e)" "\<forall>b \<in> set B. ext_limit e \<le> unat (ext_base b)"
    and "ext_end e = Some end"
  shows "\<exists>plan. merged_plan free claim key e end revision = Inr plan"
proof -
  have lim: "unat end = ext_limit e" using assms(7) by (simp add: ext_end_eq_Some)
  have A: "A \<noteq> [] \<Longrightarrow> free ! (length A - 1) = last A \<and> valid_extent (last A) \<and> ext_limit (last A) \<le> unat (ext_base e)"
    using assms(1,3,5) nth_at_split(1)[of A B] by (auto simp: free_wf_def)
  have B: "B \<noteq> [] \<Longrightarrow> free ! length A = hd B \<and> valid_extent (hd B) \<and> ext_limit e \<le> unat (ext_base (hd B))"
    using assms(1,3,6) nth_at_split(2)[of B A] by (auto simp: free_wf_def)
  have len: "length A < length free \<longleftrightarrow> B \<noteq> []" using assms(1) by simp
  have e: "unat (ext_base e) < ext_limit e" using assms(4) by (rule valid_limit_less)
  show ?thesis
    using A B e lim valid_ext_end[of "last A"] valid_ext_end[of "hd B"] valid_limit_less[of "last A"] valid_limit_less[of "hd B"]
    unfolding merged_plan_def assms(2) Let_def len
    by (cases "A = []"; cases "B = []") (auto simp: checked_sub_def word_less_nat_alt word_le_nat_alt word_unat_eq_iff)
qed

lemma held_in_pool:
  assumes "pool_inv pool fs held" "held k = Some e"
  shows "valid_extent e \<and> unat (ext_base pool) \<le> unat (ext_base e) \<and> ext_limit e \<le> ext_limit pool"
proof -
  have v: "valid_extent e" and sub: "ext_set e \<subseteq> ext_set pool"
    using assms unfolding pool_inv_def by (blast intro: ranI)+
  have "unat (ext_base e) < ext_limit e" using v by (rule valid_limit_less)
  then show ?thesis using v sub by (simp add: ext_set_def)
qed

lemma return_succeeds:
  assumes "pool_inv pool (snd s) (row_extent s)" "claims_wf s"
    and "i < length (cl_rows (fst s))" "cl_rows (fst s) ! i = Some r"
  shows "\<exists>plan. prepare_return (fst s) (snd s) pool (clm_key r) (clm_extent r) revision = Inr plan"
proof -
  let ?e = "clm_extent r" and ?c = "fst s"
  have row: "row_extent s i = Some ?e" using assms(3,4) by (simp add: row_extent_def)
  note pool = held_in_pool[OF assms(1) row]
  have dj: "ext_set ?e \<inter> free_set (snd s) = {}" "free_wf (snd s)" using assms(1) row unfolding pool_inv_def by blast+
  have shape: "claims_shape ?c (snd s) = Inr ()" using assms(2,1) by (rule claims_shape_ok)
  have "Some r = Some \<lparr>clm_key = clm_key r, clm_extent = ?e\<rparr>" by simp
  then obtain claim where p: "position (\<lambda>x. x = Some \<lparr>clm_key = clm_key r, clm_extent = ?e\<rparr>) (cl_rows ?c) = Some claim"
    using position_ex[OF nth_mem[OF assms(3)], of "\<lambda>x. x = Some \<lparr>clm_key = clm_key r, clm_extent = ?e\<rparr>"] assms(4) by auto
  have "cl_rows ?c ! i \<in> set (filter (\<lambda>x. x \<noteq> None) (cl_rows ?c))" using nth_mem[OF assms(3)] assms(4) by simp
  then have "cl_held ?c \<noteq> 0" using assms(2) by (auto simp: claims_wf_def filter_empty_conv)
  moreover have "length (snd s) \<noteq> cl_free_capacity ?c"
    using shape by (auto simp: claims_shape_def split: if_splits)
  moreover obtain A B where sp: "snd s = A @ B" "partition_point (snd s) (ext_base ?e) = length A"
    "\<forall>a \<in> set A. ext_limit a \<le> unat (ext_base ?e)" "\<forall>b \<in> set B. ext_limit ?e \<le> unat (ext_base b)"
    using partition_point_split[OF dj(2) _ dj(1)] pool by blast
  obtain "end" where "end": "ext_end ?e = Some end" "unat end = ext_limit ?e" using valid_ext_end[of ?e] pool by blast
  moreover obtain plan where "merged_plan (snd s) claim (clm_key r) ?e end revision = Inr plan"
    using merged_plan_succeeds[OF sp(1,2) dj(2) _ sp(3,4) "end"(1)] pool by blast
  ultimately show ?thesis using shape p pool by (simp add: prepare_return_def word_less_nat_alt not_less)
qed

lemma take_return_inverse:
  assumes "pool_inv pool free (row_extent (c, free))" "claims_wf (c, free)"
    and "prepare_take c free key logical revision = Inr plan" "claims_take c free plan = (c', free')"
  shows "\<exists>rplan. prepare_return c' free' pool key (tk_extent plan) revision' = Inr rplan
    \<and> give_back c' free' rplan = (c, free)"
proof -
  note p = prepare_take_Inr[OF assms(3)]
  let ?r = "\<lparr>clm_key = key, clm_extent = tk_extent plan\<rparr>"
  have wf: "free_wf free" using assms(1) by (simp add: pool_inv_def)
  note te = take_is_take[OF assms(3) wf, unfolded assms(4)]
  have c': "c' = c\<lparr>cl_rows := (cl_rows c)[tk_claim plan := Some ?r], cl_held := cl_held c + 1\<rparr>"
    using assms(4) p by (auto simp: claims_take_def)
  have inv': "pool_inv pool free' (row_extent (c', free'))" using pool_inv_take[OF assms(1) te] by simp
  have wf': "claims_wf (c', free')"
    using claims_wf_step[OF step_take[OF assms(3)] assms(2)] assms(4) by simp
  have row: "tk_claim plan < length (cl_rows c')" "cl_rows c' ! tk_claim plan = Some ?r" using p by (simp_all add: c')
  obtain rplan where rp: "prepare_return c' free' pool key (tk_extent plan) revision' = Inr rplan"
    using return_succeeds[of pool "(c', free')" "tk_claim plan" ?r revision'] inv' wf' row by auto
  note q = prepare_return_Inr[OF rp]
  have "rt_claim rplan = tk_claim plan"
    using wf' q row unfolding claims_wf_def keys_distinct_def by (metis fst_conv)
  then have rows: "fst (give_back c' free' rplan) = c"
    using p by (simp add: give_back_def c' list_update_same_conv)
  have dj: "ext_set (tk_extent plan) \<inter> free_set free' = {}" "free_wf free'"
    using te by (auto simp: take_effect_def)
  note ge = return_is_give[OF rp dj(2,1)]
  have "free_set (snd (give_back c' free' rplan)) = free_set free" using te ge by (auto simp: take_effect_def give_effect_def)
  then have "snd (give_back c' free' rplan) = free"
    using ge wf by (intro free_wf_unique) (auto simp: give_effect_def)
  then show ?thesis using rp rows by (metis prod.collapse)
qed

section \<open>Claims\<close>

text \<open>
  C31: on every table reached by takes and returns, a claim that is held can always be given back:
  preparing its return succeeds whatever the fragmentation of the pool, so the fixed capacity of
  the free list (rows + 2) can never be exhausted.
\<close>

theorem held_claim_returnable:
  assumes "reachable (claims_init pool) (claims_step pool) s"
    and "i < length (cl_rows (fst s))" "cl_rows (fst s) ! i = Some r"
  shows "\<exists>plan. prepare_return (fst s) (snd s) pool (clm_key r) (clm_extent r) revision = Inr plan"
  using return_succeeds[OF claims_pool.partition_sys.invariant_reachable[OF assms(1)]
      claims_accounts.invariant_reachable[OF assms(1)] assms(2,3)] .

lemmas claims_eval = claims_new_def minimum_bytes_def storage_bytes_def valid_extent_def is_page_aligned_def
  PLACEMENT_PAGE_MASK_def PLACEMENT_PAGE_SIZE_def ext_end_def checked_add_def mk_extent_def
  prepare_take_def claims_shape_def key_valid_def claims_extent_def List.map_filter_def page_ceil_def
  claims_take_def vec_remove_def Let_def

definition one_page :: extent where
  "one_page = mk_extent 0x1000 0x1000"

definition one_key :: reservation_key where
  "one_key = \<lparr>rvk_owner = 1, rvk_slot = 1, rvk_generation = 1, rvk_job = 1\<rparr>"

definition one_free :: claims where
  "one_free = \<lparr>cl_rows = [None], cl_held = 0, cl_free_capacity = 3\<rparr>"

definition one_held :: claims where
  "one_held = \<lparr>cl_rows = [Some \<lparr>clm_key = one_key, clm_extent = one_page\<rparr>], cl_held = 1, cl_free_capacity = 3\<rparr>"

definition one_take :: take_plan where
  "one_take = \<lparr>tk_claim = 0, tk_hole = 0, tk_before = one_page, tk_suffix = None, tk_key = one_key,
     tk_extent = one_page, tk_revision = 0\<rparr>"

lemma claims_reach_one: "reachable (claims_init one_page) (claims_step one_page) (one_free, [one_page])"
proof (rule reach_init)
  have "claims_new 40 16 1 one_page = Inr (one_free, [one_page])"
    by (simp add: claims_eval one_page_def one_free_def)
  then show "claims_init one_page (one_free, [one_page])" unfolding claims_init_def by blast
qed

lemma claims_take_one: "prepare_take one_free [one_page] one_key 8 0 = Inr one_take"
  by (simp add: claims_eval one_page_def one_free_def one_key_def one_take_def)

lemma claims_taken_one: "claims_take one_free [one_page] one_take = (one_held, [])"
  by (simp add: claims_take_def vec_remove_def one_free_def one_take_def one_held_def)

theorem held_claim_returnable_witness:
  "\<exists>plan. prepare_return one_held [] one_page one_key one_page 0 = Inr plan"
proof -
  have "reachable (claims_init one_page) (claims_step one_page) (one_held, [])"
    using reach_step[OF claims_reach_one step_take[OF claims_take_one]] unfolding claims_taken_one .
  from held_claim_returnable[OF this, of 0 "\<lparr>clm_key = one_key, clm_extent = one_page\<rparr>" 0]
  show ?thesis by (simp add: one_held_def)
qed

text \<open>
  C32: a take followed by the return of the same reservation restores the table and the free list
  exactly, hole boundaries included, on every reachable table.
\<close>

theorem claims_take_return_roundtrip:
  assumes "reachable (claims_init pool) (claims_step pool) (c, free)"
    and "prepare_take c free key logical revision = Inr plan" "claims_take c free plan = (c', free')"
  shows "\<exists>rplan. prepare_return c' free' pool key (tk_extent plan) revision' = Inr rplan
    \<and> give_back c' free' rplan = (c, free)"
  using take_return_inverse[OF claims_pool.partition_sys.invariant_reachable[OF assms(1), unfolded snd_conv]
      claims_accounts.invariant_reachable[OF assms(1)] assms(2,3)] .

theorem claims_take_return_roundtrip_witness:
  "\<exists>rplan. prepare_return one_held [] one_page one_key one_page 7 = Inr rplan
     \<and> give_back one_held [] rplan = (one_free, [one_page])"
  using claims_take_return_roundtrip[OF claims_reach_one claims_take_one claims_taken_one, of 7]
  by (simp add: one_take_def)

end
