(* ===== verification/Placement_Managers.thy ===== *)
theory Placement_Managers
  imports Bounded_Claims Arch_State
begin

text \<open>
  The operations of the two placement managers of \<open>src/src/anka64/placement.rs\<close> that do not touch
  the fabric: the physical extent allocator with its sort-and-coalesce release, and the per-process
  virtual layout in its monotonic and its reusable profile.  A failed \<open>expect\<close> or \<open>unwrap\<close> is the
  outer \<open>None\<close>.  The debug assertions of the source are not executed by a release build and are not
  modelled; the invariants proved of the managers imply them.
\<close>

section \<open>The physical manager\<close>

record placement_manager =
  pm_pool :: extent
  pm_free :: "extent list"
  pm_allocated :: "(object_id, extent) btm"
  pm_committed :: "object_id set"
  pm_bounded :: "claims option"

definition manager_new :: "u64 \<Rightarrow> u64 \<Rightarrow> placement_error + placement_manager" where
  "manager_new pool_base pool_size =
     (let pool = mk_extent pool_base pool_size in
      if \<not> valid_extent pool then Inl InvalidPool
      else Inr \<lparr>pm_pool = pool, pm_free = [pool], pm_allocated = [], pm_committed = {}, pm_bounded = None\<rparr>)"

definition allocated_extent :: "placement_manager \<Rightarrow> object_id \<Rightarrow> extent option" where
  "allocated_extent m owner = btm_get (pm_allocated m) owner"

definition allocated_count :: "placement_manager \<Rightarrow> nat" where
  "allocated_count m = length (pm_allocated m)"

definition free_bytes :: "placement_manager \<Rightarrow> u64" where
  "free_bytes m = sum_list (map ext_size (pm_free m))"

definition allocate :: "placement_manager \<Rightarrow> object_id \<Rightarrow> u64 \<Rightarrow> (placement_error + extent) \<times> placement_manager" where
  "allocate m owner requested_size =
     (if pm_bounded m \<noteq> None then (Inl WrongMode, m)
      else if btm_contains (pm_allocated m) owner then (Inl OwnerAlreadyAllocated, m)
      else case page_ceil requested_size of
        Inl e \<Rightarrow> (Inl e, m)
      | Inr sz \<Rightarrow>
         (case position (\<lambda>e. ext_size e \<ge> sz) (pm_free m) of
            None \<Rightarrow> (Inl OutOfMemory, m)
          | Some idx \<Rightarrow>
              let slot = pm_free m ! idx;
                  candidate = mk_extent (ext_base slot) sz
              in case ext_end candidate of
                   None \<Rightarrow> (Inl POverflow, m)
                 | Some candidate_end \<Rightarrow>
                    (case ext_end slot of
                       None \<Rightarrow> (Inl POverflow, m)
                     | Some slot_end \<Rightarrow>
                         if candidate_end > slot_end then (Inl OutOfMemory, m)
                         else (Inr candidate,
                           m\<lparr>pm_free := (if ext_size candidate = ext_size slot then vec_remove idx (pm_free m)
                                         else (pm_free m)[idx := mk_extent candidate_end (slot_end - candidate_end)]),
                             pm_allocated := btm_insert owner candidate (pm_allocated m)\<rparr>))))"

fun coalesce_into :: "extent list \<Rightarrow> extent list \<Rightarrow> extent list option" where
  "coalesce_into merged [] = Some merged"
| "coalesce_into merged (ext # rest) =
     (if merged = [] then coalesce_into [ext] rest
      else case ext_end (last merged) of
        None \<Rightarrow> None
      | Some last_end \<Rightarrow>
          if last_end = ext_base ext
          then (case checked_add (ext_size (last merged)) (ext_size ext) of
                  None \<Rightarrow> None
                | Some n \<Rightarrow> coalesce_into (butlast merged @ [mk_extent (ext_base (last merged)) n]) rest)
          else coalesce_into (merged @ [ext]) rest)"

definition insert_free_and_coalesce :: "placement_manager \<Rightarrow> extent \<Rightarrow> placement_manager option" where
  "insert_free_and_coalesce m ext =
     (case coalesce_into [] (sort_key ext_base (pm_free m @ [ext])) of
        None \<Rightarrow> None
      | Some merged \<Rightarrow> Some (m\<lparr>pm_free := merged\<rparr>))"

definition release_reservation :: "placement_manager \<Rightarrow> object_id
    \<Rightarrow> ((placement_error + extent) \<times> placement_manager) option" where
  "release_reservation m owner =
     (if owner \<in> pm_committed m then Some (Inl ComposedReleaseRequiresFabricCheck, m)
      else case btm_get (pm_allocated m) owner of
        None \<Rightarrow> Some (Inl UnknownOwner, m)
      | Some ext \<Rightarrow>
         (case insert_free_and_coalesce (m\<lparr>pm_allocated := btm_remove owner (pm_allocated m)\<rparr>) ext of
            None \<Rightarrow> None
          | Some m' \<Rightarrow> Some (Inr ext, m')))"

definition manager_bounded :: "nat \<Rightarrow> nat \<Rightarrow> extent \<Rightarrow> nat \<Rightarrow> placement_error + placement_manager" where
  "manager_bounded claim_elem extent_elem pool k =
     (case claims_new claim_elem extent_elem k pool of
        Inl e \<Rightarrow> Inl e
      | Inr (c, free) \<Rightarrow>
          Inr \<lparr>pm_pool = pool, pm_free = free, pm_allocated = [], pm_committed = {}, pm_bounded = Some c\<rparr>)"

definition manager_reservation_count :: "placement_manager \<Rightarrow> nat" where
  "manager_reservation_count m = (case pm_bounded m of None \<Rightarrow> 0 | Some c \<Rightarrow> claims_count c)"

definition manager_reservation_extent :: "placement_manager \<Rightarrow> reservation_key \<Rightarrow> extent option" where
  "manager_reservation_extent m key = Option.bind (pm_bounded m) (\<lambda>c. claims_extent c key)"

definition manager_prepare_heap_take :: "placement_manager \<Rightarrow> reservation_key \<Rightarrow> u64 \<Rightarrow> u64
    \<Rightarrow> placement_error + take_plan" where
  "manager_prepare_heap_take m key logical revision =
     (case pm_bounded m of None \<Rightarrow> Inl WrongMode | Some c \<Rightarrow> prepare_take c (pm_free m) key logical revision)"

definition manager_commit_heap_take :: "placement_manager \<Rightarrow> take_plan \<Rightarrow> placement_manager option" where
  "manager_commit_heap_take m plan =
     (case pm_bounded m of
        None \<Rightarrow> None
      | Some c \<Rightarrow> (case claims_take c (pm_free m) plan of
                     (c', free') \<Rightarrow> Some (m\<lparr>pm_bounded := Some c', pm_free := free'\<rparr>)))"

definition manager_prepare_heap_return :: "placement_manager \<Rightarrow> reservation_key \<Rightarrow> extent \<Rightarrow> u64
    \<Rightarrow> placement_error + return_plan" where
  "manager_prepare_heap_return m key ext revision =
     (case pm_bounded m of None \<Rightarrow> Inl WrongMode
      | Some c \<Rightarrow> prepare_return c (pm_free m) (pm_pool m) key ext revision)"

definition manager_commit_heap_return :: "placement_manager \<Rightarrow> return_plan \<Rightarrow> placement_manager option" where
  "manager_commit_heap_return m plan =
     (case pm_bounded m of
        None \<Rightarrow> None
      | Some c \<Rightarrow> (case give_back c (pm_free m) plan of
                     (c', free') \<Rightarrow> Some (m\<lparr>pm_bounded := Some c', pm_free := free'\<rparr>)))"

section \<open>The virtual layout\<close>

record virtual_arena =
  va_free :: "extent list"
  va_claims :: claims
  va_owner :: "u64 option"

record virtual_layout =
  vl_layout_start :: u64
  vl_next :: u64
  vl_limit :: u64
  vl_regions :: "extent list"
  vl_reusable :: "virtual_arena option"

definition after_image :: "u64 \<Rightarrow> u64 \<Rightarrow> u64 \<Rightarrow> placement_error + virtual_layout" where
  "after_image code_base code_size limit =
     (if code_size = 0 then Inl ZeroSize
      else case checked_add code_base code_size of
        None \<Rightarrow> Inl POverflow
      | Some image_end \<Rightarrow>
         (case page_ceil image_end of
            Inl e \<Rightarrow> Inl e
          | Inr layout_start \<Rightarrow>
              if \<not> is_page_aligned layout_start \<or> layout_start < image_end \<or> layout_start > limit
              then Inl InvalidVirtualLayout
              else Inr \<lparr>vl_layout_start = layout_start, vl_next = layout_start, vl_limit = limit,
                        vl_regions = [], vl_reusable = None\<rparr>))"

definition reserve :: "virtual_layout \<Rightarrow> u64 \<Rightarrow> (placement_error + extent) \<times> virtual_layout" where
  "reserve v requested_size =
     (if vl_reusable v \<noteq> None then (Inl WrongMode, v)
      else case page_ceil requested_size of
        Inl e \<Rightarrow> (Inl e, v)
      | Inr sz \<Rightarrow>
         (case checked_add (vl_next v) sz of
            None \<Rightarrow> (Inl POverflow, v)
          | Some end \<Rightarrow>
              if end > vl_limit v then (Inl OutOfMemory, v)
              else let ext = mk_extent (vl_next v) sz
                   in (Inr ext, v\<lparr>vl_next := end, vl_regions := vl_regions v @ [ext]\<rparr>)))"

definition virtual_minimum_reservation_bytes :: "nat \<Rightarrow> nat \<Rightarrow> extent \<Rightarrow> nat \<Rightarrow> placement_error + u64" where
  "virtual_minimum_reservation_bytes claim_elem extent_elem pool k =
     (if \<not> valid_extent pool then Inl InvalidPool else minimum_bytes claim_elem extent_elem k)"

definition reusable :: "nat \<Rightarrow> nat \<Rightarrow> extent \<Rightarrow> nat \<Rightarrow> (placement_error + virtual_layout) option" where
  "reusable claim_elem extent_elem pool k =
     (case virtual_minimum_reservation_bytes claim_elem extent_elem pool k of
        Inl e \<Rightarrow> Some (Inl e)
      | Inr _ \<Rightarrow>
         (case claims_new claim_elem extent_elem k pool of
            Inl e \<Rightarrow> Some (Inl e)
          | Inr (c, free) \<Rightarrow>
             (case ext_end pool of
                None \<Rightarrow> None
              | Some limit \<Rightarrow>
                  Some (Inr \<lparr>vl_layout_start = ext_base pool, vl_next = ext_base pool, vl_limit = limit,
                    vl_regions = [], vl_reusable = Some \<lparr>va_free = free, va_claims = c, va_owner = None\<rparr>\<rparr>))))"

definition window :: "virtual_layout \<Rightarrow> extent" where
  "window v = mk_extent (vl_layout_start v) (vl_limit v - vl_layout_start v)"

definition check_binding :: "virtual_layout \<Rightarrow> u64 option \<Rightarrow> placement_error + unit" where
  "check_binding v owner =
     (case vl_reusable v of
        None \<Rightarrow> Inl WrongMode
      | Some a \<Rightarrow>
          if va_owner a \<noteq> owner \<or> claims_count (va_claims a) \<noteq> 0 \<or> va_free a \<noteq> [window v]
          then Inl ReservationMismatch else Inr ())"

definition bind_owner :: "virtual_layout \<Rightarrow> u64 option \<Rightarrow> virtual_layout option" where
  "bind_owner v owner =
     (case vl_reusable v of None \<Rightarrow> None | Some a \<Rightarrow> Some (v\<lparr>vl_reusable := Some (a\<lparr>va_owner := owner\<rparr>)\<rparr>))"

definition virtual_reservation_extent :: "virtual_layout \<Rightarrow> reservation_key \<Rightarrow> extent option" where
  "virtual_reservation_extent v key =
     (case vl_reusable v of
        None \<Rightarrow> None
      | Some a \<Rightarrow> if va_owner a \<noteq> Some (rvk_owner key) then None else claims_extent (va_claims a) key)"

definition virtual_prepare_heap_take :: "virtual_layout \<Rightarrow> reservation_key \<Rightarrow> u64 \<Rightarrow> u64
    \<Rightarrow> placement_error + take_plan" where
  "virtual_prepare_heap_take v key logical revision =
     (case vl_reusable v of
        None \<Rightarrow> Inl WrongMode
      | Some a \<Rightarrow> if va_owner a \<noteq> Some (rvk_owner key) then Inl ReservationMismatch
                  else prepare_take (va_claims a) (va_free a) key logical revision)"

definition virtual_commit_heap_take :: "virtual_layout \<Rightarrow> take_plan \<Rightarrow> virtual_layout option" where
  "virtual_commit_heap_take v plan =
     (case vl_reusable v of
        None \<Rightarrow> None
      | Some a \<Rightarrow> (case claims_take (va_claims a) (va_free a) plan of
          (c', free') \<Rightarrow> Some (v\<lparr>vl_reusable := Some (a\<lparr>va_claims := c', va_free := free'\<rparr>)\<rparr>)))"

definition virtual_prepare_heap_return :: "virtual_layout \<Rightarrow> reservation_key \<Rightarrow> extent \<Rightarrow> u64
    \<Rightarrow> placement_error + return_plan" where
  "virtual_prepare_heap_return v key ext revision =
     (case vl_reusable v of
        None \<Rightarrow> Inl WrongMode
      | Some a \<Rightarrow> if va_owner a \<noteq> Some (rvk_owner key) then Inl ReservationMismatch
                  else prepare_return (va_claims a) (va_free a) (window v) key ext revision)"

definition virtual_commit_heap_return :: "virtual_layout \<Rightarrow> return_plan \<Rightarrow> virtual_layout option" where
  "virtual_commit_heap_return v plan =
     (case vl_reusable v of
        None \<Rightarrow> None
      | Some a \<Rightarrow> (case give_back (va_claims a) (va_free a) plan of
          (c', free') \<Rightarrow> Some (v\<lparr>vl_reusable := Some (a\<lparr>va_claims := c', va_free := free'\<rparr>)\<rparr>)))"

end
