(* ===== verification/Heap_Data.thy ===== *)
theory Heap_Data
  imports Placement_Managers
begin

text \<open>
  The data of the private heap ledger, \<open>src/src/anka64/scoped_pointers/heap.rs\<close> and the modules
  under it: owner accounts, reservations, the cleanup directory with its leases and scrub progress,
  cleanup workers, host-storage charges and the pair of placement managers.  The ledger is a field
  of the pointer registry, so its types come before the registry's.
\<close>

section \<open>Owners and reservations\<close>

record allocation_owner =
  ao_process :: process_key
  ao_context :: u64
  ao_domain :: domain_id

record owner_account =
  oa_index :: nat
  oa_serial :: u64

record heap_reservation =
  hv_slot :: nat
  hv_generation :: u32
  hv_job :: u64
  hv_owner :: owner_account

record account =
  acc_token :: owner_account
  acc_owner :: allocation_owner
  acc_closed :: bool
  acc_limit :: u64
  acc_reserved :: u64

record heap_extents =
  he_physical :: extent
  he_virtual :: extent

record heap_record =
  hr_owner :: owner_account
  hr_logical :: u64
  hr_rounded :: u64
  hr_cleanup :: nat
  hr_published :: bool
  hr_writable :: bool
  hr_ever_attached :: bool
  hr_extents :: "heap_extents option"

section \<open>Cleanup workers and leases\<close>

record cleanup_worker_identity =
  cwi_process :: process_key
  cwi_context :: u64
  cwi_domain :: domain_id

record cleanup_worker =
  cw_row :: u32
  cw_serial :: u64

datatype worker_state = WorkerActive | WorkerFenced

record worker_record =
  wr_handle :: cleanup_worker
  wr_identity :: cleanup_worker_identity
  wr_state :: worker_state

datatype job_lease = Unowned u64 | Held u64 cleanup_worker | Revoking u64 cleanup_worker

definition LEASE_EMPTY :: job_lease where
  "LEASE_EMPTY = Unowned 0"

fun lease_refers_to :: "job_lease \<Rightarrow> cleanup_worker \<Rightarrow> bool" where
  "lease_refers_to (Held epoch worker) handle = (worker = handle)"
| "lease_refers_to (Revoking epoch worker) handle = (worker = handle)"
| "lease_refers_to (Unowned epoch) handle = False"

record cleanup_lease =
  cls_reservation :: heap_reservation
  cls_worker :: cleanup_worker
  cls_epoch :: u64

datatype heap_scrub_progress = ScrubPending | Scrubbing u64 | ScrubClean

record cleanup_record =
  cr_reservation :: heap_reservation
  cr_queued :: bool
  cr_lease :: job_lease
  cr_version :: u64
  cr_sequence :: u64
  cr_progress :: heap_scrub_progress

section \<open>Host storage\<close>

record host_storage_reservation =
  hsv_row :: nat
  hsv_identity :: u64
  hsv_account :: owner_account

record host_storage_record =
  hsr_token :: host_storage_reservation
  hsr_logical :: u64
  hsr_rounded :: u64

section \<open>The ledger\<close>

record heap_placement =
  hp_physical :: placement_manager
  hp_virtual_arenas :: "virtual_layout list"

record heap_ledger =
  hl_accounts :: "account option list"
  hl_cleanup :: "cleanup_record option list"
  hl_workers :: "worker_record option list"
  hl_host_storage :: "host_storage_record option list"
  hl_next_worker :: u64
  hl_next_owner :: u64
  hl_next_job :: u64
  hl_revision :: u64
  hl_fixed_bytes :: u64
  hl_reserved_bytes :: u64
  hl_limit :: u64
  hl_placement :: "heap_placement option"

definition heap_ledger_advance :: "heap_ledger \<Rightarrow> heap_ledger" where
  "heap_ledger_advance h = h\<lparr>hl_revision := saturating_add (hl_revision h) 1\<rparr>"

lemma heap_ledger_advance_sel [simp]:
  "hl_accounts (heap_ledger_advance h) = hl_accounts h" "hl_cleanup (heap_ledger_advance h) = hl_cleanup h"
  "hl_workers (heap_ledger_advance h) = hl_workers h" "hl_host_storage (heap_ledger_advance h) = hl_host_storage h"
  "hl_next_worker (heap_ledger_advance h) = hl_next_worker h" "hl_next_owner (heap_ledger_advance h) = hl_next_owner h"
  "hl_next_job (heap_ledger_advance h) = hl_next_job h" "hl_fixed_bytes (heap_ledger_advance h) = hl_fixed_bytes h"
  "hl_reserved_bytes (heap_ledger_advance h) = hl_reserved_bytes h" "hl_limit (heap_ledger_advance h) = hl_limit h"
  "hl_placement (heap_ledger_advance h) = hl_placement h"
  by (simp_all add: heap_ledger_advance_def)

text \<open>
  The fixed tables are charged at \<open>size_of::<T>()\<close> bytes an element.  These sizes are the compiler's;
  they are an argument of the constructors.
\<close>

record type_sizes =
  ts_registry :: nat
  ts_slot :: nat
  ts_scope :: nat
  ts_account :: nat
  ts_cleanup :: nat
  ts_host_storage :: nat
  ts_worker :: nat
  ts_claim :: nat
  ts_extent :: nat
  ts_layout :: nat
  ts_placement_scratch :: nat

record registry_limits =
  rl_slots :: nat
  rl_scopes :: nat
  rl_owners :: nat
  rl_cleanup :: nat
  rl_global_bytes :: u64

end
