(* ===== verification/Scoped_Pointers.thy ===== *)
theory Scoped_Pointers
  imports Arch_State Heap_Data
begin

text \<open>
  The bounded registry of protected local pointers, \<open>src/src/anka64/scoped_pointers.rs\<close>: scopes
  entered and left in LIFO order per owner, generation-qualified slots, pointer arithmetic and
  span resolution.  Results are \<open>pointer_error + 'a\<close>; an operation that can panic in the source
  returns an \<open>option\<close> around its result, \<open>None\<close> being the panic.  Of the heap ledger that
  shares the registry only the revision counter is touched by this file; the heap records are
  data here.
\<close>

section \<open>Data\<close>

datatype pointer_error = PExhausted | PInvalidScope | PInvalidRange | PStale | PDomain | PRights
  | PBounds

datatype resource = GlobalBytes | OwnerBytes | Slots | Owners | Cleanup | Workers | WorkTickets
  | BackendRequests | HostStorage | Identity

datatype heap_error = HConfiguration | HHostAllocation | HCapacity resource | HSize | HOwner | HClosed
  | HStaleReservation | HStaleRevision | HStaleInitialization | HPointer pointer_error | HMissingKind
  | HInvalidFree | HBusy | HWorker | HLease | HStaleWork | HWorkState | HStaleCleanup
  | HPhysicalPlacement placement_error | HVirtualPlacement placement_error

datatype scope = Scope u64

primrec scope_raw :: "scope \<Rightarrow> u64" where
  "scope_raw (Scope n) = n"

record scoped_pointer =
  sp_slot :: nat
  sp_generation :: u32
  sp_position :: u64

definition sp_words :: "scoped_pointer \<Rightarrow> u64 \<times> u64" where
  "sp_words p = (push_bit 32 (ucast (sp_generation p)) OR (of_nat (sp_slot p) + 1), sp_position p)"

record pointer_backing =
  pb_object :: object_id
  pb_generation :: generation
  pb_offset :: u64

record local_allocation =
  la_scope :: scope
  la_domain :: u64
  la_base :: u64
  la_length :: u64
  la_writable :: bool
  la_backing :: "pointer_backing option"

datatype slot_state = SFree | SReserved | SLive | SClosing | SExhausted | SRetired

datatype slot_record = REmpty | RLocal local_allocation | RHeap heap_record

record pslot =
  ps_generation :: u32
  ps_state :: slot_state
  ps_record :: slot_record

definition SLOT_EMPTY :: pslot where
  "SLOT_EMPTY = \<lparr>ps_generation = 0, ps_state = SFree, ps_record = REmpty\<rparr>"

definition slot_release :: "pslot \<Rightarrow> pslot" where
  "slot_release s = s\<lparr>ps_state := if ps_generation s = u32_max then SExhausted else SFree\<rparr>"

record local_frame_backing =
  lf_backing :: pointer_backing
  lf_length :: u64

record scope_record =
  sr_scope :: scope
  sr_owner :: u64
  sr_frame :: "local_frame_backing option"

record scoped_pointers =
  sps_slots :: "pslot list"
  sps_scopes :: "scope_record option list"
  sps_active_slots_end :: nat
  sps_active_scopes_end :: nat
  sps_next_scope :: u64
  sps_heap :: heap_ledger

section \<open>Operations\<close>

text \<open>
  \<open>with_limits\<close> of the heap ledger builds the registry; \<open>try_reserve_exact\<close> is taken to succeed with
  exactly the requested capacity, so the footprint before and after the allocation agree.
\<close>

definition table_bytes :: "nat \<Rightarrow> nat \<Rightarrow> heap_error + u64" where
  "table_bytes elem count =
     (if count * elem < 2 ^ 64 then Inr (of_nat (count * elem)) else Inl HConfiguration)"

fun checked_sum :: "u64 \<Rightarrow> (heap_error + u64) list \<Rightarrow> heap_error + u64" where
  "checked_sum acc [] = Inr acc"
| "checked_sum acc (Inl e # rest) = Inl e"
| "checked_sum acc (Inr n # rest) =
     (case checked_add acc n of None \<Rightarrow> Inl HConfiguration | Some s \<Rightarrow> checked_sum s rest)"

definition registry_footprint :: "type_sizes \<Rightarrow> registry_limits \<Rightarrow> heap_error + u64" where
  "registry_footprint sz l =
     checked_sum 0 [table_bytes (ts_registry sz) 1, table_bytes (ts_slot sz) (rl_slots l),
       table_bytes (ts_scope sz) (rl_scopes l), table_bytes (ts_account sz) (rl_owners l),
       table_bytes (ts_cleanup sz) (rl_cleanup l), table_bytes (ts_host_storage sz) (rl_cleanup l)]"

definition empty_registry :: "registry_limits \<Rightarrow> u64 \<Rightarrow> scoped_pointers" where
  "empty_registry l fixed_bytes =
     \<lparr>sps_slots = replicate (rl_slots l) SLOT_EMPTY, sps_scopes = replicate (rl_scopes l) None,
      sps_active_slots_end = 0, sps_active_scopes_end = 0, sps_next_scope = 1,
      sps_heap =
        \<lparr>hl_accounts = replicate (rl_owners l) None, hl_cleanup = replicate (rl_cleanup l) None,
         hl_workers = [], hl_host_storage = replicate (rl_cleanup l) None,
         hl_next_worker = 1, hl_next_owner = 1, hl_next_job = 1, hl_revision = 0,
         hl_fixed_bytes = fixed_bytes, hl_reserved_bytes = 0, hl_limit = rl_global_bytes l,
         hl_placement = None\<rparr>\<rparr>"

definition with_limits :: "type_sizes \<Rightarrow> registry_limits \<Rightarrow> heap_error + scoped_pointers" where
  "with_limits sz l =
     (if rl_slots l > unat u32_max \<or> rl_cleanup l > unat u32_max then Inl HConfiguration
      else case registry_footprint sz l of
        Inl e \<Rightarrow> Inl e
      | Inr fixed_bytes \<Rightarrow>
          if fixed_bytes > rl_global_bytes l then Inl (HCapacity GlobalBytes)
          else Inr (empty_registry l fixed_bytes))"

definition local_limits :: "nat \<Rightarrow> registry_limits" where
  "local_limits capacity =
     (let c = min capacity (unat u32_max) in
      \<lparr>rl_slots = c, rl_scopes = c, rl_owners = 0, rl_cleanup = 0, rl_global_bytes = u64_max\<rparr>)"

text \<open>\<open>None\<close> is the failed \<open>expect\<close>.\<close>

definition scoped_pointers_new :: "type_sizes \<Rightarrow> nat \<Rightarrow> scoped_pointers option" where
  "scoped_pointers_new sz capacity =
     (case with_limits sz (local_limits capacity) of Inl _ \<Rightarrow> None | Inr sp \<Rightarrow> Some sp)"

definition slot_is_free :: "pslot \<Rightarrow> bool" where
  "slot_is_free s \<longleftrightarrow> ps_state s = SFree \<and> ps_generation s < u32_max"

definition free_slot :: "scoped_pointers \<Rightarrow> nat option" where
  "free_slot sp = position slot_is_free (sps_slots sp)"

definition preflight_frame :: "scoped_pointers \<Rightarrow> nat \<Rightarrow> pointer_error + unit" where
  "preflight_frame sp locals =
     (if sps_next_scope sp = u64_max
       \<or> \<not> list_ex (\<lambda>s. s = None) (sps_scopes sp)
       \<or> length (take locals (filter slot_is_free (sps_slots sp))) < locals
       \<or> 2 ^ 64 \<le> unat (hl_revision (sps_heap sp)) + (locals + 1)
      then Inl PExhausted else Inr ())"

definition enter_scope_for :: "scoped_pointers \<Rightarrow> u64
    \<Rightarrow> ((pointer_error + scope) \<times> scoped_pointers) option" where
  "enter_scope_for sp owner =
     (case preflight_frame sp 0 of
        Inl e \<Rightarrow> Some (Inl e, sp)
      | Inr _ \<Rightarrow>
         (case position (\<lambda>s. s = None) (sps_scopes sp) of
            None \<Rightarrow> None
          | Some index \<Rightarrow>
              let scope = Scope (sps_next_scope sp) in
              Some (Inr scope,
                sp\<lparr>sps_next_scope := sps_next_scope sp + 1,
                   sps_scopes := (sps_scopes sp)[index :=
                     Some \<lparr>sr_scope = scope, sr_owner = owner, sr_frame = None\<rparr>],
                   sps_active_scopes_end := max (sps_active_scopes_end sp) (index + 1),
                   sps_heap := heap_ledger_advance (sps_heap sp)\<rparr>)))"

definition enter_scope :: "scoped_pointers \<Rightarrow> ((pointer_error + scope) \<times> scoped_pointers) option" where
  "enter_scope sp = enter_scope_for sp 0"

definition scope_is :: "scope \<Rightarrow> scope_record option \<Rightarrow> bool" where
  "scope_is scope s = (case s of None \<Rightarrow> False | Some r \<Rightarrow> sr_scope r = scope)"

definition bind_frame :: "scoped_pointers \<Rightarrow> scope \<Rightarrow> local_frame_backing \<Rightarrow> scoped_pointers option" where
  "bind_frame sp scope frame =
     (case position (scope_is scope) (sps_scopes sp) of
        None \<Rightarrow> None
      | Some i \<Rightarrow>
         (case sps_scopes sp ! i of
            None \<Rightarrow> None
          | Some r \<Rightarrow>
              if sr_frame r \<noteq> None then None
              else Some (sp\<lparr>sps_scopes := (sps_scopes sp)[i := Some (r\<lparr>sr_frame := Some frame\<rparr>)]\<rparr>)))"

definition active_scopes :: "scoped_pointers \<Rightarrow> scope_record list" where
  "active_scopes sp = List.map_filter id (take (sps_active_scopes_end sp) (sps_scopes sp))"

definition live_frame_backings :: "scoped_pointers \<Rightarrow> local_frame_backing list" where
  "live_frame_backings sp = List.map_filter sr_frame (active_scopes sp)"

definition live_local_backing :: "pslot \<Rightarrow> local_frame_backing option" where
  "live_local_backing s =
     (if ps_state s \<noteq> SLive then None
      else case ps_record s of
             RLocal a \<Rightarrow> map_option (\<lambda>b. \<lparr>lf_backing = b, lf_length = la_length a\<rparr>) (la_backing a)
           | _ \<Rightarrow> None)"

definition live_local_backings :: "scoped_pointers \<Rightarrow> local_frame_backing list" where
  "live_local_backings sp = List.map_filter live_local_backing (take (sps_active_slots_end sp) (sps_slots sp))"

definition scope_owner :: "scoped_pointers \<Rightarrow> scope \<Rightarrow> u64 option" where
  "scope_owner sp scope = map_option sr_owner (find (\<lambda>s. sr_scope s = scope) (active_scopes sp))"

definition is_top :: "scoped_pointers \<Rightarrow> scope \<Rightarrow> bool" where
  "is_top sp scope =
     (case scope_owner sp scope of
        None \<Rightarrow> False
      | Some owner \<Rightarrow>
          \<not> list_ex (\<lambda>s. sr_owner s = owner \<and> scope_raw (sr_scope s) > scope_raw scope) (active_scopes sp))"

definition register :: "scoped_pointers \<Rightarrow> scope \<Rightarrow> u64 \<Rightarrow> u64 \<Rightarrow> u64 \<Rightarrow> bool
    \<Rightarrow> (pointer_error + scoped_pointer) \<times> scoped_pointers" where
  "register sp scope domain base ln writable =
     (if \<not> is_top sp scope then (Inl PInvalidScope, sp)
      else case checked_add base ln of
        None \<Rightarrow> (Inl PInvalidRange, sp)
      | Some _ \<Rightarrow>
          if hl_revision (sps_heap sp) = u64_max then (Inl PExhausted, sp)
          else case free_slot sp of
            None \<Rightarrow> (Inl PExhausted, sp)
          | Some slot \<Rightarrow>
              let generation = ps_generation (sps_slots sp ! slot) + 1 in
              (Inr \<lparr>sp_slot = slot, sp_generation = generation, sp_position = 0\<rparr>,
               sp\<lparr>sps_slots := (sps_slots sp)[slot :=
                    \<lparr>ps_generation = generation, ps_state = SLive,
                     ps_record = RLocal \<lparr>la_scope = scope, la_domain = domain, la_base = base,
                       la_length = ln, la_writable = writable, la_backing = None\<rparr>\<rparr>],
                  sps_active_slots_end := max (sps_active_slots_end sp) (slot + 1),
                  sps_heap := heap_ledger_advance (sps_heap sp)\<rparr>))"

definition slot_at :: "scoped_pointers \<Rightarrow> scoped_pointer \<Rightarrow> pslot option" where
  "slot_at sp p = (if sp_slot p < length (sps_slots sp) then Some (sps_slots sp ! sp_slot p) else None)"

definition allocation :: "scoped_pointers \<Rightarrow> scoped_pointer \<Rightarrow> u64 \<Rightarrow> pointer_error + local_allocation" where
  "allocation sp p domain =
     (case slot_at sp p of
        None \<Rightarrow> Inl PStale
      | Some s \<Rightarrow>
          if ps_state s \<noteq> SLive \<or> ps_generation s \<noteq> sp_generation p then Inl PStale
          else case ps_record s of
                 RLocal a \<Rightarrow> if la_domain a \<noteq> domain then Inl PDomain else Inr a
               | _ \<Rightarrow> Inl PStale)"

text \<open>\<open>add\<close> takes a signed displacement.\<close>

definition pointer_add :: "scoped_pointers \<Rightarrow> scoped_pointer \<Rightarrow> u64 \<Rightarrow> int \<Rightarrow> pointer_error + scoped_pointer" where
  "pointer_add sp p domain delta =
     (case allocation sp p domain of
        Inl e \<Rightarrow> Inl e
      | Inr a \<Rightarrow>
         (case checked_add_signed (sp_position p) delta of
            None \<Rightarrow> Inl PBounds
          | Some pos \<Rightarrow> if pos > la_length a then Inl PBounds else Inr (p\<lparr>sp_position := pos\<rparr>)))"

definition pointer_resolve :: "scoped_pointers \<Rightarrow> scoped_pointer \<Rightarrow> u64 \<Rightarrow> u64 \<Rightarrow> bool \<Rightarrow> pointer_error + u64" where
  "pointer_resolve sp p domain width write =
     (case allocation sp p domain of
        Inl e \<Rightarrow> Inl e
      | Inr a \<Rightarrow>
          if write \<and> \<not> la_writable a then Inl PRights
          else case checked_add (sp_position p) width of
                 None \<Rightarrow> Inl PBounds
               | Some end \<Rightarrow>
                   if width = 0 \<or> end > la_length a then Inl PBounds
                   else case checked_add (la_base a) (sp_position p) of
                          None \<Rightarrow> Inl PBounds
                        | Some at \<Rightarrow> Inr at)"

definition read_span :: "scoped_pointers \<Rightarrow> scoped_pointer \<Rightarrow> u64 \<Rightarrow> u64 \<Rightarrow> u64 \<Rightarrow> pointer_error + u64" where
  "read_span sp p domain owner ln =
     (case allocation sp p domain of
        Inl e \<Rightarrow> Inl e
      | Inr a \<Rightarrow>
          if scope_owner sp (la_scope a) \<noteq> Some owner then Inl PInvalidScope
          else if sp_position p > la_length a \<or> ln > la_length a - sp_position p then Inl PBounds
          else case checked_add (la_base a) (sp_position p) of
                 None \<Rightarrow> Inl PBounds
               | Some at \<Rightarrow> Inr at)"

definition write_span :: "scoped_pointers \<Rightarrow> scoped_pointer \<Rightarrow> u64 \<Rightarrow> u64 \<Rightarrow> u64 \<Rightarrow> pointer_error + u64" where
  "write_span sp p domain owner ln =
     (case read_span sp p domain owner ln of
        Inl e \<Rightarrow> Inl e
      | Inr address \<Rightarrow>
         (case allocation sp p domain of
            Inl e \<Rightarrow> Inl e
          | Inr a \<Rightarrow> if \<not> la_writable a then Inl PRights else Inr address))"

definition storage_span :: "scoped_pointers \<Rightarrow> scoped_pointer \<Rightarrow> (u64 \<times> u64) option" where
  "storage_span sp p =
     (case slot_at sp p of
        None \<Rightarrow> None
      | Some s \<Rightarrow>
          if ps_generation s \<noteq> sp_generation p then None
          else case ps_record s of RLocal a \<Rightarrow> Some (la_base a, la_length a) | _ \<Rightarrow> None)"

definition bind_backing :: "scoped_pointers \<Rightarrow> scoped_pointer \<Rightarrow> pointer_backing \<Rightarrow> scoped_pointers option" where
  "bind_backing sp p backing =
     (case slot_at sp p of
        None \<Rightarrow> None
      | Some s \<Rightarrow>
          if ps_generation s \<noteq> sp_generation p \<or> ps_state s \<noteq> SLive then None
          else case ps_record s of
                 RLocal a \<Rightarrow>
                   if la_backing a \<noteq> None then None
                   else Some (sp\<lparr>sps_slots := (sps_slots sp)[sp_slot p :=
                          s\<lparr>ps_record := RLocal (a\<lparr>la_backing := Some backing\<rparr>)\<rparr>]\<rparr>)
               | _ \<Rightarrow> None)"

definition pointer_backing_of :: "scoped_pointers \<Rightarrow> scoped_pointer \<Rightarrow> pointer_backing option" where
  "pointer_backing_of sp p =
     (case slot_at sp p of
        None \<Rightarrow> None
      | Some s \<Rightarrow>
          if ps_generation s \<noteq> sp_generation p then None
          else case ps_record s of RLocal a \<Rightarrow> la_backing a | _ \<Rightarrow> None)"

definition take_backing :: "scoped_pointers \<Rightarrow> scoped_pointer \<Rightarrow> pointer_backing option \<times> scoped_pointers" where
  "take_backing sp p =
     (case slot_at sp p of
        None \<Rightarrow> (None, sp)
      | Some s \<Rightarrow>
          if ps_generation s \<noteq> sp_generation p \<or> ps_state s = SLive then (None, sp)
          else case ps_record s of
                 RLocal a \<Rightarrow> (la_backing a, sp\<lparr>sps_slots := (sps_slots sp)[sp_slot p :=
                                s\<lparr>ps_record := RLocal (a\<lparr>la_backing := None\<rparr>)\<rparr>]\<rparr>)
               | _ \<Rightarrow> (None, sp))"

fun trim_end :: "('a \<Rightarrow> bool) \<Rightarrow> 'a list \<Rightarrow> nat \<Rightarrow> nat" where
  "trim_end P xs 0 = 0"
| "trim_end P xs (Suc n) = (if P (xs ! n) then trim_end P xs n else Suc n)"

definition slot_trimmable :: "pslot \<Rightarrow> bool" where
  "slot_trimmable s \<longleftrightarrow> ps_state s = SFree \<or> ps_state s = SExhausted"

definition trim_active_slots :: "scoped_pointers \<Rightarrow> scoped_pointers" where
  "trim_active_slots sp =
     sp\<lparr>sps_active_slots_end := trim_end slot_trimmable (sps_slots sp) (sps_active_slots_end sp)\<rparr>"

definition release_in_scope :: "scope \<Rightarrow> pslot \<Rightarrow> pslot" where
  "release_in_scope scope s =
     (case ps_record s of
        RLocal a \<Rightarrow> if la_scope a = scope then slot_release s else s
      | _ \<Rightarrow> s)"

definition leave_scope :: "scoped_pointers \<Rightarrow> scope \<Rightarrow> ((pointer_error + unit) \<times> scoped_pointers) option" where
  "leave_scope sp scope =
     (if \<not> is_top sp scope then Some (Inl PInvalidScope, sp)
      else
        let n = sps_active_slots_end sp;
            slots = map (release_in_scope scope) (take n (sps_slots sp)) @ drop n (sps_slots sp)
        in case position (scope_is scope) (sps_scopes sp) of
             None \<Rightarrow> None
           | Some index \<Rightarrow>
               let scopes = (sps_scopes sp)[index := None];
                   sp' = trim_active_slots (sp\<lparr>sps_slots := slots, sps_scopes := scopes,
                     sps_active_scopes_end := trim_end (\<lambda>s. s = None) scopes (sps_active_scopes_end sp)\<rparr>)
               in Some (Inr (), sp'\<lparr>sps_heap := heap_ledger_advance (sps_heap sp')\<rparr>))"

section \<open>Invariant\<close>

lemma trim_end_le: "trim_end P xs n \<le> n"
  by (induction n) auto

lemma trim_end_trimmed: "trim_end P xs n \<le> i \<Longrightarrow> i < n \<Longrightarrow> P (xs ! i)"
  by (induction n) (auto simp: less_Suc_eq split: if_splits)

definition sp_wf :: "scoped_pointers \<Rightarrow> bool" where
  "sp_wf sp \<longleftrightarrow>
     sps_active_slots_end sp \<le> length (sps_slots sp)
     \<and> sps_active_scopes_end sp \<le> length (sps_scopes sp)
     \<and> (\<forall>i. sps_active_slots_end sp \<le> i \<and> i < length (sps_slots sp) \<longrightarrow> slot_trimmable (sps_slots sp ! i))
     \<and> (\<forall>i. sps_active_scopes_end sp \<le> i \<and> i < length (sps_scopes sp) \<longrightarrow> sps_scopes sp ! i = None)
     \<and> (\<forall>r. Some r \<in> set (sps_scopes sp) \<longrightarrow> scope_raw (sr_scope r) < sps_next_scope sp)"

lemma set_map_filter_id: "set (List.map_filter id xs) = {x. Some x \<in> set xs}"
  by (force simp: List.map_filter_def)

lemma set_active_scopes:
  assumes "sp_wf sp"
  shows "set (active_scopes sp) = {r. Some r \<in> set (sps_scopes sp)}"
proof -
  let ?n = "sps_active_scopes_end sp"
  have "Some r \<notin> set (drop ?n (sps_scopes sp))" for r
  proof
    assume "Some r \<in> set (drop ?n (sps_scopes sp))"
    then obtain i where "i < length (sps_scopes sp) - ?n" "sps_scopes sp ! (?n + i) = Some r"
      by (auto simp: in_set_conv_nth)
    then show False using assms by (auto simp: sp_wf_def)
  qed
  moreover have "set (sps_scopes sp) = set (take ?n (sps_scopes sp)) \<union> set (drop ?n (sps_scopes sp))"
    by (metis append_take_drop_id set_append)
  ultimately show ?thesis by (auto simp: active_scopes_def set_map_filter_id)
qed

lemma with_limits_Inr: "with_limits sz l = Inr sp \<Longrightarrow> \<exists>fixed. sp = empty_registry l fixed"
  by (auto simp: with_limits_def split: sum.splits if_splits)

lemma sp_wf_new: "sp_wf (empty_registry l fixed)"
  by (auto simp: sp_wf_def empty_registry_def slot_trimmable_def SLOT_EMPTY_def)

lemma enter_scope_for_Inr:
  assumes "enter_scope_for sp owner = Some (Inr scope, sp')"
  obtains i where "i < length (sps_scopes sp)" "sps_scopes sp ! i = None" "scope = Scope (sps_next_scope sp)"
    "sps_next_scope sp \<noteq> u64_max"
    "sp' = sp\<lparr>sps_next_scope := sps_next_scope sp + 1,
           sps_scopes := (sps_scopes sp)[i := Some \<lparr>sr_scope = scope, sr_owner = owner, sr_frame = None\<rparr>],
           sps_active_scopes_end := max (sps_active_scopes_end sp) (i + 1),
           sps_heap := heap_ledger_advance (sps_heap sp)\<rparr>"
  using assms position_SomeD[of "\<lambda>s. s = None" "sps_scopes sp"]
  by (auto simp: enter_scope_for_def preflight_frame_def Let_def split: sum.splits option.splits if_splits)

lemma enter_scope_for_Inl: "enter_scope_for sp owner = Some (Inl e, sp') \<Longrightarrow> sp' = sp"
  by (auto simp: enter_scope_for_def Let_def split: sum.splits option.splits)

lemma word_less_succ: "(x::u64) < y \<Longrightarrow> y \<noteq> u64_max \<Longrightarrow> x < y + 1"
  by (simp add: word_less_nat_alt unat_succ_u64)

lemma sp_wf_enter:
  assumes "enter_scope_for sp owner = Some (r, sp')" "sp_wf sp"
  shows "sp_wf sp'"
proof (cases r)
  case (Inl e)
  then show ?thesis using assms enter_scope_for_Inl by metis
next
  case (Inr scope)
  with assms(1) have "enter_scope_for sp owner = Some (Inr scope, sp')" by simp
  then obtain i where i: "i < length (sps_scopes sp)" "scope = Scope (sps_next_scope sp)"
    "sps_next_scope sp \<noteq> u64_max"
    "sp' = sp\<lparr>sps_next_scope := sps_next_scope sp + 1,
           sps_scopes := (sps_scopes sp)[i := Some \<lparr>sr_scope = scope, sr_owner = owner, sr_frame = None\<rparr>],
           sps_active_scopes_end := max (sps_active_scopes_end sp) (i + 1),
           sps_heap := heap_ledger_advance (sps_heap sp)\<rparr>" by (rule enter_scope_for_Inr)
  have "sps_next_scope sp < sps_next_scope sp + 1"
    using i(3) by (simp add: word_less_nat_alt unat_succ_u64)
  with i assms(2) show ?thesis
    by (auto simp: sp_wf_def nth_upd word_less_succ dest!: set_update_subset_insert[THEN subsetD])
qed

lemma register_Inr:
  assumes "register sp scope domain base ln writable = (Inr p, sp')"
  obtains i where "i < length (sps_slots sp)" "slot_is_free (sps_slots sp ! i)" "is_top sp scope"
    "p = \<lparr>sp_slot = i, sp_generation = ps_generation (sps_slots sp ! i) + 1, sp_position = 0\<rparr>"
    "ps_generation (sps_slots sp ! i) \<noteq> u32_max"
    "sp' = sp\<lparr>sps_slots := (sps_slots sp)[i :=
              \<lparr>ps_generation = ps_generation (sps_slots sp ! i) + 1, ps_state = SLive,
               ps_record = RLocal \<lparr>la_scope = scope, la_domain = domain, la_base = base,
                 la_length = ln, la_writable = writable, la_backing = None\<rparr>\<rparr>],
            sps_active_slots_end := max (sps_active_slots_end sp) (i + 1),
            sps_heap := heap_ledger_advance (sps_heap sp)\<rparr>"
proof -
  from assms obtain i where i: "free_slot sp = Some i" and r: "is_top sp scope"
    "p = \<lparr>sp_slot = i, sp_generation = ps_generation (sps_slots sp ! i) + 1, sp_position = 0\<rparr>"
    "sp' = sp\<lparr>sps_slots := (sps_slots sp)[i :=
              \<lparr>ps_generation = ps_generation (sps_slots sp ! i) + 1, ps_state = SLive,
               ps_record = RLocal \<lparr>la_scope = scope, la_domain = domain, la_base = base,
                 la_length = ln, la_writable = writable, la_backing = None\<rparr>\<rparr>],
            sps_active_slots_end := max (sps_active_slots_end sp) (i + 1),
            sps_heap := heap_ledger_advance (sps_heap sp)\<rparr>"
    by (auto simp: register_def Let_def split: if_splits option.splits)
  from position_SomeD[OF i[unfolded free_slot_def]] have f: "i < length (sps_slots sp)"
    "slot_is_free (sps_slots sp ! i)" by auto
  then have "ps_generation (sps_slots sp ! i) \<noteq> u32_max" by (auto simp: slot_is_free_def)
  with f r show ?thesis by (rule_tac that)
qed

lemma register_Inl: "register sp scope domain base ln writable = (Inl e, sp') \<Longrightarrow> sp' = sp"
  by (auto simp: register_def Let_def split: if_splits option.splits)

lemma sp_wf_register:
  assumes "register sp scope domain base ln writable = (r, sp')" "sp_wf sp"
  shows "sp_wf sp'"
proof (cases r)
  case (Inl e)
  then show ?thesis using assms register_Inl by metis
next
  case (Inr p)
  with assms(1) show ?thesis
    by (auto elim!: register_Inr) (use assms(2) in \<open>auto simp: sp_wf_def nth_upd\<close>)
qed

lemma sp_wf_bind_frame: "bind_frame sp scope fr = Some sp' \<Longrightarrow> sp_wf sp \<Longrightarrow> sp_wf sp'"
proof -
  assume b: "bind_frame sp scope fr = Some sp'" and wf: "sp_wf sp"
  from b obtain i r where i: "position (scope_is scope) (sps_scopes sp) = Some i"
    "sps_scopes sp ! i = Some r"
    "sp' = sp\<lparr>sps_scopes := (sps_scopes sp)[i := Some (r\<lparr>sr_frame := Some fr\<rparr>)]\<rparr>"
    by (auto simp: bind_frame_def split: option.splits if_splits)
  have "i < length (sps_scopes sp)" using position_SomeD[OF i(1)] by simp
  with i(2) have "Some r \<in> set (sps_scopes sp)" by (metis nth_mem)
  with wf i show ?thesis
    by (auto simp: sp_wf_def nth_upd dest!: set_update_subset_insert[THEN subsetD])
qed

lemma slot_trimmable_record [simp]: "slot_trimmable (s\<lparr>ps_record := r\<rparr>) = slot_trimmable s"
  by (simp add: slot_trimmable_def)

lemma sp_wf_set_record:
  "sp_wf sp \<Longrightarrow> s = sps_slots sp ! i \<Longrightarrow> sp_wf (sp\<lparr>sps_slots := (sps_slots sp)[i := s\<lparr>ps_record := r\<rparr>]\<rparr>)"
  by (auto simp: sp_wf_def nth_upd)

lemma sp_wf_bind_backing: "bind_backing sp p b = Some sp' \<Longrightarrow> sp_wf sp \<Longrightarrow> sp_wf sp'"
  by (auto simp: bind_backing_def slot_at_def intro!: sp_wf_set_record
      split: option.splits if_splits slot_record.splits)

lemma sp_wf_take_backing: "take_backing sp p = (r, sp') \<Longrightarrow> sp_wf sp \<Longrightarrow> sp_wf sp'"
  by (auto simp: take_backing_def slot_at_def intro!: sp_wf_set_record
      split: option.splits if_splits slot_record.splits)

lemma slot_trimmable_release: "slot_trimmable (slot_release s)"
  by (simp add: slot_trimmable_def slot_release_def)

lemma leave_scope_Inr:
  assumes "leave_scope sp scope = Some (Inr u, sp')"
  obtains i where "is_top sp scope" "i < length (sps_scopes sp)" "scope_is scope (sps_scopes sp ! i)"
    "sps_slots sp' = map (release_in_scope scope) (take (sps_active_slots_end sp) (sps_slots sp))
                     @ drop (sps_active_slots_end sp) (sps_slots sp)"
    "sps_scopes sp' = (sps_scopes sp)[i := None]"
    "sps_active_scopes_end sp' = trim_end (\<lambda>s. s = None) (sps_scopes sp') (sps_active_scopes_end sp)"
    "sps_active_slots_end sp' = trim_end slot_trimmable (sps_slots sp') (sps_active_slots_end sp)"
    "sps_next_scope sp' = sps_next_scope sp" "sps_heap sp' = heap_ledger_advance (sps_heap sp)"
  using assms position_SomeD[of "scope_is scope" "sps_scopes sp"]
  by (auto simp: leave_scope_def trim_active_slots_def Let_def split: if_splits option.splits)

lemma leave_scope_Inl: "leave_scope sp scope = Some (Inl e, sp') \<Longrightarrow> sp' = sp"
  by (auto simp: leave_scope_def Let_def split: if_splits option.splits)

lemma sp_wf_leave:
  assumes "leave_scope sp scope = Some (r, sp')" "sp_wf sp"
  shows "sp_wf sp'"
proof (cases r)
  case (Inl e)
  then show ?thesis using assms leave_scope_Inl by metis
next
  case (Inr u)
  with assms(1) have "leave_scope sp scope = Some (Inr u, sp')" by simp
  then obtain i where l: "i < length (sps_scopes sp)"
    "sps_slots sp' = map (release_in_scope scope) (take (sps_active_slots_end sp) (sps_slots sp))
                     @ drop (sps_active_slots_end sp) (sps_slots sp)"
    "sps_scopes sp' = (sps_scopes sp)[i := None]"
    "sps_active_scopes_end sp' = trim_end (\<lambda>s. s = None) (sps_scopes sp') (sps_active_scopes_end sp)"
    "sps_active_slots_end sp' = trim_end slot_trimmable (sps_slots sp') (sps_active_slots_end sp)"
    "sps_next_scope sp' = sps_next_scope sp" by (rule leave_scope_Inr)
  have ends: "sps_active_slots_end sp' \<le> sps_active_slots_end sp"
    "sps_active_scopes_end sp' \<le> sps_active_scopes_end sp" by (simp_all add: l(4,5) trim_end_le)
  have len: "length (sps_slots sp') = length (sps_slots sp)" using assms(2) by (simp add: l(2) sp_wf_def)
  have tail: "slot_trimmable (sps_slots sp' ! k)"
    if "sps_active_slots_end sp' \<le> k" "k < length (sps_slots sp)" for k
  proof (cases "k < sps_active_slots_end sp")
    case True
    then show ?thesis using that(1) trim_end_trimmed[of slot_trimmable] by (simp add: l(5))
  next
    case False
    then show ?thesis using that(2) assms(2) by (auto simp: l(2) sp_wf_def nth_append)
  qed
  have stail: "sps_scopes sp' ! k = None"
    if "sps_active_scopes_end sp' \<le> k" "k < length (sps_scopes sp)" for k
  proof (cases "k < sps_active_scopes_end sp")
    case True
    then show ?thesis
      using that(1) trim_end_trimmed[of "\<lambda>s. s = None" "sps_scopes sp'"] by (simp add: l(4))
  next
    case False
    then show ?thesis using that(2) assms(2) by (auto simp: l(3) sp_wf_def nth_upd)
  qed
  have "set (sps_scopes sp') \<subseteq> insert None (set (sps_scopes sp))"
    unfolding l(3) by (rule set_update_subset_insert)
  then show ?thesis
    using assms(2) ends len tail stail by (auto simp: sp_wf_def l(3,6))
qed

section \<open>Steps of the registry and the lifetime of a pointer\<close>

inductive sp_step :: "scoped_pointers \<Rightarrow> scoped_pointers \<Rightarrow> bool" where
  sp_enter: "enter_scope_for sp owner = Some (r, sp') \<Longrightarrow> sp_step sp sp'"
| sp_bind_frame: "bind_frame sp scope fr = Some sp' \<Longrightarrow> sp_step sp sp'"
| sp_register: "register sp scope domain base ln writable = (rp, sp') \<Longrightarrow> sp_step sp sp'"
| sp_bind_backing: "bind_backing sp p b = Some sp' \<Longrightarrow> sp_step sp sp'"
| sp_take_backing: "take_backing sp p = (rb, sp') \<Longrightarrow> sp_step sp sp'"
| sp_leave: "leave_scope sp scope = Some (ru, sp') \<Longrightarrow> sp_step sp sp'"

interpretation sp_sys: step_system "\<lambda>sp. with_limits sz l = Inr sp" sp_step sp_wf for sz l
proof
  show "sp_wf sp" if "with_limits sz l = Inr sp" for sp using with_limits_Inr[OF that] sp_wf_new by blast
  show "sp_wf sp'" if "sp_step sp sp'" "sp_wf sp" for sp sp'
    using that by (cases rule: sp_step.cases)
      (auto intro: sp_wf_enter sp_wf_bind_frame sp_wf_register sp_wf_bind_backing sp_wf_take_backing sp_wf_leave)
qed

definition slot_after :: "pslot \<Rightarrow> pslot \<Rightarrow> bool" where
  "slot_after s s' \<longleftrightarrow>
     unat (ps_generation s) < unat (ps_generation s')
     \<or> ps_generation s' = ps_generation s
       \<and> (ps_state s' = ps_state s \<or> slot_trimmable s')
       \<and> ((ps_record s' = ps_record s)
          \<or> (\<exists>a b. ps_record s = RLocal a \<and> ps_record s' = RLocal (a\<lparr>la_backing := b\<rparr>)))"

lemma slot_after_refl [simp]: "slot_after s s"
  by (simp add: slot_after_def)

lemma slot_after_release: "slot_after s (release_in_scope scope s)"
  by (auto simp: release_in_scope_def slot_after_def slot_release_def slot_trimmable_def
      split: slot_record.splits)

lemma leave_slot_nth:
  assumes "leave_scope sp scope = Some (Inr u, sp')" "i < length (sps_slots sp)"
  shows "sps_slots sp' ! i
    = (if i < sps_active_slots_end sp then release_in_scope scope (sps_slots sp ! i) else sps_slots sp ! i)"
  using assms(1) by (rule leave_scope_Inr) (use assms(2) in \<open>auto simp: nth_append min_def not_less\<close>)

lemma sp_step_slots:
  assumes "sp_step sp sp'" "sp_wf sp" "i < length (sps_slots sp)"
  shows "i < length (sps_slots sp') \<and> slot_after (sps_slots sp ! i) (sps_slots sp' ! i)"
  using assms(1)
proof (cases rule: sp_step.cases)
  case (sp_enter owner r)
  then show ?thesis using assms(3)
    by (auto simp: enter_scope_for_def Let_def split: sum.splits option.splits)
next
  case (sp_bind_frame scope fr)
  then show ?thesis using assms(3) by (auto simp: bind_frame_def split: option.splits if_splits)
next
  case (sp_register scope domain base ln writable rp)
  show ?thesis
  proof (cases rp)
    case (Inl e)
    then show ?thesis using sp_register assms(3) register_Inl by fastforce
  next
    case (Inr p)
    with sp_register have "register sp scope domain base ln writable = (Inr p, sp')" by simp
    then show ?thesis
      by (rule register_Inr) (use assms(3) in \<open>auto simp: slot_after_def nth_upd unat_succ_u32\<close>)
  qed
next
  case (sp_bind_backing p b)
  then show ?thesis using assms(3)
    by (auto simp: bind_backing_def slot_at_def nth_upd slot_after_def slot_trimmable_def
        split: option.splits if_splits slot_record.splits)
next
  case (sp_take_backing p rb)
  then show ?thesis using assms(3)
    by (auto simp: take_backing_def slot_at_def nth_upd slot_after_def slot_trimmable_def
        split: option.splits if_splits slot_record.splits)
next
  case (sp_leave scope ru)
  show ?thesis
  proof (cases ru)
    case (Inl e)
    then show ?thesis using sp_leave assms(3) leave_scope_Inl by fastforce
  next
    case (Inr u)
    with sp_leave have l: "leave_scope sp scope = Some (Inr u, sp')" by simp
    have "length (sps_slots sp') = length (sps_slots sp)"
      using l by (rule leave_scope_Inr) (use assms(2) in \<open>auto simp: sp_wf_def\<close>)
    then show ?thesis using leave_slot_nth[OF l assms(3)] assms(3) by (simp add: slot_after_release)
  qed
qed

definition ptr_dead :: "nat \<Rightarrow> u32 \<Rightarrow> scoped_pointers \<Rightarrow> bool" where
  "ptr_dead i g sp \<longleftrightarrow> sp_wf sp \<and> i < length (sps_slots sp)
     \<and> (unat g < unat (ps_generation (sps_slots sp ! i))
        \<or> ps_generation (sps_slots sp ! i) = g \<and> slot_trimmable (sps_slots sp ! i))"

definition ptr_bound :: "nat \<Rightarrow> u32 \<Rightarrow> scope \<Rightarrow> scoped_pointers \<Rightarrow> bool" where
  "ptr_bound i g scope sp \<longleftrightarrow> sp_wf sp \<and> i < length (sps_slots sp)
     \<and> (ptr_dead i g sp
        \<or> ps_generation (sps_slots sp ! i) = g \<and> ps_state (sps_slots sp ! i) = SLive
          \<and> (\<exists>a. ps_record (sps_slots sp ! i) = RLocal a \<and> la_scope a = scope))"

lemma ptr_dead_step: "sp_step sp sp' \<Longrightarrow> ptr_dead i g sp \<Longrightarrow> ptr_dead i g sp'"
  using sp_step_slots[of sp sp' i] sp_sys.step_inv[of sp sp']
  by (auto simp: ptr_dead_def slot_after_def slot_trimmable_def)

lemma ptr_bound_step: "sp_step sp sp' \<Longrightarrow> ptr_bound i g scope sp \<Longrightarrow> ptr_bound i g scope sp'"
  using sp_step_slots[of sp sp' i] sp_sys.step_inv[of sp sp'] ptr_dead_step[of sp sp' i g]
  by (auto simp: ptr_bound_def slot_after_def ptr_dead_def)

lemma ptr_dead_steps: "steps sp_step sp sp' \<Longrightarrow> ptr_dead i g sp \<Longrightarrow> ptr_dead i g sp'"
  by (rule steps_keep[of sp_step sp sp' "ptr_dead i g"]) (auto intro: ptr_dead_step)

lemma ptr_bound_steps: "steps sp_step sp sp' \<Longrightarrow> ptr_bound i g scope sp \<Longrightarrow> ptr_bound i g scope sp'"
  by (rule steps_keep[of sp_step sp sp' "ptr_bound i g scope"]) (auto intro: ptr_bound_step)

lemma ptr_dead_allocation: "ptr_dead i g sp \<Longrightarrow> sp_slot p = i \<Longrightarrow> sp_generation p = g \<Longrightarrow> allocation sp p d = Inl PStale"
  by (auto simp: ptr_dead_def allocation_def slot_at_def slot_trimmable_def)

lemma register_bound:
  assumes "register sp scope domain base ln writable = (Inr p, sp')" "sp_wf sp"
  shows "ptr_bound (sp_slot p) (sp_generation p) scope sp'"
  using assms(1) by (rule register_Inr)
    (use assms sp_wf_register[OF assms] in \<open>auto simp: ptr_bound_def\<close>)

lemma leave_scope_kills:
  assumes "leave_scope sp scope = Some (Inr u, sp')" "ptr_bound i g scope sp"
  shows "ptr_dead i g sp'"
proof (cases "ptr_dead i g sp")
  case True
  then show ?thesis using assms(1) by (auto intro: ptr_dead_step sp_leave)
next
  case False
  with assms(2) obtain a where b: "sp_wf sp" "i < length (sps_slots sp)"
    "ps_generation (sps_slots sp ! i) = g" "ps_state (sps_slots sp ! i) = SLive"
    "ps_record (sps_slots sp ! i) = RLocal a" "la_scope a = scope"
    by (auto simp: ptr_bound_def)
  then have "\<not> slot_trimmable (sps_slots sp ! i)" by (simp add: slot_trimmable_def)
  with b(1,2) have "i < sps_active_slots_end sp" unfolding sp_wf_def by (meson not_le)
  with leave_slot_nth[OF assms(1) b(2)] b have
    "sps_slots sp' ! i = slot_release (sps_slots sp ! i)" by (simp add: release_in_scope_def)
  moreover have "i < length (sps_slots sp')"
    using assms(1) by (rule leave_scope_Inr) (use b(1,2) in \<open>auto simp: sp_wf_def\<close>)
  ultimately show ?thesis
    using b(3) sp_wf_leave[OF assms(1) b(1)] slot_trimmable_release[of "sps_slots sp ! i"]
    by (simp add: ptr_dead_def slot_release_def)
qed

section \<open>A frame that passed its preflight cannot fail\<close>

definition newest_scope :: "scope \<Rightarrow> scoped_pointers \<Rightarrow> bool" where
  "newest_scope scope sp \<longleftrightarrow> (\<exists>r. Some r \<in> set (sps_scopes sp) \<and> sr_scope r = scope)
     \<and> (\<forall>r. Some r \<in> set (sps_scopes sp) \<longrightarrow> \<not> scope_raw (sr_scope r) > scope_raw scope)"

definition frame_ready :: "scope \<Rightarrow> nat \<Rightarrow> scoped_pointers \<Rightarrow> bool" where
  "frame_ready scope n sp \<longleftrightarrow> sp_wf sp \<and> newest_scope scope sp
     \<and> n \<le> length (filter slot_is_free (sps_slots sp))
     \<and> unat (hl_revision (sps_heap sp)) + n < 2 ^ 64"

lemma preflight_frame_Inr:
  "preflight_frame sp n = Inr u \<longleftrightarrow>
     sps_next_scope sp \<noteq> u64_max \<and> None \<in> set (sps_scopes sp)
     \<and> n \<le> length (filter slot_is_free (sps_slots sp))
     \<and> unat (hl_revision (sps_heap sp)) + (n + 1) < 2 ^ 64"
  by (auto simp: preflight_frame_def list_ex_iff not_less not_le)

lemma scope_owner_mem: "scope_owner sp scope \<noteq> None \<longleftrightarrow> (\<exists>r \<in> set (active_scopes sp). sr_scope r = scope)"
  by (auto simp: scope_owner_def find_None_iff)

lemma is_topI:
  assumes "sp_wf sp" "Some r \<in> set (sps_scopes sp)" "sr_scope r = scope"
    and "\<And>r'. Some r' \<in> set (sps_scopes sp) \<Longrightarrow> \<not> scope_raw (sr_scope r') > scope_raw scope"
  shows "is_top sp scope"
proof -
  have "scope_owner sp scope \<noteq> None"
    unfolding scope_owner_mem set_active_scopes[OF assms(1)] using assms(2,3) by auto
  then show ?thesis using assms(4)
    by (auto simp: is_top_def list_ex_iff set_active_scopes[OF assms(1)])
qed

lemma enter_scope_ready:
  assumes "sp_wf sp" "preflight_frame sp n = Inr ()"
  shows "\<exists>scope sp' i. enter_scope_for sp owner = Some (Inr scope, sp') \<and> frame_ready scope n sp'
    \<and> position (scope_is scope) (sps_scopes sp') = Some i
    \<and> sps_scopes sp' ! i = Some \<lparr>sr_scope = scope, sr_owner = owner, sr_frame = None\<rparr>"
proof -
  note pf = assms(2)[unfolded preflight_frame_Inr]
  have "preflight_frame sp 0 = Inr ()" using pf by (simp add: preflight_frame_Inr)
  moreover from pf obtain k where "position (\<lambda>s. s = None) (sps_scopes sp) = Some k"
    using position_ex[of None "sps_scopes sp" "\<lambda>s. s = None"] by blast
  ultimately obtain scope sp' where e: "enter_scope_for sp owner = Some (Inr scope, sp')"
    by (auto simp: enter_scope_for_def Let_def)
  then obtain i where i: "i < length (sps_scopes sp)" "sps_scopes sp ! i = None"
    "scope = Scope (sps_next_scope sp)"
    "sp' = sp\<lparr>sps_next_scope := sps_next_scope sp + 1,
           sps_scopes := (sps_scopes sp)[i := Some \<lparr>sr_scope = scope, sr_owner = owner, sr_frame = None\<rparr>],
           sps_active_scopes_end := max (sps_active_scopes_end sp) (i + 1),
           sps_heap := heap_ledger_advance (sps_heap sp)\<rparr>" by (rule enter_scope_for_Inr)
  let ?r = "\<lparr>sr_scope = scope, sr_owner = owner, sr_frame = None\<rparr>"
  have wf': "sp_wf sp'" using e assms(1) by (rule sp_wf_enter)
  have mem: "Some r \<in> set (sps_scopes sp') \<Longrightarrow> r = ?r \<or> Some r \<in> set (sps_scopes sp)" for r
    using i(4) by (auto dest!: set_update_subset_insert[THEN subsetD])
  have old: "Some r \<in> set (sps_scopes sp) \<Longrightarrow> scope_raw (sr_scope r) < sps_next_scope sp" for r
    using assms(1) by (simp add: sp_wf_def)
  have new: "Some ?r \<in> set (sps_scopes sp')" using i(1,4) by (simp add: set_update_memI)
  have "\<not> scope_raw (sr_scope r') > scope_raw scope" if "Some r' \<in> set (sps_scopes sp')" for r'
    using mem[OF that] old[of r'] i(3) by auto
  with new have top: "newest_scope scope sp'" unfolding newest_scope_def
    by (metis scope_record.select_convs(1))
  have ready: "frame_ready scope n sp'"
    using wf' top pf by (simp add: frame_ready_def i(4) heap_ledger_advance_def unat_saturating_succ)
  obtain j where j: "position (scope_is scope) (sps_scopes sp') = Some j"
    using position_ex[OF new, of "scope_is scope"] by (auto simp: scope_is_def)
  from position_SomeD[OF j] obtain r where r: "sps_scopes sp' ! j = Some r" "sr_scope r = scope"
    "Some r \<in> set (sps_scopes sp')"
    by (auto simp: scope_is_def split: option.splits) (metis nth_mem)
  then have "r = ?r" using mem[of r] old[of r] i(3) by fastforce
  with e ready j r(1) show ?thesis by blast
qed

lemma bind_frame_ready:
  assumes "frame_ready scope n sp" "position (scope_is scope) (sps_scopes sp) = Some i"
    and "sps_scopes sp ! i = Some r" "sr_frame r = None"
  shows "\<exists>sp'. bind_frame sp scope fr = Some sp' \<and> frame_ready scope n sp'"
proof -
  let ?q = "r\<lparr>sr_frame := Some fr\<rparr>"
  let ?sp = "sp\<lparr>sps_scopes := (sps_scopes sp)[i := Some ?q]\<rparr>"
  have b: "bind_frame sp scope fr = Some ?sp" using assms(2-4) by (simp add: bind_frame_def)
  have wf: "sp_wf ?sp" using assms(1) sp_wf_bind_frame[OF b] by (simp add: frame_ready_def)
  have i: "i < length (sps_scopes sp)" "sr_scope r = scope"
    using position_SomeD[OF assms(2)] assms(3) by (auto simp: scope_is_def)
  have "Some ?q \<in> set (sps_scopes ?sp)" using i(1) by (simp add: set_update_memI)
  moreover have "\<not> scope_raw (sr_scope r') > scope_raw scope" if "Some r' \<in> set (sps_scopes ?sp)" for r'
    using that assms(1) i(2)
    by (auto simp: frame_ready_def newest_scope_def dest!: set_update_subset_insert[THEN subsetD])
  ultimately have "newest_scope scope ?sp" unfolding newest_scope_def
    using i(2) by (metis scope_record.select_convs(1) scope_record.surjective scope_record.update_convs(3))
  with wf assms(1) b show ?thesis by (auto simp: frame_ready_def)
qed

lemma register_ready:
  assumes "frame_ready scope (Suc n) sp" "checked_add base ln \<noteq> None"
  shows "\<exists>p sp' sp''. register sp scope domain base ln writable = (Inr p, sp')
    \<and> bind_backing sp' p b = Some sp'' \<and> frame_ready scope n sp''"
proof -
  have f: "sp_wf sp" "newest_scope scope sp" "Suc n \<le> length (filter slot_is_free (sps_slots sp))"
    "unat (hl_revision (sps_heap sp)) + Suc n < 2 ^ 64" using assms(1) by (auto simp: frame_ready_def)
  have top: "is_top sp scope" using f(1,2) is_topI unfolding newest_scope_def by blast
  have rev: "hl_revision (sps_heap sp) \<noteq> u64_max" using f(4) by auto
  from f(3) have "filter slot_is_free (sps_slots sp) \<noteq> []" by auto
  then obtain s where s: "s \<in> set (sps_slots sp)" "slot_is_free s" by (auto simp: filter_empty_conv)
  obtain k where "free_slot sp = Some k" unfolding free_slot_def
    using position_ex[OF s(1), of slot_is_free] s(2) by blast
  with top rev assms(2) obtain p sp' where r: "register sp scope domain base ln writable = (Inr p, sp')"
    by (auto simp: register_def Let_def)
  then obtain i where i: "i < length (sps_slots sp)" "slot_is_free (sps_slots sp ! i)"
    "p = \<lparr>sp_slot = i, sp_generation = ps_generation (sps_slots sp ! i) + 1, sp_position = 0\<rparr>"
    "sp' = sp\<lparr>sps_slots := (sps_slots sp)[i :=
              \<lparr>ps_generation = ps_generation (sps_slots sp ! i) + 1, ps_state = SLive,
               ps_record = RLocal \<lparr>la_scope = scope, la_domain = domain, la_base = base,
                 la_length = ln, la_writable = writable, la_backing = None\<rparr>\<rparr>],
            sps_active_slots_end := max (sps_active_slots_end sp) (i + 1),
            sps_heap := heap_ledger_advance (sps_heap sp)\<rparr>" by (rule register_Inr)
  then obtain sp'' where b: "bind_backing sp' p b = Some sp''"
    by (simp add: bind_backing_def slot_at_def)
  have wf: "sp_wf sp''" using sp_wf_bind_backing[OF b] sp_wf_register[OF r f(1)] by simp
  have sl: "sps_slots sp'' = (sps_slots sp)[i :=
       \<lparr>ps_generation = ps_generation (sps_slots sp ! i) + 1, ps_state = SLive,
        ps_record = RLocal \<lparr>la_scope = scope, la_domain = domain, la_base = base,
          la_length = ln, la_writable = writable, la_backing = Some b\<rparr>\<rparr>]"
    and rest: "sps_scopes sp'' = sps_scopes sp" "sps_heap sp'' = heap_ledger_advance (sps_heap sp)"
    using b i by (auto simp: bind_backing_def slot_at_def)
  have "Suc (length (filter slot_is_free (sps_slots sp''))) = length (filter slot_is_free (sps_slots sp))"
    unfolding sl by (rule filter_update_count) (use i(1,2) in \<open>auto simp: slot_is_free_def\<close>)
  then have "frame_ready scope n sp''"
    using wf f by (simp add: frame_ready_def newest_scope_def rest heap_ledger_advance_def unat_saturating_succ)
  with r b show ?thesis by blast
qed

section \<open>Spans\<close>

lemma checked_add_signed_eq_Some:
  "checked_add_signed (a::u64) d = Some c \<longleftrightarrow> uint c = uint a + d"
proof
  assume "checked_add_signed a d = Some c"
  then show "uint c = uint a + d"
    by (auto simp: checked_add_signed_def word_of_int_inverse uint_word_of_int_eq take_bit_int_eq_self split: if_splits)
next
  assume c: "uint c = uint a + d"
  have "0 \<le> uint c" "uint c < 2 ^ 64" using uint_lt2p[of c] by simp_all
  with c have "checked_add_signed a d = Some (word_of_int (uint c))" by (simp add: checked_add_signed_def)
  then show "checked_add_signed a d = Some c" by simp
qed

lemma checked_add_signed_eq_None:
  "checked_add_signed (a::u64) d = None \<longleftrightarrow> \<not> (0 \<le> uint a + d \<and> uint a + d < 2 ^ 64)"
  by (simp add: checked_add_signed_def)

lemma allocation_position [simp]: "allocation sp (p\<lparr>sp_position := x\<rparr>) d = allocation sp p d"
  by (simp add: allocation_def slot_at_def)

lemma pointer_add_Inr:
  assumes "pointer_add sp p d x = Inr q"
  obtains a where "allocation sp p d = Inr a" "q = p\<lparr>sp_position := sp_position q\<rparr>"
    "uint (sp_position q) = uint (sp_position p) + x" "sp_position q \<le> la_length a"
  using assms by (auto simp: pointer_add_def checked_add_signed_eq_Some not_less
      split: sum.splits option.splits if_splits)

lemma pointer_add_add:
  assumes "pointer_add sp p d x = Inr q"
  shows "pointer_add sp q d y = pointer_add sp p d (x + y)"
proof -
  from assms obtain a where a: "allocation sp p d = Inr a" "q = p\<lparr>sp_position := sp_position q\<rparr>"
    "uint (sp_position q) = uint (sp_position p) + x" by (rule pointer_add_Inr)
  have c: "checked_add_signed (sp_position q) y = checked_add_signed (sp_position p) (x + y)"
    by (simp add: checked_add_signed_def a(3) add.assoc)
  have "allocation sp q d = Inr a" by (subst a(2)) (simp add: a(1))
  moreover have "q\<lparr>sp_position := z\<rparr> = p\<lparr>sp_position := z\<rparr>" for z by (subst a(2)) simp
  ultimately show ?thesis using a(1) c by (simp add: pointer_add_def split: option.splits)
qed

lemma pointer_resolve_Inr:
  assumes "pointer_resolve sp p d w wr = Inr at"
  obtains a where "allocation sp p d = Inr a" "0 < unat w" "wr \<Longrightarrow> la_writable a"
    "unat at = unat (la_base a) + unat (sp_position p)"
    "unat (sp_position p) + unat w \<le> unat (la_length a)"
  using assms
  by (auto simp: pointer_resolve_def checked_add_eq_Some not_less word_le_nat_alt unat_gt_0
      split: sum.splits option.splits if_splits)

section \<open>Properties\<close>

text \<open>
  C25: no pointer outlives its scope.  From any reachable registry, a pointer registered in a scope
  and every pointer displaced from it authenticate as stale for ever once that scope has been
  left, whatever scopes are entered, pointers registered and slots reused afterwards.
\<close>

theorem local_pointer_lifetime:
  assumes "reachable (\<lambda>sp. with_limits sz l = Inr sp) sp_step sp"
    and "register sp scope domain base ln writable = (Inr p, sp1)"
    and "steps sp_step sp1 sp2"
    and "leave_scope sp2 scope = Some (Inr u, sp3)"
    and "steps sp_step sp3 sp4"
  shows "allocation sp4 (p\<lparr>sp_position := x\<rparr>) d = Inl PStale
    \<and> pointer_add sp4 (p\<lparr>sp_position := x\<rparr>) d delta = Inl PStale
    \<and> pointer_resolve sp4 (p\<lparr>sp_position := x\<rparr>) d w wr = Inl PStale"
proof -
  have "ptr_bound (sp_slot p) (sp_generation p) scope sp1"
    using assms(2) sp_sys.invariant_reachable[OF assms(1)] by (rule register_bound)
  then have "ptr_bound (sp_slot p) (sp_generation p) scope sp2"
    using assms(3) by (blast intro: ptr_bound_steps)
  then have "ptr_dead (sp_slot p) (sp_generation p) sp3"
    by (rule leave_scope_kills[OF assms(4)])
  then have "ptr_dead (sp_slot p) (sp_generation p) sp4"
    using assms(5) by (blast intro: ptr_dead_steps)
  then have "allocation sp4 p d = Inl PStale" for d by (rule ptr_dead_allocation) simp_all
  then show ?thesis by (simp add: pointer_add_def pointer_resolve_def)
qed

definition no_sizes :: type_sizes where
  "no_sizes = \<lparr>ts_registry = 0, ts_slot = 0, ts_scope = 0, ts_account = 0, ts_cleanup = 0, ts_host_storage = 0,
     ts_worker = 0, ts_claim = 0, ts_extent = 0, ts_layout = 0, ts_placement_scratch = 0\<rparr>"

definition one_slot_registry :: scoped_pointers where
  "one_slot_registry = empty_registry (local_limits 1) 0"

lemma one_slot_registry: "with_limits no_sizes (local_limits 1) = Inr one_slot_registry"
  by (simp add: with_limits_def registry_footprint_def table_bytes_def no_sizes_def local_limits_def
      one_slot_registry_def checked_add_def)

definition example_registry :: scoped_pointers where
  "example_registry = snd (the (enter_scope one_slot_registry))"

lemmas registry_eval = example_registry_def enter_scope_def enter_scope_for_def one_slot_registry_def empty_registry_def
  local_limits_def
  preflight_frame_def Let_def heap_ledger_advance_def SLOT_EMPTY_def slot_is_free_def saturating_add_def
  register_def is_top_def scope_owner_def active_scopes_def List.map_filter_def free_slot_def
  checked_add_def leave_scope_def scope_is_def trim_active_slots_def slot_trimmable_def
  release_in_scope_def slot_release_def

theorem local_pointer_lifetime_witness:
  "allocation (snd (the (leave_scope (snd (register example_registry (Scope 1) 7 4096 64 True)) (Scope 1))))
     \<lparr>sp_slot = 0, sp_generation = 1, sp_position = 0\<rparr> 7 = Inl PStale"
proof -
  let ?sp0 = one_slot_registry
  let ?reg = "register example_registry (Scope 1) 7 4096 64 True"
  let ?p = "\<lparr>sp_slot = 0, sp_generation = 1, sp_position = 0\<rparr> :: scoped_pointer"
  have e: "enter_scope_for ?sp0 0 = Some (Inr (Scope 1), example_registry)" by (simp add: registry_eval)
  have r: "?reg = (Inr ?p, snd ?reg)" by (simp add: registry_eval)
  have l: "leave_scope (snd ?reg) (Scope 1) = Some (Inr (), snd (the (leave_scope (snd ?reg) (Scope 1))))"
    by (simp add: registry_eval)
  have "reachable (\<lambda>sp. with_limits no_sizes (local_limits 1) = Inr sp) sp_step example_registry"
    using reach_step[of "\<lambda>sp. with_limits no_sizes (local_limits 1) = Inr sp" sp_step ?sp0]
      reach_init[of "\<lambda>sp. with_limits no_sizes (local_limits 1) = Inr sp" ?sp0 sp_step] one_slot_registry sp_enter[OF e]
    by simp
  from local_pointer_lifetime[OF this r steps_refl l steps_refl, of 0 7]
  show ?thesis by simp
qed

text \<open>
  C26: pointer arithmetic is addition, and a resolved span lies inside its allocation.  Displacing by
  \<open>x\<close> and then by \<open>y\<close> is displacing by \<open>x + y\<close>, errors included; a successful resolution of a
  displaced pointer returns the allocation's base plus the displacement, of a nonempty span that is
  contained in the registered range, and write access only to a writable allocation.
\<close>

theorem pointer_arithmetic_sound:
  assumes "pointer_add sp p d x = Inr q"
  shows "pointer_add sp q d y = pointer_add sp p d (x + y)
    \<and> (pointer_resolve sp q d w wr = Inr at \<longrightarrow>
        (\<exists>a. allocation sp p d = Inr a \<and> 0 < unat w \<and> (wr \<longrightarrow> la_writable a)
           \<and> uint at = uint (la_base a) + uint (sp_position p) + x
           \<and> span at w \<subseteq> span (la_base a) (la_length a)))"
proof (intro conjI impI)
  show "pointer_add sp q d y = pointer_add sp p d (x + y)" using assms by (rule pointer_add_add)
  from assms obtain a where a: "allocation sp p d = Inr a" "q = p\<lparr>sp_position := sp_position q\<rparr>"
    "uint (sp_position q) = uint (sp_position p) + x" by (rule pointer_add_Inr)
  have q: "allocation sp q d = Inr a" by (subst a(2)) (simp add: a(1))
  assume "pointer_resolve sp q d w wr = Inr at"
  then show "\<exists>a. allocation sp p d = Inr a \<and> 0 < unat w \<and> (wr \<longrightarrow> la_writable a)
      \<and> uint at = uint (la_base a) + uint (sp_position p) + x
      \<and> span at w \<subseteq> span (la_base a) (la_length a)"
  proof (rule pointer_resolve_Inr)
    fix a' assume r: "allocation sp q d = Inr a'" "0 < unat w" "wr \<Longrightarrow> la_writable a'"
      "unat at = unat (la_base a') + unat (sp_position q)"
      "unat (sp_position q) + unat w \<le> unat (la_length a')"
    from r(4) have "uint at = uint (la_base a') + uint (sp_position q)"
      by (metis of_nat_add of_nat_unat)
    moreover have "span at w \<subseteq> span (la_base a') (la_length a')"
      by (rule span_subset_object) (use r(4,5) in auto)
    ultimately show ?thesis using a q r by auto
  qed
qed

theorem pointer_arithmetic_sound_witness:
  "pointer_add (snd (register example_registry (Scope 1) 7 4096 64 True))
     \<lparr>sp_slot = 0, sp_generation = 1, sp_position = 8\<rparr> 7 (- 8)
   = Inr \<lparr>sp_slot = 0, sp_generation = 1, sp_position = 0\<rparr>"
proof -
  let ?sp = "snd (register example_registry (Scope 1) 7 4096 64 True)"
  let ?p = "\<lparr>sp_slot = 0, sp_generation = 1, sp_position = 0\<rparr> :: scoped_pointer"
  note ev = registry_eval pointer_add_def allocation_def slot_at_def checked_add_signed_def
  have "pointer_add ?sp ?p 7 8 = Inr (?p\<lparr>sp_position := 8\<rparr>)" by (simp add: ev)
  moreover have "pointer_add ?sp ?p 7 (8 + - 8) = Inr ?p" by (simp add: ev)
  ultimately show ?thesis using pointer_arithmetic_sound[of ?sp ?p 7 8 "?p\<lparr>sp_position := 8\<rparr>" "- 8"] by simp
qed

end
