(* ===== verification/Fabric.thy ===== *)
theory Fabric
  imports Scoped_Pointers
begin

text \<open>
  The multi-agent fabric of \<open>src/src/anka64/fabric.rs\<close>, first part: its state, the timer, object
  and domain management, placement, and the operations that mint, derive, delegate and remove
  authority.  Of the private heap (\<open>fabric/heap.rs\<close>) the parts the fabric itself consults are
  here: the rows' identities, the dedicated pool and the identity floor.  A method of the source
  is a function on the state; a method with a result returns the pair of result and state.
\<close>

section \<open>Timer\<close>

record fabric_timer =
  ft_period :: u64
  ft_counter :: u64
  ft_enabled :: bool

definition timer_new :: "u64 \<Rightarrow> fabric_timer" where
  "timer_new period = \<lparr>ft_period = period, ft_counter = period, ft_enabled = True\<rparr>"

definition timer_tick :: "fabric_timer \<Rightarrow> bool \<times> fabric_timer" where
  "timer_tick t =
     (if \<not> ft_enabled t \<or> ft_period t = 0 then (False, t)
      else let t' = t\<lparr>ft_counter := saturating_sub (ft_counter t) 1\<rparr> in
           if ft_counter t' = 0 then (True, t'\<lparr>ft_counter := ft_period t'\<rparr>) else (False, t'))"

section \<open>The private heap as the fabric sees it\<close>

record private_heap_row =
  phr_reservation :: heap_reservation
  phr_owner :: allocation_owner
  phr_object :: object_id
  phr_object_generation :: generation
  phr_logical :: u64
  phr_physical :: extent
  phr_virtual :: extent
  phr_planned_rights :: permissions
  phr_initialized_bytes :: u64
  phr_initialization_version :: u64

record heap_fabric =
  hf_pool :: extent
  hf_virtual_window :: extent
  hf_rows :: "private_heap_row option list"
  hf_rows_end :: nat
  hf_shadow :: "scoped_pointer option list"
  hf_object_id_floor :: u64

definition heap_contains_object :: "heap_fabric \<Rightarrow> object_id \<Rightarrow> bool" where
  "heap_contains_object h i \<longleftrightarrow>
     list_ex (\<lambda>r. phr_object r = i) (List.map_filter id (take (hf_rows_end h) (hf_rows h)))"

definition heap_set_row :: "heap_fabric \<Rightarrow> nat \<Rightarrow> private_heap_row \<Rightarrow> heap_fabric" where
  "heap_set_row h slot row =
     h\<lparr>hf_rows := (hf_rows h)[slot := Some row], hf_rows_end := max (hf_rows_end h) (slot + 1)\<rparr>"

definition heap_remove_row :: "heap_fabric \<Rightarrow> nat \<Rightarrow> heap_fabric" where
  "heap_remove_row h slot =
     (let rows = (hf_rows h)[slot := None] in
      h\<lparr>hf_rows := rows, hf_rows_end := trim_end (\<lambda>r. r = None) rows (hf_rows_end h)\<rparr>)"

text \<open>The pool's end was validated when the profile was built, so the sum does not wrap.\<close>

definition heap_end :: "heap_fabric \<Rightarrow> u64" where
  "heap_end h = ext_base (hf_pool h) + ext_size (hf_pool h)"

definition heap_overlaps :: "heap_fabric \<Rightarrow> u64 \<Rightarrow> u64 \<Rightarrow> bool" where
  "heap_overlaps h base ln =
     (if ln = 0 then False
      else case checked_add base ln of
             None \<Rightarrow> True
           | Some end \<Rightarrow> base < heap_end h \<and> ext_base (hf_pool h) < end)"

definition heap_shadow_index :: "heap_fabric \<Rightarrow> u64 \<Rightarrow> nat option" where
  "heap_shadow_index h physical =
     (case checked_sub physical (ext_base (hf_pool h)) of
        None \<Rightarrow> None
      | Some ofs \<Rightarrow>
          if physical mod 16 \<noteq> 0 then None
          else case checked_add ofs 16 of
                 None \<Rightarrow> None
               | Some e \<Rightarrow>
                   if e > ext_size (hf_pool h) then None
                   else let index = unat (ofs div 16) in
                        if index < length (hf_shadow h) then Some index else None)"

section \<open>State\<close>

record fabric =
  fab_scoped_pointers :: scoped_pointers
  fab_pointer_stack_objects :: "(object_id, u64 \<times> domain_id) btm"
  fab_pointer_cells :: "(object_id \<times> generation \<times> u64, scoped_pointer) btm"
  fab_objects :: "(object_id, object) btm"
  fab_domains :: "(domain_id, domain_state) btm"
  fab_agents :: "(agent_id, agent_state) btm"
  fab_placement :: "(object_id, u64) btm"
  fab_memory :: "u8 list"
  fab_private_heap :: "heap_fabric option"
  fab_fault_log :: "fault_record list"
  fab_transactions :: "transaction list"
  fab_next_object_id :: u64
  fab_next_domain_id :: u64
  fab_next_tx_id :: u64
  fab_next_authority_id :: u64
  fab_timer :: "fabric_timer option"

definition from_parts :: "u8 list \<Rightarrow> scoped_pointers \<Rightarrow> heap_fabric option \<Rightarrow> fabric" where
  "from_parts memory sp heap =
     \<lparr>fab_scoped_pointers = sp, fab_pointer_stack_objects = [], fab_pointer_cells = [],
      fab_objects = [], fab_domains = [], fab_agents = [], fab_placement = [],
      fab_memory = memory, fab_private_heap = heap, fab_fault_log = [], fab_transactions = [],
      fab_next_object_id = 0, fab_next_domain_id = 0, fab_next_tx_id = 0,
      fab_next_authority_id = 0, fab_timer = None\<rparr>"

definition fabric_new :: "type_sizes \<Rightarrow> nat \<Rightarrow> fabric option" where
  "fabric_new sz mem_size =
     map_option (\<lambda>sp. from_parts (replicate mem_size 0) sp None) (scoped_pointers_new sz 4096)"

definition private_heap_object :: "fabric \<Rightarrow> object_id \<Rightarrow> bool" where
  "private_heap_object f i = (case fab_private_heap f of None \<Rightarrow> False | Some h \<Rightarrow> heap_contains_object h i)"

definition heap_pool_overlaps :: "fabric \<Rightarrow> u64 \<Rightarrow> u64 \<Rightarrow> bool" where
  "heap_pool_overlaps f base ln = (case fab_private_heap f of None \<Rightarrow> False | Some h \<Rightarrow> heap_overlaps h base ln)"

section \<open>Identities and timer\<close>

definition alloc_authority_id :: "fabric \<Rightarrow> authority_id option \<times> fabric" where
  "alloc_authority_id f =
     (case checked_add (fab_next_authority_id f) 1 of
        None \<Rightarrow> (None, f)
      | Some n \<Rightarrow> (Some (AuthorityId (fab_next_authority_id f)), f\<lparr>fab_next_authority_id := n\<rparr>))"

definition can_alloc_authority_id :: "fabric \<Rightarrow> bool" where
  "can_alloc_authority_id f \<longleftrightarrow> checked_add (fab_next_authority_id f) 1 \<noteq> None"

definition configure_timer :: "fabric \<Rightarrow> u64 \<Rightarrow> fabric" where
  "configure_timer f period = f\<lparr>fab_timer := Some (timer_new period)\<rparr>"

section \<open>Objects\<close>

definition next_fresh_object_id :: "fabric \<Rightarrow> object_id option" where
  "next_fresh_object_id f =
     (case checked_add (fab_next_object_id f) 1 of
        None \<Rightarrow> None
      | Some _ \<Rightarrow>
          let i = ObjectId (fab_next_object_id f) in
          if btm_contains (fab_objects f) i \<or> btm_contains (fab_placement f) i
             \<or> (case fab_private_heap f of
                  None \<Rightarrow> False
                | Some h \<Rightarrow> object_id_raw i < hf_object_id_floor h \<or> heap_contains_object h i)
          then None else Some i)"

definition try_alloc_object :: "fabric \<Rightarrow> string \<Rightarrow> u64 \<Rightarrow> object_kind \<Rightarrow> object_id option \<times> fabric" where
  "try_alloc_object f n sz kind =
     (case next_fresh_object_id f of
        None \<Rightarrow> (None, f)
      | Some i \<Rightarrow>
          (Some i,
           f\<lparr>fab_objects := btm_insert i
               \<lparr>obj_id = i, obj_generation = Generation 0, obj_size = sz, obj_state = Active,
                obj_kind = kind, obj_name = n\<rparr> (fab_objects f),
             fab_next_object_id := object_id_raw i + 1\<rparr>))"

text \<open>\<open>alloc_object\<close> panics when the namespace is exhausted: \<open>None\<close>.\<close>

definition alloc_object :: "fabric \<Rightarrow> string \<Rightarrow> u64 \<Rightarrow> object_kind \<Rightarrow> (object_id \<times> fabric) option" where
  "alloc_object f n sz kind =
     (case try_alloc_object f n sz kind of
        (None, _) \<Rightarrow> None
      | (Some i, f') \<Rightarrow> Some (i, f'))"

definition placement_conflict :: "fabric \<Rightarrow> object_id \<Rightarrow> u64 \<Rightarrow> u64 \<Rightarrow> object_id \<times> u64 \<Rightarrow> bool" where
  "placement_conflict f i physical_base new_end e =
     (let (existing_id, existing_base) = e in
      if existing_id = i then False
      else case btm_get (fab_objects f) existing_id of
             None \<Rightarrow> False
           | Some ob \<Rightarrow>
               if \<not> obj_live ob then False
               else case checked_add existing_base (obj_size ob) of
                      None \<Rightarrow> False
                    | Some existing_end \<Rightarrow> physical_base < existing_end \<and> new_end > existing_base)"

definition retain_other_cells :: "fabric \<Rightarrow> object_id \<Rightarrow> fabric" where
  "retain_other_cells f i =
     f\<lparr>fab_pointer_cells := btm_retain (\<lambda>k _. fst k \<noteq> i) (fab_pointer_cells f)\<rparr>"

definition place_object :: "fabric \<Rightarrow> object_id \<Rightarrow> u64 \<Rightarrow> bool \<times> fabric" where
  "place_object f i physical_base =
     (if private_heap_object f i then (False, f)
      else case btm_get (fab_objects f) i of
        None \<Rightarrow> (False, f)
      | Some ob \<Rightarrow>
         (case checked_add physical_base (obj_size ob) of
            None \<Rightarrow> (False, f)
          | Some new_end \<Rightarrow>
              if heap_pool_overlaps f physical_base (obj_size ob) then (False, f)
              else if list_ex (placement_conflict f i physical_base new_end) (fab_placement f)
              then (False, f)
              else let f' = (if btm_get (fab_placement f) i \<noteq> Some physical_base
                             then retain_other_cells f i else f)
                   in (True, f'\<lparr>fab_placement := btm_insert i physical_base (fab_placement f')\<rparr>)))"

lemma place_object_result:
  "place_object f i b = (ok, f') \<Longrightarrow> (if ok then map_of (fab_placement f') i = Some b else f' = f)"
  by (auto simp: place_object_def retain_other_cells_def Let_def split: if_splits option.splits)

definition physical_base :: "fabric \<Rightarrow> object_id \<Rightarrow> u64 option" where
  "physical_base f i = (if private_heap_object f i then None else btm_get (fab_placement f) i)"

definition move_object :: "fabric \<Rightarrow> object_id \<Rightarrow> u64 \<Rightarrow> bool \<times> fabric" where
  "move_object f i new_base = place_object f i new_base"

definition revoke :: "fabric \<Rightarrow> object_id \<Rightarrow> fabric" where
  "revoke f i =
     (if private_heap_object f i then f
      else let f' = retain_other_cells f i in
           case btm_get (fab_objects f') i of
             None \<Rightarrow> f'
           | Some ob \<Rightarrow>
               f'\<lparr>fab_objects := btm_insert i
                   (ob\<lparr>obj_generation := generation_next (obj_generation ob), obj_state := Revoked\<rparr>)
                   (fab_objects f')\<rparr>)"

definition seal_object :: "fabric \<Rightarrow> object_id \<Rightarrow> bool \<times> fabric" where
  "seal_object f i =
     (if private_heap_object f i then (False, f)
      else case btm_get (fab_objects f) i of
        None \<Rightarrow> (False, f)
      | Some ob \<Rightarrow>
          if obj_state ob \<noteq> Active then (False, f)
          else (True, f\<lparr>fab_objects := btm_insert i
                  (ob\<lparr>obj_generation := generation_next (obj_generation ob), obj_state := Sealed\<rparr>)
                  (fab_objects f)\<rparr>))"

definition mem_size :: "fabric \<Rightarrow> nat" where
  "mem_size f = length (fab_memory f)"

fun watermark_loop :: "fabric \<Rightarrow> (object_id \<times> u64) list \<Rightarrow> u64 \<Rightarrow> u64 option" where
  "watermark_loop f [] hwm = Some hwm"
| "watermark_loop f ((i, base) # es) hwm =
     (case btm_get (fab_objects f) i of
        None \<Rightarrow> watermark_loop f es hwm
      | Some ob \<Rightarrow>
          if \<not> obj_live ob then watermark_loop f es hwm
          else case checked_add base (obj_size ob) of
                 None \<Rightarrow> None
               | Some end \<Rightarrow>
                  (case checked_add end 0xFFF of
                     None \<Rightarrow> None
                   | Some e \<Rightarrow>
                       let aligned = e AND NOT 0xFFF in
                       watermark_loop f es (if aligned > hwm then aligned else hwm)))"

definition physical_high_watermark :: "fabric \<Rightarrow> u64 option" where
  "physical_high_watermark f =
     watermark_loop f (fab_placement f)
       (case fab_private_heap f of None \<Rightarrow> 0 | Some h \<Rightarrow> heap_end h)"

text \<open>
  The barrier all byte writers share.  The source computes \<open>base + length\<close> with a checked addition
  it expects to succeed; the comparison is made on naturals here, so the sum is exact.
\<close>

definition cell_survives :: "fabric \<Rightarrow> u64 \<Rightarrow> u64 \<Rightarrow> object_id \<times> generation \<times> u64 \<Rightarrow> bool" where
  "cell_survives f base ln key =
     (case btm_get (fab_placement f) (fst key) of
        None \<Rightarrow> False
      | Some p \<Rightarrow>
         (case checked_add p (snd (snd key)) of
            None \<Rightarrow> False
          | Some cell \<Rightarrow>
             (case checked_add cell 16 of
                None \<Rightarrow> False
              | Some cell_end \<Rightarrow> \<not> (base < cell_end \<and> unat cell < unat base + unat ln))))"

definition clear_pointer_cells_physical :: "fabric \<Rightarrow> u64 \<Rightarrow> u64 \<Rightarrow> fabric" where
  "clear_pointer_cells_physical f base ln =
     (if ln = 0 then f
      else f\<lparr>fab_pointer_cells := btm_retain (\<lambda>k _. cell_survives f base ln k) (fab_pointer_cells f)\<rparr>)"

definition zero_object_extent :: "fabric \<Rightarrow> object_id \<Rightarrow> bool \<times> fabric" where
  "zero_object_extent f i =
     (if private_heap_object f i then (False, f)
      else case btm_get (fab_objects f) i of
        None \<Rightarrow> (False, f)
      | Some ob \<Rightarrow>
          if obj_state ob \<noteq> Active then (False, f)
          else case btm_get (fab_placement f) i of
            None \<Rightarrow> (False, f)
          | Some base \<Rightarrow>
             (case checked_add base (obj_size ob) of
                None \<Rightarrow> (False, f)
              | Some end \<Rightarrow>
                  if length (fab_memory f) < unat end then (False, f)
                  else if heap_pool_overlaps f base (obj_size ob) then (False, f)
                  else let f' = clear_pointer_cells_physical f base (obj_size ob) in
                    (True, f'\<lparr>fab_memory := copy_at (unat base)
                              (replicate (unat (obj_size ob)) 0) (fab_memory f')\<rparr>)))"

section \<open>Domains and agents\<close>

definition create_domain :: "fabric \<Rightarrow> domain_id \<times> fabric" where
  "create_domain f =
     (let i = DomainId (fab_next_domain_id f) in
      (i, f\<lparr>fab_next_domain_id := fab_next_domain_id f + 1,
            fab_domains := btm_insert i
              \<lparr>dom_id = i, dom_capabilities = [], dom_device_authorities = []\<rparr> (fab_domains f)\<rparr>))"

definition try_create_compiler_domain :: "fabric \<Rightarrow> domain_id option \<times> fabric" where
  "try_create_compiler_domain f =
     (case checked_add (fab_next_domain_id f) 1 of
        None \<Rightarrow> (None, f)
      | Some _ \<Rightarrow>
          if btm_contains (fab_domains f) (DomainId (fab_next_domain_id f)) then (None, f)
          else let (d, f') = create_domain f in (Some d, f'))"

definition destroy_domain :: "fabric \<Rightarrow> domain_id \<Rightarrow> fabric" where
  "destroy_domain f i = f\<lparr>fab_domains := btm_remove i (fab_domains f)\<rparr>"

definition domain_count :: "fabric \<Rightarrow> nat" where
  "domain_count f = length (fab_domains f)"

definition destroy_object :: "fabric \<Rightarrow> object_id \<Rightarrow> fabric" where
  "destroy_object f i =
     (if private_heap_object f i then f
      else f\<lparr>fab_pointer_stack_objects := btm_remove i (fab_pointer_stack_objects f),
             fab_objects := btm_remove i (fab_objects f),
             fab_placement := btm_remove i (fab_placement f)\<rparr>)"

definition rollback_unpublished_object :: "fabric \<Rightarrow> object_id \<Rightarrow> bool \<times> fabric" where
  "rollback_unpublished_object f i =
     (if (case fab_private_heap f of None \<Rightarrow> False | Some h \<Rightarrow> object_id_raw i < hf_object_id_floor h)
      then (False, f)
      else if checked_add (object_id_raw i) 1 \<noteq> Some (fab_next_object_id f) then (False, f)
      else case btm_get (fab_objects f) i of
        None \<Rightarrow> (False, f)
      | Some ob \<Rightarrow>
          if obj_state ob \<noteq> Active \<or> obj_id ob \<noteq> i then (False, f)
          else if list_ex (\<lambda>(_, d). list_ex (\<lambda>e. cap_object (ce_cap e) = i) (dom_capabilities d)) (fab_domains f)
             \<or> list_ex (\<lambda>(_, d). list_ex (\<lambda>e. da_object e = i) (dom_device_authorities d)) (fab_domains f)
             \<or> list_ex (\<lambda>tx. req_object (tx_request tx) = i) (fab_transactions f)
             \<or> list_ex (\<lambda>fr. fr_object fr = i) (fab_fault_log f)
          then (False, f)
          else (True, f\<lparr>fab_placement := btm_remove i (fab_placement f),
                        fab_objects := btm_remove i (fab_objects f),
                        fab_next_object_id := object_id_raw i\<rparr>))"

definition zero_physical :: "fabric \<Rightarrow> u64 \<Rightarrow> u64 \<Rightarrow> fabric" where
  "zero_physical f base sz =
     (if heap_pool_overlaps f base sz then f
      else case checked_add base sz of
        None \<Rightarrow> f
      | Some end \<Rightarrow>
          if unat end \<le> length (fab_memory f)
          then let f' = clear_pointer_cells_physical f base sz in
               f'\<lparr>fab_memory := copy_at (unat base) (replicate (unat sz) 0) (fab_memory f')\<rparr>
          else f)"

definition register_agent :: "fabric \<Rightarrow> agent_id \<Rightarrow> agent_kind \<Rightarrow> domain_id \<Rightarrow> fabric" where
  "register_agent f i kind domain =
     f\<lparr>fab_agents := btm_insert i \<lparr>agent_id = i, agent_kind = kind, agent_domain = domain\<rparr> (fab_agents f)\<rparr>"

end
