(* ===== verification/Placement.thy ===== *)
theory Placement
  imports Placement_Managers Fabric
begin

text \<open>
  The physical manager of \<open>src/src/anka64/placement.rs\<close> composed with the fabric, and what both
  managers guarantee: free holes and reservations tile the pool, a composed placement is all or
  nothing, and the regions of a virtual layout never overlap.
\<close>

section \<open>Composition with the fabric\<close>

definition release_unplaced :: "placement_manager \<Rightarrow> fabric \<Rightarrow> object_id
    \<Rightarrow> ((placement_error + extent) \<times> placement_manager) option" where
  "release_unplaced m fab owner =
     (if physical_base fab owner \<noteq> None then Some (Inl ObjectStillPlaced, m)
      else if \<not> btm_contains (pm_allocated m) owner then Some (Inl UnknownOwner, m)
      else release_reservation (m\<lparr>pm_committed := pm_committed m - {owner}\<rparr>) owner)"

definition allocate_and_place_object :: "placement_manager \<Rightarrow> fabric \<Rightarrow> object_id
    \<Rightarrow> ((placement_error + extent) \<times> placement_manager \<times> fabric) option" where
  "allocate_and_place_object m fab owner =
     (case btm_get (fab_objects fab) owner of
        None \<Rightarrow> Some (Inl UnknownObject, m, fab)
      | Some ob \<Rightarrow>
          if physical_base fab owner \<noteq> None then Some (Inl ObjectAlreadyPlaced, m, fab)
          else case allocate m owner (obj_size ob) of
            (Inl e, m1) \<Rightarrow> Some (Inl e, m1, fab)
          | (Inr ext, m1) \<Rightarrow>
             (case place_object fab owner (ext_base ext) of
                (False, fab1) \<Rightarrow>
                  (case release_reservation m1 owner of
                     None \<Rightarrow> None
                   | Some (Inl _, _) \<Rightarrow> None
                   | Some (Inr _, m2) \<Rightarrow> Some (Inl FabricRejected, m2, fab1))
              | (True, fab1) \<Rightarrow> Some (Inr ext, m1\<lparr>pm_committed := insert owner (pm_committed m1)\<rparr>, fab1)))"

section \<open>Releasing an extent\<close>

lemma extend_last:
  assumes "free_wf (ms @ [l])" "valid_extent e" "ext_limit l = unat (ext_base e)"
  shows "\<exists>n. checked_add (ext_size l) (ext_size e) = Some n \<and> free_wf (ms @ [mk_extent (ext_base l) n])
    \<and> free_set (ms @ [mk_extent (ext_base l) n]) = free_set (ms @ [l]) \<union> ext_set e
    \<and> ext_limit (mk_extent (ext_base l) n) = ext_limit e"
proof -
  have l: "valid_extent l" "free_wf ms" "\<forall>m \<in> set ms. ext_limit m < unat (ext_base l)"
    using assms(1) by (auto simp: free_wf_append free_wf_Cons)
  let ?n = "ext_size l + ext_size e"
  have small: "unat (ext_size l) + unat (ext_size e) < 2 ^ 64" using assms(2,3) by (simp add: valid_extent_iff)
  then have n: "unat ?n = unat (ext_size l) + unat (ext_size e)" by (intro unat_plus_exact) simp
  have "valid_extent (mk_extent (ext_base l) ?n)"
    using l(1) assms(2,3) by (simp add: valid_extent_iff n mod_add_4096)
  then have "free_wf (ms @ [mk_extent (ext_base l) ?n])"
    using l by (auto simp: free_wf_def sorted_wrt_append)
  moreover have "ext_set (mk_extent (ext_base l) ?n) = ext_set l \<union> ext_set e"
    using assms(3) by (auto simp: ext_set_def n)
  moreover have "checked_add (ext_size l) (ext_size e) = Some ?n" using small by (simp add: checked_add_def)
  ultimately show ?thesis using n assms(3) by auto
qed

lemma coalesce_into_correct:
  assumes "free_wf merged" "\<forall>r \<in> set rest. valid_extent r"
    and "sorted_wrt (\<lambda>a b. ext_limit a \<le> unat (ext_base b)) rest"
    and "\<forall>m \<in> set merged. \<forall>r \<in> set rest. ext_limit m \<le> unat (ext_base r)"
  shows "\<exists>fs. coalesce_into merged rest = Some fs \<and> free_wf fs \<and> free_set fs = free_set merged \<union> free_set rest"
  using assms
proof (induction rest arbitrary: merged)
  case Nil
  then show ?case by simp
next
  case (Cons e rest)
  have v: "valid_extent e" using Cons.prems(2) by simp
  have le: "\<forall>r \<in> set rest. ext_limit e \<le> unat (ext_base r)" using Cons.prems(3) by simp
  show ?case
  proof (cases "merged = []")
    case True
    then show ?thesis using Cons.IH[of "[e]"] Cons.prems v by (simp add: free_wf_def)
  next
    case False
    then obtain ms l where m: "merged = ms @ [l]" by (metis append_butlast_last_id)
    have l: "valid_extent l" "ext_limit l \<le> unat (ext_base e)" using Cons.prems(1,4) by (auto simp: m free_wf_append free_wf_Cons)
    note le_l = valid_ext_end[OF l(1)]
    show ?thesis
    proof (cases "ext_limit l = unat (ext_base e)")
      case True
      obtain n where n: "checked_add (ext_size l) (ext_size e) = Some n" "free_wf (ms @ [mk_extent (ext_base l) n])"
        "free_set (ms @ [mk_extent (ext_base l) n]) = free_set (ms @ [l]) \<union> ext_set e"
        "ext_limit (mk_extent (ext_base l) n) = ext_limit e"
        using extend_last[OF Cons.prems(1)[unfolded m] v True] by blast
      have "coalesce_into merged (e # rest) = coalesce_into (ms @ [mk_extent (ext_base l) n]) rest"
        using le_l True n(1) by (simp add: m word_unat_eq_iff)
      moreover have "\<forall>x \<in> set (ms @ [mk_extent (ext_base l) n]). \<forall>r \<in> set rest. ext_limit x \<le> unat (ext_base r)"
        using Cons.prems(4) n(4) le by (auto simp: m)
      moreover have "free_set merged \<union> free_set (e # rest) = free_set (ms @ [mk_extent (ext_base l) n]) \<union> free_set rest"
        unfolding n(3) m by (simp add: Un_assoc)
      ultimately show ?thesis using Cons.IH[OF n(2)] Cons.prems(2,3) by (simp del: coalesce_into.simps free_set_simps)
    next
      case False
      then have lt: "ext_limit l < unat (ext_base e)" using l(2) by simp
      have "\<forall>x \<in> set ms. ext_limit x < unat (ext_base e)"
        using Cons.prems(1) lt valid_limit_less[OF l(1)] by (force simp: m free_wf_append)
      then have wf: "free_wf (merged @ [e])"
        using Cons.prems(1) v lt by (auto simp: m free_wf_def sorted_wrt_append)
      have "coalesce_into merged (e # rest) = coalesce_into (merged @ [e]) rest"
        using le_l False by (simp add: m word_unat_eq_iff)
      moreover have "\<forall>x \<in> set (merged @ [e]). \<forall>r \<in> set rest. ext_limit x \<le> unat (ext_base r)"
        using Cons.prems(4) le by auto
      ultimately show ?thesis using Cons.IH[OF wf] Cons.prems(2,3) by (simp add: Un_assoc)
    qed
  qed
qed

lemma sorted_disjoint:
  assumes "sorted (map ext_base xs)" "distinct xs" "\<forall>x \<in> set xs. valid_extent x"
    and "\<forall>x \<in> set xs. \<forall>y \<in> set xs. x \<noteq> y \<longrightarrow> ext_set x \<inter> ext_set y = {}"
  shows "sorted_wrt (\<lambda>a b. ext_limit a \<le> unat (ext_base b)) xs"
  unfolding sorted_wrt_iff_nth_less
proof (intro allI impI)
  fix i j assume ij: "i < j" "j < length xs"
  let ?x = "xs ! i" and ?y = "xs ! j"
  have v: "valid_extent ?x" "valid_extent ?y" "?x \<in> set xs" "?y \<in> set xs" using assms(3) ij by auto
  have "?x \<noteq> ?y" using assms(2) ij by (simp add: nth_eq_iff_index_eq)
  then have "ext_set ?x \<inter> ext_set ?y = {}" using assms(4) v by blast
  moreover have "unat (ext_base ?x) \<le> unat (ext_base ?y)"
    using assms(1) ij by (simp add: sorted_iff_nth_mono word_le_nat_alt)
  ultimately show "ext_limit ?x \<le> unat (ext_base ?y)"
    using ext_disjoint_iff[OF v(1,2)] valid_limit_less[OF v(2)] by linarith
qed

lemma insert_free_correct:
  assumes "free_wf (pm_free m)" "valid_extent e" "ext_set e \<inter> free_set (pm_free m) = {}"
  shows "\<exists>fs. insert_free_and_coalesce m e = Some (m\<lparr>pm_free := fs\<rparr>) \<and> free_wf fs
    \<and> free_set fs = free_set (pm_free m) \<union> ext_set e"
proof -
  let ?xs = "pm_free m @ [e]"
  have ne: "ext_set e \<inter> ext_set x = {}" if "x \<in> set (pm_free m)" for x
    using assms(3) that by (auto simp: free_set_def)
  have notin: "e \<notin> set (pm_free m)" using ne[of e] ext_set_nonempty[OF assms(2)] by auto
  have valid: "\<forall>x \<in> set ?xs. valid_extent x" using assms(1,2) by (auto simp: free_wf_def)
  have dj: "\<forall>x \<in> set ?xs. \<forall>y \<in> set ?xs. x \<noteq> y \<longrightarrow> ext_set x \<inter> ext_set y = {}"
    using ne free_wf_disjoint[OF assms(1)] by (auto simp: Int_commute)
  have "distinct ?xs" using free_wf_distinct[OF assms(1)] notin by simp
  then have "sorted_wrt (\<lambda>a b. ext_limit a \<le> unat (ext_base b)) (sort_key ext_base ?xs)"
    using valid dj by (intro sorted_disjoint) simp_all
  moreover have "free_set (sort_key ext_base ?xs) = free_set ?xs" by (auto simp: free_set_def)
  ultimately show ?thesis
    using coalesce_into_correct[of "[]" "sort_key ext_base ?xs"] valid
    by (auto simp: insert_free_and_coalesce_def free_wf_def)
qed

section \<open>The manager as an extent pool\<close>

abbreviation pm_inv :: "placement_manager \<Rightarrow> bool" where
  "pm_inv m \<equiv> pool_inv (pm_pool m) (pm_free m) (map_of (pm_allocated m))"

lemma allocate_effect:
  assumes "free_wf (pm_free m)" "allocate m owner n = (Inr e, m')"
  shows "take_effect (pm_free m) (map_of (pm_allocated m)) owner e (pm_free m') (map_of (pm_allocated m'))
    \<and> m' = m\<lparr>pm_free := pm_free m', pm_allocated := btm_insert owner e (pm_allocated m)\<rparr>
    \<and> page_ceil n = Inr (ext_size e) \<and> pm_bounded m = None"
proof -
  from assms(2) obtain sz idx ce se where a: "pm_bounded m = None" "\<not> btm_contains (pm_allocated m) owner"
    "page_ceil n = Inr sz" "position (\<lambda>e. ext_size e \<ge> sz) (pm_free m) = Some idx"
    "ext_end (mk_extent (ext_base (pm_free m ! idx)) sz) = Some ce" "ext_end (pm_free m ! idx) = Some se"
    "e = mk_extent (ext_base (pm_free m ! idx)) sz"
    "m' = m\<lparr>pm_free := (if sz = ext_size (pm_free m ! idx) then vec_remove idx (pm_free m)
          else (pm_free m)[idx := mk_extent ce (se - ce)]), pm_allocated := btm_insert owner e (pm_allocated m)\<rparr>"
    unfolding allocate_def by (auto simp: Let_def split: if_splits sum.splits option.splits)
  note p = position_SomeD[OF a(4)]
  have se: "se = ext_base (pm_free m ! idx) + ext_size (pm_free m ! idx)" "ce = ext_base (pm_free m ! idx) + sz"
    using a(5,6) by (auto simp: ext_end_def dest: checked_add_SomeD)
  have "pm_free m' = (if sz = ext_size (pm_free m ! idx) then vec_remove idx (pm_free m)
     else (pm_free m)[idx := mk_extent (ext_base (pm_free m ! idx) + sz) (ext_size (pm_free m ! idx) - sz)])"
    by (simp add: a(8) se)
  from carve_hole[OF assms(1) _ page_ceil_Inr(2,3)[OF a(3)] _ this] p
  have "free_wf (pm_free m') \<and> valid_extent e \<and> ext_set e \<subseteq> free_set (pm_free m)
      \<and> free_set (pm_free m') = free_set (pm_free m) - ext_set e" by (simp add: a(7))
  then show ?thesis using a(1-3,7,8) by (auto simp: take_effect_def btm_contains_def)
qed

lemma allocate_error: "allocate m owner n = (Inl e, m') \<Longrightarrow> m' = m"
  unfolding allocate_def by (auto simp: Let_def split: if_splits sum.splits option.splits)

lemma release_effect:
  assumes "pm_inv m" "map_of (pm_allocated m) owner = Some e" "owner \<notin> pm_committed m"
  shows "\<exists>fs. release_reservation m owner
      = Some (Inr e, m\<lparr>pm_free := fs, pm_allocated := btm_remove owner (pm_allocated m)\<rparr>)
    \<and> give_effect (pm_free m) (map_of (pm_allocated m)) owner e fs ((map_of (pm_allocated m))(owner := None))"
proof -
  have "free_wf (pm_free m)" "valid_extent e" "ext_set e \<inter> free_set (pm_free m) = {}"
    using assms(1,2) unfolding pool_inv_def by blast+
  then obtain fs where "insert_free_and_coalesce (m\<lparr>pm_allocated := btm_remove owner (pm_allocated m)\<rparr>) e
      = Some (m\<lparr>pm_free := fs, pm_allocated := btm_remove owner (pm_allocated m)\<rparr>)"
    "free_wf fs" "free_set fs = free_set (pm_free m) \<union> ext_set e"
    using insert_free_correct[of "m\<lparr>pm_allocated := btm_remove owner (pm_allocated m)\<rparr>" e] by force
  then show ?thesis using assms(2,3) by (auto simp: release_reservation_def give_effect_def)
qed

lemma release_error:
  assumes "map_of (pm_allocated m) owner = None \<or> owner \<in> pm_committed m"
  shows "\<exists>e. release_reservation m owner = Some (Inl e, m)"
  using assms by (auto simp: release_reservation_def split: option.splits)

lemma btm_remove_insert_fresh: "map_of m k = None \<Longrightarrow> btm_remove k (btm_insert k v m) = m"
proof (induction k v m rule: btm_insert.induct)
  case (1 k v)
  then show ?case by (simp add: btm_remove_def)
next
  case (2 k v k' v' m)
  have "filter (\<lambda>e. fst e \<noteq> k) m = m" using 2(2) by (auto simp: filter_id_conv map_of_eq_None_iff split: if_splits)
  then show ?case using 2 by (auto simp: btm_remove_def split: if_splits)
qed

text \<open>A reservation that is released at once leaves no trace.\<close>

lemma allocate_release:
  assumes "pm_inv m" "allocate m owner n = (Inr e, m')" "owner \<notin> pm_committed m"
  shows "release_reservation m' owner = Some (Inr e, m)"
proof -
  have wf: "free_wf (pm_free m)" using assms(1) by (simp add: pool_inv_def)
  note a = allocate_effect[OF wf assms(2)]
  have inv: "pm_inv m'" using a pool_inv_take[OF assms(1)] by (metis (no_types, lifting) placement_manager.select_convs(1)
      placement_manager.surjective placement_manager.update_convs(2,3))
  have m': "m' = m\<lparr>pm_free := pm_free m', pm_allocated := btm_insert owner e (pm_allocated m)\<rparr>" using a by blast
  have "map_of (pm_allocated m') owner = Some e" "owner \<notin> pm_committed m'"
    by (subst m', simp add: assms(3))+
  from release_effect[OF inv this] obtain fs where r: "release_reservation m' owner
      = Some (Inr e, m'\<lparr>pm_free := fs, pm_allocated := btm_remove owner (pm_allocated m')\<rparr>)"
    "give_effect (pm_free m') (map_of (pm_allocated m')) owner e fs ((map_of (pm_allocated m'))(owner := None))" by blast
  have fresh: "map_of (pm_allocated m) owner = None" using a by (simp add: take_effect_def)
  have "fs = pm_free m"
  proof (rule free_wf_unique)
    show "free_wf fs" "free_wf (pm_free m)" using r(2) wf by (auto simp: give_effect_def)
    show "free_set fs = free_set (pm_free m)" using r(2) a by (auto simp: give_effect_def take_effect_def)
  qed
  moreover have "btm_remove owner (pm_allocated m') = pm_allocated m"
    by (subst m') (simp add: btm_remove_insert_fresh[OF fresh])
  moreover have "m'\<lparr>pm_free := pm_free m, pm_allocated := pm_allocated m\<rparr> = m" by (subst m') simp
  ultimately show ?thesis using r(1) by simp
qed

inductive manager_step :: "placement_manager \<Rightarrow> placement_manager \<Rightarrow> bool" where
  ms_allocate: "allocate m owner n = (r, m') \<Longrightarrow> manager_step m m'"
| ms_release: "release_reservation m owner = Some (r, m') \<Longrightarrow> manager_step m m'"
| ms_release_unplaced: "release_unplaced m fab owner = Some (r, m') \<Longrightarrow> manager_step m m'"
| ms_place: "allocate_and_place_object m fab owner = Some (r, m', fab') \<Longrightarrow> manager_step m m'"

definition manager_init :: "placement_manager \<Rightarrow> bool" where
  "manager_init m \<longleftrightarrow> (\<exists>b n. manager_new b n = Inr m)"

definition committed_ok :: "placement_manager \<Rightarrow> bool" where
  "committed_ok m \<longleftrightarrow> (\<forall>owner \<in> pm_committed m. map_of (pm_allocated m) owner \<noteq> None)"

definition pm_effect :: "placement_manager \<Rightarrow> placement_manager \<Rightarrow> bool" where
  "pm_effect m m' \<longleftrightarrow> pm_pool m' = pm_pool m
     \<and> (pm_free m' = pm_free m \<and> map_of (pm_allocated m') = map_of (pm_allocated m)
        \<or> (\<exists>k e. take_effect (pm_free m) (map_of (pm_allocated m)) k e (pm_free m') (map_of (pm_allocated m')))
        \<or> (\<exists>k e. give_effect (pm_free m) (map_of (pm_allocated m)) k e (pm_free m') (map_of (pm_allocated m'))))"

lemma pm_effect_refl: "pm_effect m m"
  by (simp add: pm_effect_def)

lemma allocate_pm_effect:
  assumes "pm_inv m" "committed_ok m" "allocate m owner n = (r, m')"
  shows "pm_effect m m' \<and> committed_ok m' \<and> pm_committed m' = pm_committed m
    \<and> (\<forall>e. r = Inr e \<longrightarrow> map_of (pm_allocated m') owner = Some e)"
proof (cases r)
  case (Inl e)
  have "m' = m" using allocate_error[OF assms(3)[unfolded Inl]] .
  then show ?thesis using assms(2) Inl by (simp add: pm_effect_refl)
next
  case (Inr e)
  have "free_wf (pm_free m)" using assms(1) by (simp add: pool_inv_def)
  note a = allocate_effect[OF this assms(3)[unfolded Inr]]
  have m': "pm_pool m' = pm_pool m" "pm_committed m' = pm_committed m"
    "map_of (pm_allocated m') = (map_of (pm_allocated m))(owner \<mapsto> e)" by (subst a[THEN conjunct2, THEN conjunct1], simp)+
  then show ?thesis using a assms(2) Inr by (auto simp: pm_effect_def committed_ok_def)
qed

lemma release_pm_effect:
  assumes "pm_inv m" "committed_ok m" "release_reservation m owner = Some (r, m')"
  shows "pm_effect m m' \<and> committed_ok m'"
proof (cases "map_of (pm_allocated m) owner = None \<or> owner \<in> pm_committed m")
  case True
  then show ?thesis using release_error[OF True] assms(2,3) by (auto simp: pm_effect_refl)
next
  case False
  then obtain e where e: "map_of (pm_allocated m) owner = Some e" "owner \<notin> pm_committed m" by auto
  from release_effect[OF assms(1) e] assms(2,3) e(2) show ?thesis
    by (auto simp: pm_effect_def committed_ok_def)
qed

lemma place_pm_effect:
  assumes "pm_inv m" "committed_ok m" "allocate_and_place_object m fab owner = Some (r, m', fab')"
  shows "pm_effect m m' \<and> committed_ok m'"
proof (cases "\<exists>ob e m1. btm_get (fab_objects fab) owner = Some ob \<and> physical_base fab owner = None
    \<and> allocate m owner (obj_size ob) = (Inr e, m1)")
  case False
  then have "m' = m" using assms(3) allocate_error unfolding allocate_and_place_object_def
    by (auto split: option.splits if_splits prod.splits sum.splits)
  then show ?thesis using assms(2) by (simp add: pm_effect_refl)
next
  case True
  then obtain ob e m1 where a: "btm_get (fab_objects fab) owner = Some ob" "physical_base fab owner = None"
    "allocate m owner (obj_size ob) = (Inr e, m1)" by blast
  note al = allocate_pm_effect[OF assms(1,2) a(3)]
  have "free_wf (pm_free m)" using assms(1) by (simp add: pool_inv_def)
  then have "map_of (pm_allocated m) owner = None" using allocate_effect[OF _ a(3)] by (simp add: take_effect_def)
  then have nc: "owner \<notin> pm_committed m" using assms(2) by (auto simp: committed_ok_def)
  obtain b fab1 where p: "place_object fab owner (ext_base e) = (b, fab1)" by fastforce
  show ?thesis
  proof (cases b)
    case True
    then have "m' = m1\<lparr>pm_committed := insert owner (pm_committed m1)\<rparr>"
      using assms(3) a p by (simp add: allocate_and_place_object_def)
    then show ?thesis using al by (auto simp: pm_effect_def committed_ok_def)
  next
    case False
    then have "m' = m" using assms(3) a p allocate_release[OF assms(1) a(3) nc]
      by (simp add: allocate_and_place_object_def)
    then show ?thesis using assms(2) by (simp add: pm_effect_refl)
  qed
qed

lemma manager_step_effect:
  assumes "manager_step m m'" "pm_inv m" "committed_ok m"
  shows "pm_effect m m' \<and> committed_ok m'"
  using assms(1)
proof cases
  case (ms_allocate owner n r)
  then show ?thesis using allocate_pm_effect[OF assms(2,3)] by blast
next
  case (ms_release owner r)
  then show ?thesis using release_pm_effect[OF assms(2,3)] by blast
next
  case (ms_release_unplaced fab owner r)
  show ?thesis
  proof (cases "physical_base fab owner \<noteq> None \<or> \<not> btm_contains (pm_allocated m) owner")
    case True
    then have "m' = m" using ms_release_unplaced by (auto simp: release_unplaced_def split: if_splits)
    then show ?thesis using assms(3) by (simp add: pm_effect_refl)
  next
    case False
    let ?m = "m\<lparr>pm_committed := pm_committed m - {owner}\<rparr>"
    have "release_reservation ?m owner = Some (r, m')" using False ms_release_unplaced by (simp add: release_unplaced_def)
    moreover have "committed_ok ?m" using assms(3) by (simp add: committed_ok_def)
    ultimately show ?thesis using release_pm_effect[of ?m] assms(2) by (simp add: pm_effect_def)
  qed
next
  case (ms_place fab owner r fab')
  then show ?thesis using place_pm_effect[OF assms(2,3)] by blast
qed

lemma manager_new_Inr: "manager_new b n = Inr m \<Longrightarrow> valid_extent (pm_pool m) \<and> pm_free m = [pm_pool m]
    \<and> pm_allocated m = [] \<and> pm_committed m = {} \<and> pm_bounded m = None"
  by (auto simp: manager_new_def Let_def split: if_splits)

interpretation manager_sys: step_system manager_init manager_step "\<lambda>m. pm_inv m \<and> committed_ok m"
proof unfold_locales
  fix m assume "manager_init m"
  then obtain b n where "manager_new b n = Inr m" by (auto simp: manager_init_def)
  note m = manager_new_Inr[OF this]
  then have "map_of (pm_allocated m) = (\<lambda>k. None)" by auto
  then show "pm_inv m \<and> committed_ok m" using m pool_inv_start[of "pm_pool m"] by (simp add: committed_ok_def)
next
  fix m m' assume st: "manager_step m m'" and inv: "pm_inv m \<and> committed_ok m"
  from manager_step_effect[OF st] inv have "pm_effect m m'" "committed_ok m'" by blast+
  then show "pm_inv m' \<and> committed_ok m'" using inv pool_inv_take pool_inv_give unfolding pm_effect_def by metis
qed

section \<open>The virtual layout\<close>

definition layout_wf :: "virtual_layout \<Rightarrow> bool" where
  "layout_wf v \<longleftrightarrow> vl_layout_start v \<le> vl_next v \<and> vl_next v \<le> vl_limit v \<and> is_page_aligned (vl_next v)
     \<and> (\<forall>e \<in> set (vl_regions v). valid_extent e \<and> vl_layout_start v \<le> ext_base e \<and> ext_limit e \<le> unat (vl_next v))
     \<and> sorted_wrt (\<lambda>a b. ext_limit a \<le> unat (ext_base b)) (vl_regions v)"

inductive layout_step :: "virtual_layout \<Rightarrow> virtual_layout \<Rightarrow> bool" where
  ls_reserve: "reserve v n = (r, v') \<Longrightarrow> layout_step v v'"

definition layout_init :: "virtual_layout \<Rightarrow> bool" where
  "layout_init v \<longleftrightarrow> (\<exists>code_base code_size limit. after_image code_base code_size limit = Inr v)"

lemma reserve_wf:
  assumes "layout_wf v" "reserve v n = (r, v')"
  shows "layout_wf v'"
proof (cases r)
  case (Inl e)
  then have "v' = v" using assms(2) by (auto simp: reserve_def Let_def split: if_splits sum.splits option.splits)
  then show ?thesis using assms(1) by simp
next
  case (Inr e)
  then obtain sz "end" where p: "page_ceil n = Inr sz" "checked_add (vl_next v) sz = Some end" "end \<le> vl_limit v"
    "e = mk_extent (vl_next v) sz" "v' = v\<lparr>vl_next := end, vl_regions := vl_regions v @ [e]\<rparr>"
    using assms(2) by (auto simp: reserve_def Let_def split: if_splits sum.splits option.splits)
  have "end": "unat end = unat (vl_next v) + unat sz" using p(2) by (simp add: checked_add_eq_Some)
  have al: "unat (vl_next v) mod 4096 = 0" "unat sz mod 4096 = 0" "0 < unat sz"
    using assms(1) page_ceil_Inr(2,3)[OF p(1)] by (auto simp: layout_wf_def page_aligned_iff unat_gt_0)
  have lt: "unat end < 2 ^ 64" using unsigned_less[of "end"] by simp
  then have v: "valid_extent e" using al by (simp add: valid_extent_iff p(4) "end")
  have "is_page_aligned end" using al by (simp add: page_aligned_iff "end" mod_add_4096)
  moreover have "\<forall>x \<in> set (vl_regions v). ext_limit x \<le> unat (vl_next v)" using assms(1) by (simp add: layout_wf_def)
  ultimately show ?thesis using assms(1) p(3) v "end"
    by (auto simp: layout_wf_def p(4,5) sorted_wrt_append word_le_nat_alt)
qed

lemma after_image_wf:
  assumes "after_image code_base code_size limit = Inr v" shows "layout_wf v"
proof -
  from assms obtain image_end start where "page_ceil image_end = Inr start" "is_page_aligned start" "start \<le> limit"
    "v = \<lparr>vl_layout_start = start, vl_next = start, vl_limit = limit, vl_regions = [], vl_reusable = None\<rparr>"
    unfolding after_image_def by (auto simp: not_less split: option.split_asm sum.split_asm if_split_asm)
  then show ?thesis by (simp add: layout_wf_def)
qed

interpretation layout_sys: step_system layout_init layout_step layout_wf
proof unfold_locales
  fix v assume "layout_init v"
  then show "layout_wf v" using after_image_wf by (auto simp: layout_init_def)
next
  fix v v' assume "layout_step v v'" "layout_wf v"
  then show "layout_wf v'" by cases (rule reserve_wf)
qed

section \<open>Claims\<close>

text \<open>
  C29: whatever sequence of allocations, composed placements and releases a manager has served, its
  free holes and its reservations tile the pool exactly: reservations of different owners share no
  byte, none leaves the pool or touches a hole, and every byte of the pool is accounted for.  A
  release never panics.
\<close>

theorem placement_partition:
  assumes "reachable manager_init manager_step m"
  shows "free_set (pm_free m) \<union> (\<Union> (ext_set ` ran (map_of (pm_allocated m)))) = ext_set (pm_pool m)
    \<and> (\<forall>a b e e'. allocated_extent m a = Some e \<and> allocated_extent m b = Some e' \<and> a \<noteq> b
         \<longrightarrow> ext_set e \<inter> ext_set e' = {})
    \<and> (\<forall>a e. allocated_extent m a = Some e \<longrightarrow> ext_set e \<inter> free_set (pm_free m) = {})
    \<and> (\<forall>owner. release_reservation m owner \<noteq> None)"
proof -
  from manager_sys.invariant_reachable[OF assms] have inv: "pm_inv m" by blast
  have "release_reservation m owner \<noteq> None" for owner
    using release_effect[OF inv] release_error[of m owner] by (cases "map_of (pm_allocated m) owner") force+
  then show ?thesis using inv unfolding pool_inv_def allocated_extent_def by blast
qed

definition small_manager :: placement_manager where
  "small_manager = \<lparr>pm_pool = one_page, pm_free = [one_page], pm_allocated = [], pm_committed = {}, pm_bounded = None\<rparr>"

lemma small_manager_reachable: "reachable manager_init manager_step small_manager"
proof (rule reach_init)
  have "manager_new 0x1000 0x1000 = Inr small_manager"
    by (simp add: manager_new_def small_manager_def claims_eval one_page_def)
  then show "manager_init small_manager" unfolding manager_init_def by blast
qed

definition full_manager :: placement_manager where
  "full_manager = \<lparr>pm_pool = one_page, pm_free = [], pm_allocated = [(ObjectId 1, one_page)], pm_committed = {},
     pm_bounded = None\<rparr>"

lemma full_manager_reachable: "reachable manager_init manager_step full_manager"
proof (rule reach_step[OF small_manager_reachable])
  have "allocate small_manager (ObjectId 1) 8 = (Inr one_page, full_manager)"
    by (simp add: allocate_def small_manager_def full_manager_def claims_eval one_page_def btm_contains_def)
  then show "manager_step small_manager full_manager" by (rule ms_allocate)
qed

theorem placement_partition_witness:
  "free_set (pm_free full_manager) \<union> (\<Union> (ext_set ` ran (map_of (pm_allocated full_manager)))) = ext_set one_page
   \<and> release_reservation full_manager (ObjectId 1) \<noteq> None"
  using placement_partition[OF full_manager_reachable] by (simp add: full_manager_def)

text \<open>
  C30: composed placement is all or nothing.  On a reachable manager it never panics; when it fails,
  the manager and the fabric are exactly what they were, even if the fabric rejected the placement
  after the reservation was made; when it succeeds, the object is placed at the base of a
  page-aligned reservation of its own that covers it.
\<close>

theorem placement_transactional:
  assumes "reachable manager_init manager_step m"
  shows "\<exists>r m' fab'. allocate_and_place_object m fab owner = Some (r, m', fab')
    \<and> (case r of
         Inl _ \<Rightarrow> m' = m \<and> fab' = fab
       | Inr e \<Rightarrow> allocated_extent m' owner = Some e \<and> btm_get (fab_placement fab') owner = Some (ext_base e)
           \<and> (\<exists>ob. btm_get (fab_objects fab) owner = Some ob \<and> obj_size ob \<le> ext_size e)
           \<and> valid_extent e \<and> ext_set e \<subseteq> free_set (pm_free m))"
proof -
  from manager_sys.invariant_reachable[OF assms] have inv: "pm_inv m" "committed_ok m" by blast+
  have wf: "free_wf (pm_free m)" using inv(1) by (simp add: pool_inv_def)
  show ?thesis
  proof (cases "\<exists>ob e m1. btm_get (fab_objects fab) owner = Some ob \<and> physical_base fab owner = None
      \<and> allocate m owner (obj_size ob) = (Inr e, m1)")
    case False
    then show ?thesis using allocate_error unfolding allocate_and_place_object_def
      by (auto split: option.splits if_splits prod.splits sum.splits)
  next
    case True
    then obtain ob e m1 where a: "btm_get (fab_objects fab) owner = Some ob" "physical_base fab owner = None"
      "allocate m owner (obj_size ob) = (Inr e, m1)" by blast
    note al = allocate_effect[OF wf a(3)]
    have nc: "owner \<notin> pm_committed m" using al inv(2) by (auto simp: take_effect_def committed_ok_def)
    show ?thesis
      using a al allocate_release[OF inv(1) a(3) nc] page_ceil_Inr(4)[of "obj_size ob" "ext_size e"]
        place_object_result[of fab owner "ext_base e"]
      by (cases "place_object fab owner (ext_base e)"; cases "fst (place_object fab owner (ext_base e))")
        (auto simp: allocate_and_place_object_def take_effect_def allocated_extent_def)
  qed
qed

definition one_object_fabric :: fabric where
  "one_object_fabric = (from_parts [] one_slot_registry None)\<lparr>fab_objects :=
     [(ObjectId 1, \<lparr>obj_id = ObjectId 1, obj_generation = Generation 0, obj_size = 8, obj_state = Active,
        obj_kind = Memory, obj_name = []\<rparr>)]\<rparr>"

theorem placement_transactional_witness:
  "\<exists>r m' fab'. allocate_and_place_object small_manager one_object_fabric (ObjectId 1) = Some (r, m', fab')
    \<and> (case r of
         Inl _ \<Rightarrow> m' = small_manager \<and> fab' = one_object_fabric
       | Inr e \<Rightarrow> allocated_extent m' (ObjectId 1) = Some e
           \<and> btm_get (fab_placement fab') (ObjectId 1) = Some (ext_base e)
           \<and> (\<exists>ob. btm_get (fab_objects one_object_fabric) (ObjectId 1) = Some ob \<and> obj_size ob \<le> ext_size e)
           \<and> valid_extent e \<and> ext_set e \<subseteq> free_set (pm_free small_manager))"
  using placement_transactional[OF small_manager_reachable, of one_object_fabric "ObjectId 1"] .

text \<open>
  C33: a virtual layout only grows: the regions it has handed out are page-aligned, lie between the
  image and the limit in the order they were reserved, and never overlap.
\<close>

theorem layout_regions_disjoint:
  assumes "reachable layout_init layout_step v"
  shows "vl_next v \<le> vl_limit v \<and> sorted_wrt (\<lambda>a b. ext_limit a \<le> unat (ext_base b)) (vl_regions v)
    \<and> (\<forall>e \<in> set (vl_regions v). valid_extent e \<and> vl_layout_start v \<le> ext_base e \<and> ext_limit e \<le> unat (vl_limit v))"
  using layout_sys.invariant_reachable[OF assms] by (auto simp: layout_wf_def word_le_nat_alt)

definition small_layout :: virtual_layout where
  "small_layout = \<lparr>vl_layout_start = 0x1000, vl_next = 0x1000, vl_limit = 0x2000, vl_regions = [], vl_reusable = None\<rparr>"

theorem layout_regions_disjoint_witness:
  "vl_next (snd (reserve small_layout 8)) \<le> vl_limit (snd (reserve small_layout 8))
   \<and> fst (reserve small_layout 8) = Inr one_page"
proof -
  have "after_image 0 8 0x2000 = Inr small_layout" by (simp add: after_image_def small_layout_def claims_eval)
  then have "layout_init small_layout" unfolding layout_init_def by blast
  then have "reachable layout_init layout_step small_layout" by (rule reach_init)
  then have "reachable layout_init layout_step (snd (reserve small_layout 8))"
    by (rule reach_step) (auto intro: ls_reserve[of _ 8 "fst (reserve small_layout 8)"])
  from layout_regions_disjoint[OF this]
  show ?thesis by (simp add: reserve_def small_layout_def one_page_def claims_eval)
qed

end
