(* ===== verification/Fabric_Auth.thy ===== *)
theory Fabric_Auth
  imports Fabric
begin

text \<open>
  Authority in the fabric (\<open>src/src/anka64/fabric.rs\<close>): validation, granting, exact-identity
  removal, attenuating derivation for memory and device authority, DMA delegation into fresh
  domains, object initialisation and the authorization decision itself.
\<close>

section \<open>Validation\<close>

definition validate :: "fabric \<Rightarrow> capability64 \<Rightarrow> bool" where
  "validate f c =
     (if private_heap_object f (cap_object c) then False
      else case btm_get (fab_objects f) (cap_object c) of
             None \<Rightarrow> False
           | Some ob \<Rightarrow>
               obj_live ob
               \<and> cap_generation c = obj_generation ob
               \<and> cap_length c \<le> obj_size ob
               \<and> cap_offset c \<le> obj_size ob - cap_length c)"

definition stack_owner_differs :: "fabric \<Rightarrow> object_id \<Rightarrow> domain_id \<Rightarrow> bool" where
  "stack_owner_differs f i domain =
     (case btm_get (fab_pointer_stack_objects f) i of None \<Rightarrow> False | Some (_, owner) \<Rightarrow> owner \<noteq> domain)"

definition has_authority_id :: "fabric \<Rightarrow> domain_id \<Rightarrow> authority_id \<Rightarrow> bool" where
  "has_authority_id f domain target =
     (case btm_get (fab_domains f) domain of
        None \<Rightarrow> False
      | Some d \<Rightarrow>
          list_ex (\<lambda>e. ce_authority_id e = Some target) (dom_capabilities d)
          \<or> list_ex (\<lambda>e. da_authority_id e = target) (dom_device_authorities d))"

text \<open>\<open>self.domains.get_mut(domain)?.capabilities.push(...)\<close>.\<close>

definition push_capability :: "fabric \<Rightarrow> domain_id \<Rightarrow> capability64 \<Rightarrow> authority_id option
    \<Rightarrow> capability64 option \<times> fabric" where
  "push_capability f domain c a =
     (case btm_get (fab_domains f) domain of
        None \<Rightarrow> (None, f)
      | Some d \<Rightarrow>
          (Some c, f\<lparr>fab_domains := btm_insert domain
             (d\<lparr>dom_capabilities := dom_capabilities d @ [\<lparr>ce_cap = c, ce_authority_id = a\<rparr>]\<rparr>)
             (fab_domains f)\<rparr>))"

definition push_device_authority :: "fabric \<Rightarrow> domain_id \<Rightarrow> device_authority_entry \<Rightarrow> fabric option" where
  "push_device_authority f domain e =
     (case btm_get (fab_domains f) domain of
        None \<Rightarrow> None
      | Some d \<Rightarrow>
          Some (f\<lparr>fab_domains := btm_insert domain
             (d\<lparr>dom_device_authorities := dom_device_authorities d @ [e]\<rparr>) (fab_domains f)\<rparr>))"

section \<open>Granting\<close>

text \<open>The state rule both grants share: Active refuses EXECUTE, Sealed refuses WRITE, ATOMIC, SEAL.\<close>

definition grant_state_ok :: "object_state \<Rightarrow> permissions \<Rightarrow> bool" where
  "grant_state_ok st perms =
     (case st of
        Active \<Rightarrow> \<not> perm_contains perms EXECUTE
      | Sealed \<Rightarrow> \<not> (perm_contains perms WRITE \<or> perm_contains perms ATOMIC \<or> perm_contains perms SEAL)
      | Revoked \<Rightarrow> False
      | Freed \<Rightarrow> False)"

definition grant :: "fabric \<Rightarrow> domain_id \<Rightarrow> object_id \<Rightarrow> u64 \<Rightarrow> u64 \<Rightarrow> permissions
    \<Rightarrow> capability64 option \<times> fabric" where
  "grant f domain i ofs ln perms =
     (if private_heap_object f i then (None, f)
      else if stack_owner_differs f i domain then (None, f)
      else case btm_get (fab_objects f) i of
        None \<Rightarrow> (None, f)
      | Some ob \<Rightarrow>
          if obj_kind ob \<noteq> Memory then (None, f)
          else if \<not> grant_state_ok (obj_state ob) perms then (None, f)
          else if ln > obj_size ob then (None, f)
          else if ofs > obj_size ob - ln then (None, f)
          else push_capability f domain
                 \<lparr>cap_object = i, cap_generation = obj_generation ob, cap_offset = ofs,
                  cap_length = ln, cap_permissions = perms\<rparr> None)"

definition grant_with_authority_id :: "fabric \<Rightarrow> domain_id \<Rightarrow> object_id \<Rightarrow> u64 \<Rightarrow> u64 \<Rightarrow> permissions
    \<Rightarrow> authority_id \<Rightarrow> capability64 option \<times> fabric" where
  "grant_with_authority_id f domain i ofs ln perms a =
     (if private_heap_object f i then (None, f)
      else if stack_owner_differs f i domain then (None, f)
      else case btm_get (fab_objects f) i of
        None \<Rightarrow> (None, f)
      | Some ob \<Rightarrow>
          if obj_kind ob \<noteq> Memory then (None, f)
          else if has_authority_id f domain a then (None, f)
          else if \<not> grant_state_ok (obj_state ob) perms then (None, f)
          else if ln > obj_size ob then (None, f)
          else if ofs > obj_size ob - ln then (None, f)
          else push_capability f domain
                 \<lparr>cap_object = i, cap_generation = obj_generation ob, cap_offset = ofs,
                  cap_length = ln, cap_permissions = perms\<rparr> (Some a))"

definition remove_by_authority_id :: "fabric \<Rightarrow> domain_id \<Rightarrow> authority_id \<Rightarrow> bool \<times> fabric" where
  "remove_by_authority_id f domain target =
     (case btm_get (fab_domains f) domain of
        None \<Rightarrow> (False, f)
      | Some d \<Rightarrow>
         (case position (\<lambda>e. ce_authority_id e = Some target) (dom_capabilities d) of
            Some pos \<Rightarrow>
              (True, f\<lparr>fab_domains := btm_insert domain
                 (d\<lparr>dom_capabilities := vec_remove pos (dom_capabilities d)\<rparr>) (fab_domains f)\<rparr>)
          | None \<Rightarrow>
             (case position (\<lambda>e. da_authority_id e = target) (dom_device_authorities d) of
                Some pos \<Rightarrow>
                  (True, f\<lparr>fab_domains := btm_insert domain
                     (d\<lparr>dom_device_authorities := vec_remove pos (dom_device_authorities d)\<rparr>)
                     (fab_domains f)\<rparr>)
              | None \<Rightarrow> (False, f))))"

section \<open>Derivation\<close>

definition derive_from_authority_id :: "fabric \<Rightarrow> domain_id \<Rightarrow> authority_id \<Rightarrow> domain_id \<Rightarrow> u64 \<Rightarrow> u64
    \<Rightarrow> permissions \<Rightarrow> authority_id \<Rightarrow> capability64 option \<times> fabric" where
  "derive_from_authority_id f src_domain source_authority_id dst_domain child_offset child_length
     child_perms new_authority_id =
     (case btm_get (fab_domains f) src_domain of
        None \<Rightarrow> (None, f)
      | Some d \<Rightarrow>
         (case find (\<lambda>e. ce_authority_id e = Some source_authority_id) (dom_capabilities d) of
            None \<Rightarrow> (None, f)
          | Some e \<Rightarrow>
              let parent = ce_cap e in
              if stack_owner_differs f (cap_object parent) dst_domain then (None, f)
              else case btm_get (fab_objects f) (cap_object parent) of
                None \<Rightarrow> (None, f)
              | Some ob \<Rightarrow>
                  if obj_kind ob \<noteq> Memory then (None, f)
                  else if \<not> validate f parent then (None, f)
                  else if \<not> perm_is_subset_of child_perms (cap_permissions parent) then (None, f)
                  else if child_length = 0 then (None, f)
                  else if child_offset < cap_offset parent then (None, f)
                  else if child_length > cap_length parent then (None, f)
                  else if child_offset - cap_offset parent > cap_length parent - child_length then (None, f)
                  else if has_authority_id f dst_domain new_authority_id then (None, f)
                  else push_capability f dst_domain
                         \<lparr>cap_object = cap_object parent, cap_generation = cap_generation parent,
                          cap_offset = child_offset, cap_length = child_length,
                          cap_permissions = child_perms\<rparr> (Some new_authority_id)))"

definition derive_device_from_authority_id :: "fabric \<Rightarrow> domain_id \<Rightarrow> authority_id \<Rightarrow> object_id
    \<Rightarrow> generation \<Rightarrow> device_rights \<Rightarrow> domain_id \<Rightarrow> device_rights \<Rightarrow> authority_id
    \<Rightarrow> (object_id \<times> generation \<times> device_rights) option \<times> fabric" where
  "derive_device_from_authority_id f src_domain source_authority_id expected_object
     expected_generation exact_source_rights dst_domain child_rights new_authority_id =
     (case btm_get (fab_domains f) src_domain of
        None \<Rightarrow> (None, f)
      | Some d \<Rightarrow>
         (case find (\<lambda>e. da_authority_id e = source_authority_id) (dom_device_authorities d) of
            None \<Rightarrow> (None, f)
          | Some e \<Rightarrow>
              if da_object e \<noteq> expected_object then (None, f)
              else if da_generation e \<noteq> expected_generation then (None, f)
              else if da_rights e \<noteq> exact_source_rights then (None, f)
              else case btm_get (fab_objects f) expected_object of
                None \<Rightarrow> (None, f)
              | Some ob \<Rightarrow>
                  if obj_kind ob \<noteq> Device then (None, f)
                  else if obj_state ob \<noteq> Active then (None, f)
                  else if obj_generation ob \<noteq> expected_generation then (None, f)
                  else if \<not> dev_is_subset_of child_rights exact_source_rights then (None, f)
                  else if has_authority_id f dst_domain new_authority_id then (None, f)
                  else case push_device_authority f dst_domain
                         \<lparr>da_object = expected_object, da_generation = expected_generation,
                          da_rights = child_rights, da_authority_id = new_authority_id\<rparr> of
                    None \<Rightarrow> (None, f)
                  | Some f' \<Rightarrow> (Some (expected_object, expected_generation, child_rights), f')))"

definition derive :: "fabric \<Rightarrow> domain_id \<Rightarrow> capability64 \<Rightarrow> u64 \<Rightarrow> u64 \<Rightarrow> permissions
    \<Rightarrow> capability64 option \<times> fabric" where
  "derive f domain parent child_offset child_length child_perms =
     (if stack_owner_differs f (cap_object parent) domain then (None, f)
      else case btm_get (fab_objects f) (cap_object parent) of
        None \<Rightarrow> (None, f)
      | Some ob \<Rightarrow>
          if obj_kind ob \<noteq> Memory then (None, f)
          else if \<not> validate f parent then (None, f)
          else if \<not> perm_is_subset_of child_perms (cap_permissions parent) then (None, f)
          else if child_offset < cap_offset parent then (None, f)
          else if child_length > cap_length parent then (None, f)
          else if child_offset - cap_offset parent > cap_length parent - child_length then (None, f)
          else push_capability f domain
                 \<lparr>cap_object = cap_object parent, cap_generation = cap_generation parent,
                  cap_offset = child_offset, cap_length = child_length,
                  cap_permissions = child_perms\<rparr> None)"

section \<open>Delegation\<close>

definition find_authorizing_cap :: "fabric \<Rightarrow> domain_id \<Rightarrow> object_id \<Rightarrow> u64 \<Rightarrow> u64 \<Rightarrow> permissions
    \<Rightarrow> capability64 option" where
  "find_authorizing_cap f domain i ofs ln required =
     (case btm_get (fab_domains f) domain of
        None \<Rightarrow> None
      | Some d \<Rightarrow> find (\<lambda>c. validate f c \<and> cap_covers c i ofs ln required) (map ce_cap (dom_capabilities d)))"

text \<open>The fresh DMA domain both delegations create: derive into it, or destroy it again.\<close>

definition delegate_into_fresh_domain :: "fabric \<Rightarrow> capability64 \<Rightarrow> u64 \<Rightarrow> u64 \<Rightarrow> permissions
    \<Rightarrow> domain_id option \<times> fabric" where
  "delegate_into_fresh_domain f parent ofs ln perms =
     (let (dma_domain, f1) = create_domain f;
          (r, f2) = derive f1 dma_domain parent ofs ln perms
      in if r = None then (None, destroy_domain f2 dma_domain) else (Some dma_domain, f2))"

definition delegate_dma_span :: "fabric \<Rightarrow> domain_id \<Rightarrow> object_id \<Rightarrow> u64 \<Rightarrow> u64 \<Rightarrow> permissions
    \<Rightarrow> domain_id option \<times> fabric" where
  "delegate_dma_span f source_domain i ofs ln perms =
     (if btm_contains (fab_pointer_stack_objects f) i then (None, f)
      else case btm_get (fab_objects f) i of
        None \<Rightarrow> (None, f)
      | Some ob \<Rightarrow>
          if obj_kind ob \<noteq> Memory then (None, f)
          else case find_authorizing_cap f source_domain i ofs ln perms of
            None \<Rightarrow> (None, f)
          | Some parent \<Rightarrow> delegate_into_fresh_domain f parent ofs ln perms)"

definition delegate_dma_span_from_authority_id :: "fabric \<Rightarrow> domain_id \<Rightarrow> authority_id \<Rightarrow> object_id
    \<Rightarrow> u64 \<Rightarrow> u64 \<Rightarrow> permissions \<Rightarrow> domain_id option \<times> fabric" where
  "delegate_dma_span_from_authority_id f source_domain source_authority_id i ofs ln perms =
     (if btm_contains (fab_pointer_stack_objects f) i then (None, f)
      else case btm_get (fab_domains f) source_domain of
        None \<Rightarrow> (None, f)
      | Some d \<Rightarrow>
         (case find (\<lambda>e. ce_authority_id e = Some source_authority_id) (dom_capabilities d) of
            None \<Rightarrow> (None, f)
          | Some e \<Rightarrow>
              let parent = ce_cap e in
              if cap_object parent \<noteq> i then (None, f)
              else case btm_get (fab_objects f) i of
                None \<Rightarrow> (None, f)
              | Some ob \<Rightarrow>
                  if obj_kind ob \<noteq> Memory then (None, f)
                  else if cap_generation parent \<noteq> obj_generation ob then (None, f)
                  else if \<not> validate f parent then (None, f)
                  else if \<not> cap_covers parent i ofs ln perms then (None, f)
                  else delegate_into_fresh_domain f parent ofs ln perms))"

section \<open>Device authority\<close>

definition grant_device_with_authority_id :: "fabric \<Rightarrow> domain_id \<Rightarrow> object_id \<Rightarrow> device_rights
    \<Rightarrow> authority_id \<Rightarrow> bool \<times> fabric" where
  "grant_device_with_authority_id f domain i rights a =
     (if private_heap_object f i then (False, f)
      else case btm_get (fab_objects f) i of
        None \<Rightarrow> (False, f)
      | Some ob \<Rightarrow>
          if obj_kind ob \<noteq> Device then (False, f)
          else if obj_state ob \<noteq> Active then (False, f)
          else if has_authority_id f domain a then (False, f)
          else case push_device_authority f domain
                 \<lparr>da_object = i, da_generation = obj_generation ob, da_rights = rights,
                  da_authority_id = a\<rparr> of
            None \<Rightarrow> (False, f)
          | Some f' \<Rightarrow> (True, f'))"

definition validate_device_authority :: "fabric \<Rightarrow> domain_id \<Rightarrow> authority_id \<Rightarrow> object_id \<Rightarrow> generation
    \<Rightarrow> device_rights \<Rightarrow> device_rights \<Rightarrow> bool" where
  "validate_device_authority f domain a expected_object expected_generation exact_slot_rights
     required_rights =
     (if private_heap_object f expected_object then False
      else case btm_get (fab_domains f) domain of
        None \<Rightarrow> False
      | Some d \<Rightarrow>
         (case find (\<lambda>e. da_authority_id e = a) (dom_device_authorities d) of
            None \<Rightarrow> False
          | Some e \<Rightarrow>
              if da_object e \<noteq> expected_object then False
              else if da_generation e \<noteq> expected_generation then False
              else if da_rights e \<noteq> exact_slot_rights then False
              else if \<not> dev_contains exact_slot_rights required_rights then False
              else case btm_get (fab_objects f) expected_object of
                None \<Rightarrow> False
              | Some ob \<Rightarrow> obj_kind ob = Device \<and> obj_generation ob = expected_generation))"

section \<open>Initialisation and authorization\<close>

definition initialize_object :: "fabric \<Rightarrow> object_id \<Rightarrow> u64 \<Rightarrow> u8 list \<Rightarrow> bool \<times> fabric" where
  "initialize_object f i ofs data =
     (if private_heap_object f i then (False, f)
      else case btm_get (fab_objects f) i of
        None \<Rightarrow> (False, f)
      | Some ob \<Rightarrow>
          if obj_state ob \<noteq> Active then (False, f)
          else let ln = of_nat (length data) in
          if ln > obj_size ob then (False, f)
          else if ofs > obj_size ob - ln then (False, f)
          else case btm_get (fab_placement f) i of
            None \<Rightarrow> (False, f)
          | Some phys_base \<Rightarrow>
             (case checked_add phys_base ofs of
                None \<Rightarrow> (False, f)
              | Some base \<Rightarrow>
                  if length (fab_memory f) < unat base + length data then (False, f)
                  else if heap_pool_overlaps f base ln then (False, f)
                  else let f' = clear_pointer_cells_physical f base ln in
                       (True, f'\<lparr>fab_memory := copy_at (unat base) data (fab_memory f')\<rparr>)))"

datatype auth_result = AuthAuthorized generation | AuthDenied fault_reason

text \<open>The loop over the domain's entries: a covering valid entry authorizes, a covering invalid one
  marks the attempt stale.\<close>

fun authorize_loop :: "fabric \<Rightarrow> memory_request \<Rightarrow> capability_entry list \<Rightarrow> bool \<Rightarrow> generation option \<times> bool" where
  "authorize_loop f r [] stale = (None, stale)"
| "authorize_loop f r (e # es) stale =
     (if cap_covers (ce_cap e) (req_object r) (req_offset r) (req_length r) (required_permission (req_kind r))
      then if validate f (ce_cap e) then (Some (cap_generation (ce_cap e)), stale)
           else authorize_loop f r es True
      else authorize_loop f r es stale)"

definition stack_access_denied :: "fabric \<Rightarrow> memory_request \<Rightarrow> bool" where
  "stack_access_denied f r =
     (case btm_get (fab_pointer_stack_objects f) (req_object r) of
        None \<Rightarrow> False
      | Some (_, owner) \<Rightarrow>
          owner \<noteq> ctx_domain (req_context r)
          \<or> \<not> (case btm_get (fab_agents f) (ctx_agent (req_context r)) of
                 None \<Rightarrow> False
               | Some a \<Rightarrow> agent_domain a = owner \<and> is_cpu (agent_kind a)))"

definition authorize :: "fabric \<Rightarrow> memory_request \<Rightarrow> auth_result" where
  "authorize f r =
     (if stack_access_denied f r then AuthDenied WrongPermission
      else case btm_get (fab_domains f) (ctx_domain (req_context r)) of
        None \<Rightarrow> AuthDenied NoCapability
      | Some d \<Rightarrow>
         (case authorize_loop f r (dom_capabilities d) False of
            (Some g, _) \<Rightarrow> AuthAuthorized g
          | (None, stale) \<Rightarrow>
              AuthDenied
                (if stale then StaleGeneration
                 else if list_ex (\<lambda>e. cap_object (ce_cap e) = req_object r \<and> validate f (ce_cap e))
                           (dom_capabilities d)
                 then WrongPermission else NoCapability)))"

definition translate :: "fabric \<Rightarrow> object_id \<Rightarrow> u64 \<Rightarrow> u64 option" where
  "translate f i ofs =
     (if private_heap_object f i then None
      else case btm_get (fab_placement f) i of
        None \<Rightarrow> None
      | Some base \<Rightarrow>
         (case checked_add base ofs of
            None \<Rightarrow> None
          | Some physical \<Rightarrow> if heap_pool_overlaps f physical 1 then None else Some physical))"

end
