(* ===== verification/Fabric_Tx.thy ===== *)
theory Fabric_Tx
  imports Fabric_Auth
begin

text \<open>
  The transaction pipeline of \<open>src/src/anka64/fabric.rs\<close>: submit, the three phases, the precommit
  gate, faulting, the deterministic scheduler, the complete read, write and exchange transactions
  the cores execute, and the physical accessors.  Indexing \<open>transactions\<close> out of range panics in
  the source and is \<open>None\<close> here; so is the \<open>unreachable!\<close> after three advances.
\<close>

section \<open>Submitting and faulting\<close>

definition fault_record_of :: "transaction \<Rightarrow> fault_reason \<Rightarrow> fault_record" where
  "fault_record_of tx reason =
     \<lparr>fr_agent = ctx_agent (req_context (tx_request tx)),
      fr_domain = ctx_domain (req_context (tx_request tx)),
      fr_privilege = ctx_privilege (req_context (tx_request tx)),
      fr_transaction = tx_id tx, fr_object = req_object (tx_request tx),
      fr_generation = tx_auth_generation tx, fr_offset = req_offset (tx_request tx),
      fr_width = req_width (tx_request tx), fr_length = req_length (tx_request tx),
      fr_kind = req_kind (tx_request tx), fr_pc = None, fr_reason = reason\<rparr>"

definition set_tx :: "fabric \<Rightarrow> nat \<Rightarrow> transaction \<Rightarrow> fabric" where
  "set_tx f idx tx = f\<lparr>fab_transactions := (fab_transactions f)[idx := tx]\<rparr>"

definition fault_transaction :: "fabric \<Rightarrow> nat \<Rightarrow> fault_reason \<Rightarrow> fabric" where
  "fault_transaction f idx reason =
     (let tx = (fab_transactions f) ! idx;
          record = fault_record_of tx reason;
          f' = set_tx f idx (tx\<lparr>tx_state := Faulted, tx_fault := Some record\<rparr>)
      in f'\<lparr>fab_fault_log := fab_fault_log f' @ [record]\<rparr>)"

definition submit :: "fabric \<Rightarrow> memory_request \<Rightarrow> u8 list option \<Rightarrow> nat \<times> fabric" where
  "submit f request write_data =
     (let i = TransactionId (fab_next_tx_id f);
          invalid_span = (req_length request = 0 \<or> checked_add (req_offset request) (req_length request) = None);
          tx = \<lparr>tx_id = i, tx_request = request, tx_state = Requested, tx_auth_generation = None,
                tx_physical_address = None, tx_write_data = write_data, tx_read_data = None,
                tx_fault = None\<rparr>;
          f1 = f\<lparr>fab_next_tx_id := fab_next_tx_id f + 1, fab_transactions := fab_transactions f @ [tx]\<rparr>;
          idx = length (fab_transactions f1) - 1
      in (idx, if invalid_span then fault_transaction f1 idx InvalidSpan else f1))"

section \<open>Phases\<close>

definition phase_authorize :: "fabric \<Rightarrow> nat \<Rightarrow> fabric" where
  "phase_authorize f idx =
     (let tx = fab_transactions f ! idx in
      case authorize f (tx_request tx) of
        AuthAuthorized g \<Rightarrow> set_tx f idx (tx\<lparr>tx_auth_generation := Some g, tx_state := Authorized\<rparr>)
      | AuthDenied reason \<Rightarrow> fault_transaction f idx reason)"

definition phase_translate :: "fabric \<Rightarrow> nat \<Rightarrow> fabric" where
  "phase_translate f idx =
     (let tx = fab_transactions f ! idx in
      case translate f (req_object (tx_request tx)) (req_offset (tx_request tx)) of
        Some phys \<Rightarrow> set_tx f idx (tx\<lparr>tx_physical_address := Some phys, tx_state := Prepared\<rparr>)
      | None \<Rightarrow> fault_transaction f idx TranslationFault)"

text \<open>The gate answers the span to touch, or the reason to fault with.\<close>

definition precommit_check :: "fabric \<Rightarrow> transaction \<Rightarrow> fault_reason + nat \<times> nat" where
  "precommit_check f tx =
     (let request = tx_request tx in
      case authorize f request of
        AuthDenied reason \<Rightarrow> Inl reason
      | AuthAuthorized _ \<Rightarrow>
         (case tx_physical_address tx of
            None \<Rightarrow> Inl TranslationFault
          | Some phys \<Rightarrow>
             (case checked_add phys (req_length request) of
                None \<Rightarrow> Inl InvalidSpan
              | Some phys_end \<Rightarrow>
                  if length (fab_memory f) < unat phys_end then Inl InvalidSpan
                  else if heap_pool_overlaps f phys (req_length request) then Inl TranslationFault
                  else if req_kind request = Write \<or> req_kind request = Atomic
                  then case tx_write_data tx of
                         Some data \<Rightarrow>
                           if length data = unat (req_length request)
                           then Inr (unat phys, unat phys_end) else Inl LengthMismatch
                       | None \<Rightarrow> Inl LengthMismatch
                  else Inr (unat phys, unat phys_end))))"

definition validate_precommit :: "fabric \<Rightarrow> nat \<Rightarrow> (unit + nat \<times> nat) \<times> fabric" where
  "validate_precommit f idx =
     (case precommit_check f (fab_transactions f ! idx) of
        Inl reason \<Rightarrow> (Inl (), fault_transaction f idx reason)
      | Inr sp \<Rightarrow> (Inr sp, f))"

text \<open>\<open>write_data.as_ref().unwrap()\<close> after the gate.\<close>

definition tx_payload :: "transaction \<Rightarrow> u8 list" where
  "tx_payload tx = (case tx_write_data tx of Some data \<Rightarrow> data | None \<Rightarrow> [])"

definition commit_bytes :: "fabric \<Rightarrow> nat \<Rightarrow> nat \<Rightarrow> u8 list \<Rightarrow> fabric" where
  "commit_bytes f base end data =
     (let f' = clear_pointer_cells_physical f (of_nat base) (of_nat (end - base)) in
      f'\<lparr>fab_memory := copy_at base data (fab_memory f')\<rparr>)"

definition phase_commit :: "fabric \<Rightarrow> nat \<Rightarrow> fabric" where
  "phase_commit f idx =
     (case validate_precommit f idx of
        (Inl _, f') \<Rightarrow> f'
      | (Inr (base, end), f') \<Rightarrow>
          let tx = fab_transactions f' ! idx in
          if req_kind (tx_request tx) = Write \<or> req_kind (tx_request tx) = Atomic
          then set_tx (commit_bytes f' base end (tx_payload tx)) idx (tx\<lparr>tx_state := Committed\<rparr>)
          else set_tx f' idx (tx\<lparr>tx_read_data := Some (slice base (end - base) (fab_memory f')),
                                tx_state := Committed\<rparr>))"

definition advance :: "fabric \<Rightarrow> nat \<Rightarrow> fabric option" where
  "advance f idx =
     (if length (fab_transactions f) \<le> idx then None
      else Some (case tx_state (fab_transactions f ! idx) of
                   Requested \<Rightarrow> phase_authorize f idx
                 | Authorized \<Rightarrow> phase_translate f idx
                 | Prepared \<Rightarrow> phase_commit f idx
                 | Committed \<Rightarrow> f
                 | Faulted \<Rightarrow> f))"

fun run_event :: "fabric \<Rightarrow> event \<Rightarrow> fabric option" where
  "run_event f (Advance idx) = advance f idx"
| "run_event f (Revoke i) = Some (revoke f i)"
| "run_event f (Move i base) = Some (snd (move_object f i base))"

fun run_schedule :: "fabric \<Rightarrow> event list \<Rightarrow> fabric option" where
  "run_schedule f [] = Some f"
| "run_schedule f (e # es) = (case run_event f e of None \<Rightarrow> None | Some f' \<Rightarrow> run_schedule f' es)"

section \<open>Complete transactions\<close>

definition advance3 :: "fabric \<Rightarrow> nat \<Rightarrow> fabric option" where
  "advance3 f idx = run_schedule f [Advance idx, Advance idx, Advance idx]"

definition execute_read :: "fabric \<Rightarrow> memory_request \<Rightarrow> ((fault_record + u8 list) \<times> fabric) option" where
  "execute_read f request =
     (let (idx, f0) = submit f request None in
      case advance3 f0 idx of
        None \<Rightarrow> None
      | Some f' \<Rightarrow>
          let tx = fab_transactions f' ! idx in
          (case tx_state tx of
             Committed \<Rightarrow> (case tx_read_data tx of None \<Rightarrow> None | Some data \<Rightarrow> Some (Inr data, f'))
           | Faulted \<Rightarrow> (case tx_fault tx of None \<Rightarrow> None | Some fr \<Rightarrow> Some (Inl fr, f'))
           | _ \<Rightarrow> None))"

definition execute_write :: "fabric \<Rightarrow> memory_request \<Rightarrow> u8 list \<Rightarrow> ((fault_record + unit) \<times> fabric) option" where
  "execute_write f request data =
     (let (idx, f0) = submit f request (Some data) in
      case advance3 f0 idx of
        None \<Rightarrow> None
      | Some f' \<Rightarrow>
          let tx = fab_transactions f' ! idx in
          (case tx_state tx of
             Committed \<Rightarrow> Some (Inr (), f')
           | Faulted \<Rightarrow> (case tx_fault tx of None \<Rightarrow> None | Some fr \<Rightarrow> Some (Inl fr, f'))
           | _ \<Rightarrow> None))"

text \<open>\<open>copy_from_slice\<close> panics when the payload has another length than the span; the gate checks the
  length for writing kinds only.\<close>

definition execute_atomic_xchg :: "fabric \<Rightarrow> memory_request \<Rightarrow> u8 list
    \<Rightarrow> ((fault_record + u8 list) \<times> fabric) option" where
  "execute_atomic_xchg f request new_value =
     (let (idx, f0) = submit f request (Some new_value) in
      case run_schedule f0 [Advance idx, Advance idx] of
        None \<Rightarrow> None
      | Some f1 \<Rightarrow>
          if tx_state (fab_transactions f1 ! idx) = Faulted
          then (case tx_fault (fab_transactions f1 ! idx) of None \<Rightarrow> None | Some fr \<Rightarrow> Some (Inl fr, f1))
          else case validate_precommit f1 idx of
            (Inl _, f2) \<Rightarrow>
              (case tx_fault (fab_transactions f2 ! idx) of None \<Rightarrow> None | Some fr \<Rightarrow> Some (Inl fr, f2))
          | (Inr (base, end), f2) \<Rightarrow>
              let tx = fab_transactions f2 ! idx;
                  old_value = slice base (end - base) (fab_memory f2)
              in if length (tx_payload tx) \<noteq> end - base then None
                 else Some (Inr old_value,
                       set_tx (commit_bytes f2 base end (tx_payload tx)) idx (tx\<lparr>tx_state := Committed\<rparr>)))"

section \<open>Observation and physical access\<close>

definition compiler_provenance_quiescent :: "fabric \<Rightarrow> bool" where
  "compiler_provenance_quiescent f \<longleftrightarrow> list_all (\<lambda>tx. tx_is_terminal (tx_state tx)) (fab_transactions f)"

definition compiler_trace_safe :: "fabric \<Rightarrow> object_id \<Rightarrow> bool" where
  "compiler_trace_safe f out \<longleftrightarrow>
     list_all (\<lambda>tx. tx_is_terminal (tx_state tx)
       \<and> \<not> (req_object (tx_request tx) = out \<and> req_kind (tx_request tx) = Fetch)) (fab_transactions f)"

definition discard_completed_compiler_trace :: "fabric \<Rightarrow> bool \<times> fabric" where
  "discard_completed_compiler_trace f =
     (if list_ex (\<lambda>tx. \<not> tx_is_terminal (tx_state tx)) (fab_transactions f) then (False, f)
      else (True, f\<lparr>fab_transactions := []\<rparr>))"

text \<open>
  The trace collectors drop the terminal history and the fault log.  What they answer depends on the
  capacities the two vectors have kept, which are arguments here.
\<close>

definition collect_admitted_compiler_trace :: "nat \<Rightarrow> nat \<Rightarrow> fabric \<Rightarrow> bool \<times> fabric" where
  "collect_admitted_compiler_trace tx_capacity log_capacity f =
     (case discard_completed_compiler_trace f of
        (False, f') \<Rightarrow> (False, f')
      | (True, f') \<Rightarrow> (tx_capacity \<le> 4096 \<and> log_capacity \<le> 128, f'\<lparr>fab_fault_log := []\<rparr>))"

definition collect_application_run_trace :: "nat \<Rightarrow> nat \<Rightarrow> fabric \<Rightarrow> nat \<Rightarrow> bool \<times> fabric" where
  "collect_application_run_trace tx_capacity log_capacity f capacity =
     (case discard_completed_compiler_trace f of
        (False, f') \<Rightarrow> (False, f')
      | (True, f') \<Rightarrow> (tx_capacity \<le> capacity \<and> log_capacity \<le> 1, f'\<lparr>fab_fault_log := []\<rparr>))"

text \<open>
  \<open>reserved\<close> is whether both reservations succeeded; \<open>None\<close> stands for \<open>Err(())\<close>.
\<close>

definition prepare_preprocessor_trace :: "nat \<Rightarrow> nat \<Rightarrow> bool \<Rightarrow> fabric \<Rightarrow> nat \<Rightarrow> unit option \<times> fabric" where
  "prepare_preprocessor_trace tx_capacity log_capacity reserved f capacity =
     (case discard_completed_compiler_trace f of
        (False, f') \<Rightarrow> (None, f')
      | (True, f') \<Rightarrow>
          if fab_fault_log f' \<noteq> [] then (None, f')
          else if \<not> reserved then (None, f')
          else if tx_capacity > capacity \<or> log_capacity > 1 then (None, f')
          else (Some (), f'))"

definition try_read_physical :: "fabric \<Rightarrow> u64 \<Rightarrow> u64 \<Rightarrow> u8 list option" where
  "try_read_physical f addr ln =
     (if heap_pool_overlaps f addr ln then None
      else case checked_add addr ln of
        None \<Rightarrow> None
      | Some end \<Rightarrow>
          if unat end \<le> length (fab_memory f) then Some (slice (unat addr) (unat ln) (fab_memory f)) else None)"

definition read_physical :: "fabric \<Rightarrow> u64 \<Rightarrow> u64 \<Rightarrow> u8 list option" where
  "read_physical f addr ln = try_read_physical f addr ln"

definition try_write_physical :: "fabric \<Rightarrow> u64 \<Rightarrow> u8 list \<Rightarrow> bool \<times> fabric" where
  "try_write_physical f addr data =
     (if heap_pool_overlaps f addr (of_nat (length data)) then (False, f)
      else if length (fab_memory f) < unat addr + length data then (False, f)
      else let f' = clear_pointer_cells_physical f addr (of_nat (length data)) in
           (True, f'\<lparr>fab_memory := copy_at (unat addr) data (fab_memory f')\<rparr>))"

definition write_physical :: "fabric \<Rightarrow> u64 \<Rightarrow> u8 list \<Rightarrow> fabric option" where
  "write_physical f addr data =
     (case try_write_physical f addr data of (True, f') \<Rightarrow> Some f' | (False, _) \<Rightarrow> None)"

definition mk_request :: "agent_id \<Rightarrow> domain_id \<Rightarrow> object_id \<Rightarrow> u64 \<Rightarrow> width \<Rightarrow> access_kind \<Rightarrow> memory_request" where
  "mk_request agent domain i ofs w kind =
     \<lparr>req_context = \<lparr>ctx_agent = agent, ctx_domain = domain, ctx_privilege = User\<rparr>,
      req_object = i, req_offset = ofs, req_width = w, req_length = width_bytes w, req_kind = kind\<rparr>"

definition dma_request :: "agent_id \<Rightarrow> domain_id \<Rightarrow> object_id \<Rightarrow> u64 \<Rightarrow> u64 \<Rightarrow> access_kind \<Rightarrow> memory_request" where
  "dma_request agent domain i ofs ln kind =
     \<lparr>req_context = \<lparr>ctx_agent = agent, ctx_domain = domain, ctx_privilege = User\<rparr>,
      req_object = i, req_offset = ofs, req_width = Byte, req_length = ln, req_kind = kind\<rparr>"

end
