(* ===== verification/Fabric_Exec.thy ===== *)
theory Fabric_Exec
  imports Fabric_Tx
begin

text \<open>
  What a complete transaction does.  The source drives every access through three phases on a
  transaction record; \<open>one_shot\<close> says in one step which span is touched or which fault is raised,
  and the refinement theorems of this theory show that \<open>execute_read\<close>, \<open>execute_write\<close> and
  \<open>execute_atomic_xchg\<close> compute exactly that, always finish, and change nothing but the record of
  the transaction when they fault.
\<close>

section \<open>The reference\<close>

definition one_shot :: "fabric \<Rightarrow> memory_request \<Rightarrow> u8 list option \<Rightarrow> fault_reason + nat \<times> nat" where
  "one_shot f r data =
     (if req_length r = 0 \<or> checked_add (req_offset r) (req_length r) = None then Inl InvalidSpan
      else case authorize f r of
        AuthDenied reason \<Rightarrow> Inl reason
      | AuthAuthorized _ \<Rightarrow>
         (case translate f (req_object r) (req_offset r) of
            None \<Rightarrow> Inl TranslationFault
          | Some phys \<Rightarrow>
             (case checked_add phys (req_length r) of
                None \<Rightarrow> Inl InvalidSpan
              | Some phys_end \<Rightarrow>
                  if length (fab_memory f) < unat phys_end then Inl InvalidSpan
                  else if heap_pool_overlaps f phys (req_length r) then Inl TranslationFault
                  else if (req_kind r = Write \<or> req_kind r = Atomic)
                          \<and> map_option length data \<noteq> Some (unat (req_length r))
                  then Inl LengthMismatch
                  else Inr (unat phys, unat phys_end))))"

section \<open>Framing\<close>

definition with_tx :: "fabric \<Rightarrow> transaction \<Rightarrow> fault_record list \<Rightarrow> fabric" where
  "with_tx f tx log = f\<lparr>fab_next_tx_id := fab_next_tx_id f + 1,
     fab_transactions := fab_transactions f @ [tx], fab_fault_log := fab_fault_log f @ log\<rparr>"

lemma with_tx_sel [simp]:
  "fab_scoped_pointers (with_tx f tx log) = fab_scoped_pointers f"
  "fab_pointer_stack_objects (with_tx f tx log) = fab_pointer_stack_objects f"
  "fab_pointer_cells (with_tx f tx log) = fab_pointer_cells f"
  "fab_objects (with_tx f tx log) = fab_objects f" "fab_domains (with_tx f tx log) = fab_domains f"
  "fab_agents (with_tx f tx log) = fab_agents f" "fab_placement (with_tx f tx log) = fab_placement f"
  "fab_memory (with_tx f tx log) = fab_memory f" "fab_private_heap (with_tx f tx log) = fab_private_heap f"
  "fab_next_object_id (with_tx f tx log) = fab_next_object_id f"
  "fab_next_domain_id (with_tx f tx log) = fab_next_domain_id f"
  "fab_next_authority_id (with_tx f tx log) = fab_next_authority_id f"
  "fab_timer (with_tx f tx log) = fab_timer f"
  "fab_transactions (with_tx f tx log) = fab_transactions f @ [tx]"
  "fab_fault_log (with_tx f tx log) = fab_fault_log f @ log"
  by (simp_all add: with_tx_def)

text \<open>The authorization and translation of a request read only the fields named here.\<close>

lemma private_heap_object_cong: "fab_private_heap g = fab_private_heap f \<Longrightarrow> private_heap_object g = private_heap_object f"
  by (simp add: private_heap_object_def fun_eq_iff)

lemma heap_pool_overlaps_cong: "fab_private_heap g = fab_private_heap f \<Longrightarrow> heap_pool_overlaps g = heap_pool_overlaps f"
  by (simp add: heap_pool_overlaps_def fun_eq_iff)

lemma validate_cong:
  "fab_private_heap g = fab_private_heap f \<Longrightarrow> fab_objects g = fab_objects f \<Longrightarrow> validate g = validate f"
  by (simp add: validate_def private_heap_object_cong[of g f] fun_eq_iff)

lemma authorize_loop_cong:
  "validate g = validate f \<Longrightarrow> authorize_loop g r es stale = authorize_loop f r es stale"
  by (induction es arbitrary: stale) auto

definition same_authority :: "fabric \<Rightarrow> fabric \<Rightarrow> bool" where
  "same_authority g f \<longleftrightarrow> fab_private_heap g = fab_private_heap f \<and> fab_objects g = fab_objects f
     \<and> fab_domains g = fab_domains f \<and> fab_agents g = fab_agents f
     \<and> fab_pointer_stack_objects g = fab_pointer_stack_objects f"

lemma authorize_cong: "same_authority g f \<Longrightarrow> authorize g r = authorize f r"
proof -
  assume "same_authority g f"
  then have eq: "fab_private_heap g = fab_private_heap f" "fab_objects g = fab_objects f" "fab_domains g = fab_domains f"
    "fab_agents g = fab_agents f" "fab_pointer_stack_objects g = fab_pointer_stack_objects f"
    by (simp_all add: same_authority_def)
  have v: "validate g = validate f" using eq by (intro validate_cong)
  have "stack_access_denied g r = stack_access_denied f r" unfolding stack_access_denied_def eq ..
  then show ?thesis unfolding authorize_def eq v authorize_loop_cong[OF v] by simp
qed

lemma translate_cong:
  "fab_private_heap g = fab_private_heap f \<Longrightarrow> fab_placement g = fab_placement f \<Longrightarrow> translate g = translate f"
  by (rule ext)+ (simp only: translate_def private_heap_object_cong[of g f] heap_pool_overlaps_cong[of g f])

lemma with_tx_authorize [simp]:
  "authorize (with_tx f tx log) r = authorize f r"
  "translate (with_tx f tx log) = translate f"
  "heap_pool_overlaps (with_tx f tx log) = heap_pool_overlaps f"
  by (rule authorize_cong translate_cong heap_pool_overlaps_cong; simp add: same_authority_def)+

lemma set_tx_last [simp]: "set_tx (with_tx f tx log) (length (fab_transactions f)) tx' = with_tx f tx' log"
  by (simp add: set_tx_def with_tx_def)

lemma fault_last [simp]:
  "fault_transaction (with_tx f tx log) (length (fab_transactions f)) reason
   = with_tx f (tx\<lparr>tx_state := Faulted, tx_fault := Some (fault_record_of tx reason)\<rparr>) (log @ [fault_record_of tx reason])"
  by (simp add: fault_transaction_def Let_def nth_append with_tx_def set_tx_def)

lemma clear_cells_with_tx [simp]:
  "clear_pointer_cells_physical (with_tx f tx log) b n = with_tx (clear_pointer_cells_physical f b n) tx log"
  by (simp add: clear_pointer_cells_physical_def cell_survives_def with_tx_def)

lemma commit_bytes_with_tx [simp]: "commit_bytes (with_tx f tx log) b e d = with_tx (commit_bytes f b e d) tx log"
  by (simp add: commit_bytes_def Let_def) (simp add: with_tx_def)

lemma commit_bytes_transactions [simp]:
  "fab_transactions (commit_bytes f b e d) = fab_transactions f"
  by (simp add: commit_bytes_def clear_pointer_cells_physical_def Let_def)

section \<open>The phases on the newest transaction\<close>

definition requested_tx :: "fabric \<Rightarrow> memory_request \<Rightarrow> u8 list option \<Rightarrow> transaction" where
  "requested_tx f r data =
     \<lparr>tx_id = TransactionId (fab_next_tx_id f), tx_request = r, tx_state = Requested, tx_auth_generation = None,
      tx_physical_address = None, tx_write_data = data, tx_read_data = None, tx_fault = None\<rparr>"

lemma requested_tx_sel [simp]:
  "tx_state (requested_tx f r data) = Requested" "tx_request (requested_tx f r data) = r"
  "tx_read_data (requested_tx f r data) = None" "tx_write_data (requested_tx f r data) = data"
  by (simp_all add: requested_tx_def)

definition faulted :: "transaction \<Rightarrow> fault_reason \<Rightarrow> transaction" where
  "faulted tx reason = tx\<lparr>tx_state := Faulted, tx_fault := Some (fault_record_of tx reason)\<rparr>"

lemma submit_with_tx:
  "submit f r data = (length (fab_transactions f),
     if req_length r = 0 \<or> checked_add (req_offset r) (req_length r) = None
     then with_tx f (faulted (requested_tx f r data) InvalidSpan) [fault_record_of (requested_tx f r data) InvalidSpan]
     else with_tx f (requested_tx f r data) [])"
proof -
  have "f\<lparr>fab_next_tx_id := fab_next_tx_id f + 1, fab_transactions := fab_transactions f @ [requested_tx f r data]\<rparr>
      = with_tx f (requested_tx f r data) []" by (simp add: with_tx_def)
  then show ?thesis using fault_last[of f "requested_tx f r data" "[]" InvalidSpan]
    by (simp add: submit_def Let_def requested_tx_def[symmetric] faulted_def)
qed

lemma advance_requested:
  assumes "tx_state tx = Requested"
  shows "advance (with_tx f tx []) (length (fab_transactions f)) = Some
    (case authorize f (tx_request tx) of
       AuthAuthorized g \<Rightarrow> with_tx f (tx\<lparr>tx_auth_generation := Some g, tx_state := Authorized\<rparr>) []
     | AuthDenied reason \<Rightarrow> with_tx f (faulted tx reason) [fault_record_of tx reason])"
  using assms by (simp add: advance_def phase_authorize_def Let_def faulted_def split: auth_result.splits)

lemma advance_authorized:
  assumes "tx_state tx = Authorized"
  shows "advance (with_tx f tx []) (length (fab_transactions f)) = Some
    (case translate f (req_object (tx_request tx)) (req_offset (tx_request tx)) of
       Some phys \<Rightarrow> with_tx f (tx\<lparr>tx_physical_address := Some phys, tx_state := Prepared\<rparr>) []
     | None \<Rightarrow> with_tx f (faulted tx TranslationFault) [fault_record_of tx TranslationFault])"
  using assms by (simp add: advance_def phase_translate_def Let_def faulted_def split: option.splits)

lemma precommit_with_tx [simp]: "precommit_check (with_tx f tx log) t = precommit_check f t"
  unfolding precommit_check_def with_tx_authorize with_tx_sel ..

lemma validate_precommit_last:
  "validate_precommit (with_tx f tx []) (length (fab_transactions f)) =
    (case precommit_check f tx of
       Inl reason \<Rightarrow> (Inl (), with_tx f (faulted tx reason) [fault_record_of tx reason])
     | Inr sp \<Rightarrow> (Inr sp, with_tx f tx []))"
  by (simp add: validate_precommit_def faulted_def split: sum.splits)

lemma advance_prepared:
  assumes "tx_state tx = Prepared"
  shows "advance (with_tx f tx []) (length (fab_transactions f)) = Some
    (case precommit_check f tx of
       Inl reason \<Rightarrow> with_tx f (faulted tx reason) [fault_record_of tx reason]
     | Inr (base, end) \<Rightarrow>
         if req_kind (tx_request tx) = Write \<or> req_kind (tx_request tx) = Atomic
         then with_tx (commit_bytes f base end (tx_payload tx)) (tx\<lparr>tx_state := Committed\<rparr>) []
         else with_tx f (tx\<lparr>tx_read_data := Some (slice base (end - base) (fab_memory f)), tx_state := Committed\<rparr>) [])"
proof -
  have set: "set_tx (with_tx (commit_bytes f b e d) tx []) (length (fab_transactions f)) t = with_tx (commit_bytes f b e d) t []" for b e d t
    using set_tx_last[of "commit_bytes f b e d" tx "[]" t] by simp
  show ?thesis using assms
    by (simp add: advance_def phase_commit_def validate_precommit_last Let_def set split: sum.splits)
qed

lemma advance_faulted [simp]:
  "advance (with_tx f (faulted tx reason) log) (length (fab_transactions f)) = Some (with_tx f (faulted tx reason) log)"
  by (simp add: advance_def faulted_def)

lemma nth_last_tx [simp]: "fab_transactions (with_tx f tx log) ! length (fab_transactions f) = tx"
  by simp

section \<open>Complete transactions\<close>

text \<open>A transaction that faulted in any phase has this effect on the fabric.\<close>

definition fault_effect :: "fabric \<Rightarrow> memory_request \<Rightarrow> fault_reason \<Rightarrow> fault_record \<Rightarrow> fabric \<Rightarrow> bool" where
  "fault_effect f r reason fr f' \<longleftrightarrow>
     (\<exists>tx. f' = with_tx f tx [fr] \<and> tx_state tx = Faulted \<and> tx_fault tx = Some fr \<and> tx_request tx = r
       \<and> tx_read_data tx = None)
     \<and> fr_reason fr = reason \<and> fr_object fr = req_object r \<and> fr_offset fr = req_offset r
     \<and> fr_length fr = req_length r \<and> fr_kind fr = req_kind r
     \<and> fr_agent fr = ctx_agent (req_context r) \<and> fr_domain fr = ctx_domain (req_context r)"

definition commit_effect :: "fabric \<Rightarrow> memory_request \<Rightarrow> u8 list option \<Rightarrow> fabric \<Rightarrow> bool" where
  "commit_effect f r out f' \<longleftrightarrow>
     (\<exists>tx. f' = with_tx f tx [] \<and> tx_state tx = Committed \<and> tx_request tx = r \<and> tx_read_data tx = out)"

lemma faulted_effect:
  assumes "tx_request tx = r" "tx_read_data tx = None"
  shows "fault_effect f r reason (fault_record_of tx reason) (with_tx f (faulted tx reason) [fault_record_of tx reason])"
  using assms by (auto simp: fault_effect_def faulted_def fault_record_of_def)

text \<open>The states the pipeline goes through before its last phase.\<close>

definition prepared_tx :: "fabric \<Rightarrow> memory_request \<Rightarrow> u8 list option \<Rightarrow> generation \<Rightarrow> u64 \<Rightarrow> transaction" where
  "prepared_tx f r data g phys =
     (requested_tx f r data)\<lparr>tx_auth_generation := Some g, tx_state := Prepared, tx_physical_address := Some phys\<rparr>"

lemma prepared_tx_sel [simp]:
  "tx_state (prepared_tx f r data g phys) = Prepared" "tx_request (prepared_tx f r data g phys) = r"
  "tx_physical_address (prepared_tx f r data g phys) = Some phys" "tx_write_data (prepared_tx f r data g phys) = data"
  "tx_read_data (prepared_tx f r data g phys) = None"
  by (simp_all add: prepared_tx_def requested_tx_def)

lemma two_phases:
  "\<exists>f2. run_schedule (snd (submit f r data)) [Advance (length (fab_transactions f)), Advance (length (fab_transactions f))] = Some f2
    \<and> ((\<exists>g phys. f2 = with_tx f (prepared_tx f r data g phys) [] \<and> authorize f r = AuthAuthorized g
           \<and> translate f (req_object r) (req_offset r) = Some phys
           \<and> req_length r \<noteq> 0 \<and> checked_add (req_offset r) (req_length r) \<noteq> None)
       \<or> (\<exists>tx reason. f2 = with_tx f (faulted tx reason) [fault_record_of tx reason] \<and> tx_request tx = r
           \<and> tx_read_data tx = None \<and> one_shot f r data = Inl reason))"
proof (cases "req_length r = 0 \<or> checked_add (req_offset r) (req_length r) = None")
  case True
  then show ?thesis
    by (auto simp: submit_with_tx one_shot_def intro!: exI[of _ "requested_tx f r data"])
next
  case ok: False
  then have sub: "snd (submit f r data) = with_tx f (requested_tx f r data) []" by (auto simp: submit_with_tx)
  have req: "tx_state (requested_tx f r data) = Requested" "tx_request (requested_tx f r data) = r"
    by (simp_all add: requested_tx_def)
  show ?thesis
  proof (cases "authorize f r")
    case (AuthDenied reason)
    then show ?thesis using ok
      by (auto simp: sub advance_requested[OF req(1)] req(2) one_shot_def
          intro!: exI[of _ "requested_tx f r data"])
  next
    case (AuthAuthorized g)
    let ?t = "(requested_tx f r data)\<lparr>tx_auth_generation := Some g, tx_state := Authorized\<rparr>"
    have a1: "advance (with_tx f (requested_tx f r data) []) (length (fab_transactions f)) = Some (with_tx f ?t [])"
      using AuthAuthorized by (simp add: advance_requested[OF req(1)] req(2))
    have st: "tx_state ?t = Authorized" by simp
    show ?thesis
    proof (cases "translate f (req_object r) (req_offset r)")
      case None
      then show ?thesis using ok AuthAuthorized
        by (auto simp: sub a1 advance_authorized[OF st] one_shot_def intro!: exI[of _ ?t])
    next
      case (Some phys)
      have "?t\<lparr>tx_physical_address := Some phys, tx_state := Prepared\<rparr> = prepared_tx f r data g phys"
        by (simp add: prepared_tx_def)
      then show ?thesis using ok AuthAuthorized Some
        by (auto simp: sub a1 advance_authorized[OF st] req(2))
    qed
  qed
qed

lemma run_schedule_append:
  "run_schedule f (es @ es') = (case run_schedule f es of None \<Rightarrow> None | Some f' \<Rightarrow> run_schedule f' es')"
  by (induction f es rule: run_schedule.induct) (auto split: option.splits)

lemma precommit_prepared:
  assumes "authorize f r = AuthAuthorized g" "translate f (req_object r) (req_offset r) = Some phys"
    and "req_length r \<noteq> 0" "checked_add (req_offset r) (req_length r) \<noteq> None"
  shows "precommit_check f (prepared_tx f r data g phys) = one_shot f r data"
  using assms by (auto simp: precommit_check_def one_shot_def Let_def split: option.splits)

text \<open>What the last phase leaves behind, by the kind of the request.\<close>

definition finish_effect :: "fabric \<Rightarrow> memory_request \<Rightarrow> u8 list option \<Rightarrow> fabric \<Rightarrow> bool" where
  "finish_effect f r data f' \<longleftrightarrow>
     (case one_shot f r data of
        Inl reason \<Rightarrow> \<exists>fr. fault_effect f r reason fr f'
      | Inr (base, end) \<Rightarrow>
          if req_kind r = Write \<or> req_kind r = Atomic
          then commit_effect (commit_bytes f base end (the data)) r None f'
          else commit_effect f r (Some (slice base (end - base) (fab_memory f))) f')"

lemma one_shot_payload:
  "one_shot f r data = Inr sp \<Longrightarrow> req_kind r = Write \<or> req_kind r = Atomic \<Longrightarrow> \<exists>d. data = Some d \<and> length d = unat (req_length r)"
  by (cases data) (auto simp: one_shot_def split: if_splits auth_result.splits option.splits)

lemma three_phases:
  "\<exists>f'. advance3 (snd (submit f r data)) (length (fab_transactions f)) = Some f' \<and> finish_effect f r data f'"
proof -
  let ?n = "length (fab_transactions f)"
  obtain f2 where f2: "run_schedule (snd (submit f r data)) [Advance ?n, Advance ?n] = Some f2"
    and cases: "(\<exists>g phys. f2 = with_tx f (prepared_tx f r data g phys) [] \<and> authorize f r = AuthAuthorized g
           \<and> translate f (req_object r) (req_offset r) = Some phys
           \<and> req_length r \<noteq> 0 \<and> checked_add (req_offset r) (req_length r) \<noteq> None)
       \<or> (\<exists>tx reason. f2 = with_tx f (faulted tx reason) [fault_record_of tx reason] \<and> tx_request tx = r
           \<and> tx_read_data tx = None \<and> one_shot f r data = Inl reason)"
    using two_phases[of f r data] by blast
  have a3: "advance3 (snd (submit f r data)) ?n = advance f2 ?n"
    using run_schedule_append[of "snd (submit f r data)" "[Advance ?n, Advance ?n]" "[Advance ?n]"] f2
    by (simp add: advance3_def split: option.splits)
  from cases show ?thesis
  proof (elim disjE exE conjE)
    fix tx reason assume e: "f2 = with_tx f (faulted tx reason) [fault_record_of tx reason]" "tx_request tx = r"
      "tx_read_data tx = None" "one_shot f r data = Inl reason"
    then show ?thesis unfolding a3 using faulted_effect[of tx r f reason] by (auto simp: finish_effect_def)
  next
    fix g phys assume e: "f2 = with_tx f (prepared_tx f r data g phys) []" "authorize f r = AuthAuthorized g"
      "translate f (req_object r) (req_offset r) = Some phys" "req_length r \<noteq> 0"
      "checked_add (req_offset r) (req_length r) \<noteq> None"
    note pc = precommit_prepared[OF e(2-5), of data]
    show ?thesis
    proof (cases "one_shot f r data")
      case (Inl reason)
      then show ?thesis unfolding a3 e(1) advance_prepared[OF prepared_tx_sel(1)] pc
        using faulted_effect[of "prepared_tx f r data g phys" r f reason] by (auto simp: finish_effect_def)
    next
      case (Inr sp)
      obtain base "end" where sp: "sp = (base, end)" by fastforce
      show ?thesis
        unfolding a3 e(1) advance_prepared[OF prepared_tx_sel(1)] pc
        using Inr one_shot_payload[OF Inr]
        by (fastforce simp: finish_effect_def commit_effect_def sp tx_payload_def)
    qed
  qed
qed

lemma finish_states:
  assumes "finish_effect f r data f'"
  shows "case one_shot f r data of
      Inl reason \<Rightarrow> \<exists>fr. tx_state (fab_transactions f' ! length (fab_transactions f)) = Faulted
        \<and> tx_fault (fab_transactions f' ! length (fab_transactions f)) = Some fr \<and> fault_effect f r reason fr f'
    | Inr (base, end) \<Rightarrow> tx_state (fab_transactions f' ! length (fab_transactions f)) = Committed"
  using assms
  by (auto simp: finish_effect_def fault_effect_def commit_effect_def split: sum.splits if_splits)

lemma execute_write_effect:
  "\<exists>res f'. execute_write f r d = Some (res, f')
    \<and> (case one_shot f r (Some d) of
         Inl reason \<Rightarrow> \<exists>fr. res = Inl fr \<and> fault_effect f r reason fr f'
       | Inr (base, end) \<Rightarrow> res = Inr ()
           \<and> (if req_kind r = Write \<or> req_kind r = Atomic then commit_effect (commit_bytes f base end d) r None f'
              else commit_effect f r (Some (slice base (end - base) (fab_memory f))) f'))"
proof -
  have sub: "submit f r (Some d) = (length (fab_transactions f), snd (submit f r (Some d)))" by (simp add: submit_with_tx)
  obtain f' where f': "advance3 (snd (submit f r (Some d))) (length (fab_transactions f)) = Some f'"
    "finish_effect f r (Some d) f'" using three_phases by blast
  show ?thesis
    using finish_states[OF f'(2)] f'(2) unfolding execute_write_def by (subst sub)
      (auto simp: f'(1) Let_def finish_effect_def split: sum.splits)
qed

lemma execute_read_effect:
  "\<exists>res f'. execute_read f r = Some (res, f')
    \<and> (case one_shot f r None of
         Inl reason \<Rightarrow> \<exists>fr. res = Inl fr \<and> fault_effect f r reason fr f'
       | Inr (base, end) \<Rightarrow> res = Inr (slice base (end - base) (fab_memory f))
           \<and> commit_effect f r (Some (slice base (end - base) (fab_memory f))) f')"
proof -
  have sub: "submit f r None = (length (fab_transactions f), snd (submit f r None))" by (simp add: submit_with_tx)
  obtain f' where f': "advance3 (snd (submit f r None)) (length (fab_transactions f)) = Some f'"
    "finish_effect f r None f'" using three_phases by blast
  show ?thesis
  proof (cases "one_shot f r None")
    case (Inl reason)
    then show ?thesis using finish_states[OF f'(2)] unfolding execute_read_def by (subst sub) (auto simp: f'(1) Let_def)
  next
    case (Inr sp)
    then have k: "\<not> (req_kind r = Write \<or> req_kind r = Atomic)" using one_shot_payload[OF Inr] by auto
    obtain base "end" where sp: "sp = (base, end)" by fastforce
    have c: "commit_effect f r (Some (slice base (end - base) (fab_memory f))) f'"
      using f'(2) k Inr sp by (simp add: finish_effect_def)
    then have "tx_state (fab_transactions f' ! length (fab_transactions f)) = Committed"
      "tx_read_data (fab_transactions f' ! length (fab_transactions f)) = Some (slice base (end - base) (fab_memory f))"
      by (auto simp: commit_effect_def)
    then show ?thesis using c Inr sp unfolding execute_read_def by (subst sub) (simp add: f'(1) Let_def)
  qed
qed

lemma execute_xchg_effect:
  assumes "req_kind r = Atomic"
  shows "\<exists>res f'. execute_atomic_xchg f r d = Some (res, f')
    \<and> (case one_shot f r (Some d) of
         Inl reason \<Rightarrow> \<exists>fr. res = Inl fr \<and> fault_effect f r reason fr f'
       | Inr (base, end) \<Rightarrow> res = Inr (slice base (end - base) (fab_memory f))
           \<and> commit_effect (commit_bytes f base end d) r None f')"
proof -
  let ?n = "length (fab_transactions f)"
  have sub: "submit f r (Some d) = (?n, snd (submit f r (Some d)))" by (simp add: submit_with_tx)
  obtain f2 where f2: "run_schedule (snd (submit f r (Some d))) [Advance ?n, Advance ?n] = Some f2"
    and cases: "(\<exists>g phys. f2 = with_tx f (prepared_tx f r (Some d) g phys) [] \<and> authorize f r = AuthAuthorized g
           \<and> translate f (req_object r) (req_offset r) = Some phys
           \<and> req_length r \<noteq> 0 \<and> checked_add (req_offset r) (req_length r) \<noteq> None)
       \<or> (\<exists>tx reason. f2 = with_tx f (faulted tx reason) [fault_record_of tx reason] \<and> tx_request tx = r
           \<and> tx_read_data tx = None \<and> one_shot f r (Some d) = Inl reason)"
    using two_phases[of f r "Some d"] by blast
  note unf = execute_atomic_xchg_def Let_def
  from cases show ?thesis
  proof (elim disjE exE conjE)
    fix tx reason assume e: "f2 = with_tx f (faulted tx reason) [fault_record_of tx reason]" "tx_request tx = r"
      "tx_read_data tx = None" "one_shot f r (Some d) = Inl reason"
    show ?thesis unfolding unf
      by (subst sub, simp only: prod.case f2 option.case, simp add: e faulted_def)
        (use faulted_effect[OF e(2,3), of f reason] in \<open>auto simp: faulted_def\<close>)
  next
    fix g phys assume e: "f2 = with_tx f (prepared_tx f r (Some d) g phys) []" "authorize f r = AuthAuthorized g"
      "translate f (req_object r) (req_offset r) = Some phys" "req_length r \<noteq> 0"
      "checked_add (req_offset r) (req_length r) \<noteq> None"
    note pc = precommit_prepared[OF e(2-5), of "Some d"]
    show ?thesis
    proof (cases "one_shot f r (Some d)")
      case (Inl reason)
      show ?thesis unfolding unf
        by (subst sub, simp only: prod.case f2 option.case, simp add: e(1) validate_precommit_last pc Inl)
          (use faulted_effect[of "prepared_tx f r (Some d) g phys" r f reason] in \<open>auto simp: faulted_def\<close>)
    next
      case (Inr sp)
      obtain base "end" where sp: "sp = (base, end)" by fastforce
      have len: "length d = end - base" using Inr assms unfolding sp
        by (auto simp: one_shot_def checked_add_eq_Some split: if_splits auth_result.splits option.splits)
      have set: "set_tx (with_tx (commit_bytes f base end d) tx []) ?n t = with_tx (commit_bytes f base end d) t []" for tx t
        using set_tx_last[of "commit_bytes f base end d" tx "[]" t] by simp
      show ?thesis unfolding unf
        by (subst sub, simp only: prod.case f2 option.case,
            simp add: e(1) validate_precommit_last pc Inr sp tx_payload_def len set commit_effect_def)
          (rule exI[of _ "(prepared_tx f r (Some d) g phys)\<lparr>tx_state := Committed\<rparr>"], simp)
    qed
  qed
qed

section \<open>Consequences\<close>

lemma one_shot_Inr:
  assumes "one_shot f r data = Inr (base, end)"
  obtains g phys where "authorize f r = AuthAuthorized g" "translate f (req_object r) (req_offset r) = Some phys"
    "base = unat phys" "end = base + unat (req_length r)" "end \<le> length (fab_memory f)" "req_length r \<noteq> 0"
    "\<not> heap_pool_overlaps f phys (req_length r)" "checked_add (req_offset r) (req_length r) \<noteq> None" "end < 2 ^ 64"
proof -
  obtain g phys pe where a: "authorize f r = AuthAuthorized g" "translate f (req_object r) (req_offset r) = Some phys"
    "checked_add phys (req_length r) = Some pe" "unat pe \<le> length (fab_memory f)" "\<not> heap_pool_overlaps f phys (req_length r)"
    "req_length r \<noteq> 0" "checked_add (req_offset r) (req_length r) \<noteq> None" "base = unat phys" "end = unat pe"
    using assms by (auto simp: one_shot_def not_less split: if_splits auth_result.splits option.splits)
  moreover have "unat pe = unat phys + unat (req_length r)" using a(3) by (simp add: checked_add_eq_Some)
  moreover have "unat pe < 2 ^ 64" using unsigned_less[of pe] by simp
  ultimately show ?thesis using that by simp
qed

lemma one_shot_intro:
  assumes "authorize f r = AuthAuthorized g" "translate f (req_object r) (req_offset r) = Some phys"
    and "unat phys + unat (req_length r) \<le> length (fab_memory f)" "unat phys + unat (req_length r) < 2 ^ 64"
    and "req_length r \<noteq> 0" "\<not> heap_pool_overlaps f phys (req_length r)" "checked_add (req_offset r) (req_length r) \<noteq> None"
    and "req_kind r = Read \<or> req_kind r = Fetch"
  shows "one_shot f r data = Inr (unat phys, unat phys + unat (req_length r))"
proof -
  have "checked_add phys (req_length r) = Some (phys + req_length r)" "unat (phys + req_length r) = unat phys + unat (req_length r)"
    using assms(4) by (simp_all add: checked_add_def unat_plus_exact)
  then show ?thesis using assms by (auto simp: one_shot_def)
qed

lemma commit_bytes_sel [simp]:
  "fab_memory (commit_bytes f b e d) = copy_at b d (fab_memory f)" "fab_objects (commit_bytes f b e d) = fab_objects f"
  "fab_domains (commit_bytes f b e d) = fab_domains f" "fab_agents (commit_bytes f b e d) = fab_agents f"
  "fab_placement (commit_bytes f b e d) = fab_placement f" "fab_private_heap (commit_bytes f b e d) = fab_private_heap f"
  "fab_pointer_stack_objects (commit_bytes f b e d) = fab_pointer_stack_objects f"
  "fab_next_object_id (commit_bytes f b e d) = fab_next_object_id f"
  "fab_next_authority_id (commit_bytes f b e d) = fab_next_authority_id f"
  "fab_next_domain_id (commit_bytes f b e d) = fab_next_domain_id f"
  "fab_scoped_pointers (commit_bytes f b e d) = fab_scoped_pointers f" "fab_timer (commit_bytes f b e d) = fab_timer f"
  "fab_fault_log (commit_bytes f b e d) = fab_fault_log f"
  by (simp_all add: commit_bytes_def clear_pointer_cells_physical_def Let_def)

lemma commit_bytes_authorize [simp]:
  "authorize (commit_bytes f b e d) r = authorize f r" "translate (commit_bytes f b e d) = translate f"
  "heap_pool_overlaps (commit_bytes f b e d) = heap_pool_overlaps f"
  by (rule authorize_cong translate_cong heap_pool_overlaps_cong; simp add: same_authority_def)+

lemma write_committed:
  assumes "execute_write f r d = Some (Inr (), f')" "req_kind r = Write"
  obtains base "end" tx where "one_shot f r (Some d) = Inr (base, end)" "f' = with_tx (commit_bytes f base end d) tx []"
    "length d = unat (req_length r)"
proof -
  obtain sp where sp: "one_shot f r (Some d) = Inr sp"
    using execute_write_effect[of f r d] assms by (cases "one_shot f r (Some d)") auto
  then show ?thesis
    using execute_write_effect[of f r d] assms one_shot_payload[OF sp] that by (cases sp) (auto simp: commit_effect_def)
qed

section \<open>Claims\<close>

text \<open>
  C10: a write transaction is exactly its one-step specification, for every fabric, request and
  payload.  It always finishes.  If any check of any phase fails, the result is the fault the
  specification names, one record is logged, and memory, objects, domains, placements and pointer
  kinds are untouched; otherwise precisely the authorized span of memory takes the payload.
\<close>

theorem execute_write_refines:
  "\<exists>res f'. execute_write f r d = Some (res, f')
    \<and> (case one_shot f r (Some d) of
         Inl reason \<Rightarrow> \<exists>fr. res = Inl fr \<and> fault_effect f r reason fr f'
       | Inr (base, end) \<Rightarrow> res = Inr ()
           \<and> (if req_kind r = Write \<or> req_kind r = Atomic then commit_effect (commit_bytes f base end d) r None f'
              else commit_effect f r (Some (slice base (end - base) (fab_memory f))) f'))"
  by (rule execute_write_effect)

text \<open>
  C11: a read transaction is exactly its one-step specification: it always finishes, a fault
  changes nothing but the log, and otherwise the bytes returned are the bytes of the authorized
  span, observed at commit.
\<close>

theorem execute_read_refines:
  "\<exists>res f'. execute_read f r = Some (res, f')
    \<and> (case one_shot f r None of
         Inl reason \<Rightarrow> \<exists>fr. res = Inl fr \<and> fault_effect f r reason fr f'
       | Inr (base, end) \<Rightarrow> res = Inr (slice base (end - base) (fab_memory f))
           \<and> commit_effect f r (Some (slice base (end - base) (fab_memory f))) f')"
  by (rule execute_read_effect)

text \<open>
  C13: the atomic exchange returns the old contents of the span and leaves the new ones, in one
  indivisible step, or faults without touching memory.
\<close>

theorem execute_xchg_refines:
  assumes "req_kind r = Atomic"
  shows "\<exists>res f'. execute_atomic_xchg f r d = Some (res, f')
    \<and> (case one_shot f r (Some d) of
         Inl reason \<Rightarrow> \<exists>fr. res = Inl fr \<and> fault_effect f r reason fr f'
       | Inr (base, end) \<Rightarrow> res = Inr (slice base (end - base) (fab_memory f))
           \<and> commit_effect (commit_bytes f base end d) r None f')"
  using assms by (rule execute_xchg_effect)

definition demo_fabric :: fabric where
  "demo_fabric = (from_parts [0, 0, 0, 0] one_slot_registry None)\<lparr>
     fab_objects := [(ObjectId 0, \<lparr>obj_id = ObjectId 0, obj_generation = Generation 0, obj_size = 2, obj_state = Active,
        obj_kind = Memory, obj_name = []\<rparr>)],
     fab_domains := [(DomainId 0, \<lparr>dom_id = DomainId 0, dom_capabilities =
        [\<lparr>ce_cap = \<lparr>cap_object = ObjectId 0, cap_generation = Generation 0, cap_offset = 0, cap_length = 2,
           cap_permissions = RW\<rparr>, ce_authority_id = None\<rparr>], dom_device_authorities = []\<rparr>)],
     fab_placement := [(ObjectId 0, 1)], fab_next_object_id := 1, fab_next_domain_id := 1\<rparr>"

definition demo_write :: memory_request where
  "demo_write = mk_request (AgentId 0) (DomainId 0) (ObjectId 0) 1 Byte Write"

lemmas exec_eval = demo_fabric_def demo_write_def mk_request_def from_parts_def authorize_def stack_access_denied_def
  cap_covers_def validate_def private_heap_object_def obj_live_def perm_contains_def translate_def heap_pool_overlaps_def
  checked_add_def RW_def READ_def WRITE_def one_shot_def

theorem execute_xchg_refines_witness:
  "\<exists>res f'. execute_atomic_xchg demo_fabric (demo_write\<lparr>req_kind := Atomic\<rparr>) [7] = Some (res, f')
    \<and> (case one_shot demo_fabric (demo_write\<lparr>req_kind := Atomic\<rparr>) (Some [7]) of
         Inl reason \<Rightarrow> \<exists>fr. res = Inl fr \<and> fault_effect demo_fabric (demo_write\<lparr>req_kind := Atomic\<rparr>) reason fr f'
       | Inr (base, end) \<Rightarrow> res = Inr (slice base (end - base) (fab_memory demo_fabric))
           \<and> commit_effect (commit_bytes demo_fabric base end [7]) (demo_write\<lparr>req_kind := Atomic\<rparr>) None f')"
  using execute_xchg_refines[of "demo_write\<lparr>req_kind := Atomic\<rparr>" demo_fabric "[7]"] by simp

text \<open>
  C12: what a committed write stored is what the next read of the same span returns, whenever the
  domain may read the span at all.
\<close>

theorem read_after_write:
  assumes "execute_write f r d = Some (Inr (), f')" "req_kind r = Write"
    and "authorize f (r\<lparr>req_kind := Read\<rparr>) = AuthAuthorized g"
  shows "\<exists>f''. execute_read f' (r\<lparr>req_kind := Read\<rparr>) = Some (Inr d, f'')"
proof -
  obtain base "end" tx where w: "one_shot f r (Some d) = Inr (base, end)" "f' = with_tx (commit_bytes f base end d) tx []"
    "length d = unat (req_length r)" using write_committed[OF assms(1,2)] .
  obtain phys where p: "translate f (req_object r) (req_offset r) = Some phys" "base = unat phys"
    "end = base + unat (req_length r)" "end \<le> length (fab_memory f)" "req_length r \<noteq> 0"
    "\<not> heap_pool_overlaps f phys (req_length r)" "checked_add (req_offset r) (req_length r) \<noteq> None" "end < 2 ^ 64"
    using one_shot_Inr[OF w(1)] by metis
  have "one_shot f' (r\<lparr>req_kind := Read\<rparr>) None = Inr (base, end)"
    using one_shot_intro[of f' "r\<lparr>req_kind := Read\<rparr>" g phys] assms(3) p w(3) by (simp add: w(2))
  moreover have "slice base (end - base) (fab_memory f') = d"
    using slice_copy_at_same[of base d "fab_memory f"] p(3,4) w(3) by (simp add: w(2))
  ultimately show ?thesis using execute_read_effect[of f' "r\<lparr>req_kind := Read\<rparr>"] by auto
qed

lemma demo_one_shot: "one_shot demo_fabric demo_write (Some [7]) = Inr (2, 3)"
  by (simp add: exec_eval)

theorem read_after_write_witness:
  "\<exists>f' f''. execute_write demo_fabric demo_write [7] = Some (Inr (), f')
     \<and> execute_read f' (demo_write\<lparr>req_kind := Read\<rparr>) = Some (Inr [7], f'')"
proof -
  obtain f' where w: "execute_write demo_fabric demo_write [7] = Some (Inr (), f')"
    using execute_write_effect[of demo_fabric demo_write "[7]"] by (auto simp: demo_one_shot)
  have k: "req_kind demo_write = Write" by (simp add: demo_write_def mk_request_def)
  have a: "authorize demo_fabric (demo_write\<lparr>req_kind := Read\<rparr>) = AuthAuthorized (Generation 0)" by (simp add: exec_eval)
  from read_after_write[OF w k a] w show ?thesis by blast
qed

end
