(* ===== verification/Fabric_Ptr.thy ===== *)
theory Fabric_Ptr
  imports Fabric_Tx
begin

text \<open>
  Protected pointers in the fabric: pointer-stack protection, retirement and registration of
  local pointers, sixteen-byte pointer cells with their kind shadow (\<open>src/src/anka64/fabric.rs\<close>),
  and the all-or-nothing issue of a complete local frame
  (\<open>src/src/anka64/fabric/local_frames.rs\<close>).
\<close>

section \<open>Errors\<close>

datatype frame_error = FGeometry | FManifest | FContext | FControl | FCapacity

datatype resource = RsGlobalBytes | RsOwnerBytes | RsSlots | RsOwners | RsCleanup | RsWorkers
  | RsWorkTickets | RsBackendRequests | RsHostStorage | RsIdentity

datatype heap_error =
    HConfiguration | HHostAllocation | HCapacity resource | HSize | HOwner | HClosed
  | HStaleReservation | HStaleRevision | HStaleInitialization | HPointer pointer_error
  | HMissingKind | HInvalidFree | HBusy | HWorker | HLease | HStaleWork | HWorkState
  | HStaleCleanup | HPhysicalPlacement placement_error | HVirtualPlacement placement_error

datatype pointer_machine_error =
    MInvalidPair | MMissingKind | MUnmapped | MUnaligned | MFrame frame_error | MContextMode
  | MPointer pointer_error | MHeap heap_error | MFabric fault_record

section \<open>Pointer stacks\<close>

definition cap_on_object :: "object_id \<Rightarrow> domain_state \<Rightarrow> bool" where
  "cap_on_object i d \<longleftrightarrow> list_ex (\<lambda>e. cap_object (ce_cap e) = i) (dom_capabilities d)"

definition protect_pointer_stack :: "fabric \<Rightarrow> object_id \<Rightarrow> u64 \<Rightarrow> domain_id \<Rightarrow> bool \<times> fabric" where
  "protect_pointer_stack f i owner domain =
     (if (case btm_get (fab_pointer_stack_objects f) i of
            None \<Rightarrow> False | Some binding \<Rightarrow> binding \<noteq> (owner, domain)) then (False, f)
      else if list_ex (\<lambda>(_, d). dom_id d \<noteq> domain \<and> cap_on_object i d) (fab_domains f) then (False, f)
      else if list_ex (\<lambda>(_, a). \<not> is_cpu (agent_kind a)
             \<and> (case btm_get (fab_domains f) (agent_domain a) of
                  None \<Rightarrow> False | Some d \<Rightarrow> cap_on_object i d)) (fab_agents f) then (False, f)
      else if list_ex (\<lambda>(_, d). cap_on_object i d
             \<and> \<not> list_ex (\<lambda>(_, a). agent_domain a = dom_id d \<and> is_cpu (agent_kind a)) (fab_agents f))
             (fab_domains f) then (False, f)
      else (True, f\<lparr>fab_pointer_stack_objects := btm_insert i (owner, domain) (fab_pointer_stack_objects f)\<rparr>))"

fun retire_locals :: "fabric \<Rightarrow> scoped_pointer list \<Rightarrow> fabric" where
  "retire_locals f [] = f"
| "retire_locals f (p # ps) =
     (let ln = (case storage_span (fab_scoped_pointers f) p of None \<Rightarrow> 0 | Some (_, n) \<Rightarrow> n);
          (b, sp) = take_backing (fab_scoped_pointers f) p;
          f1 = f\<lparr>fab_scoped_pointers := sp\<rparr>;
          f2 = (case b of
                  None \<Rightarrow> f1
                | Some bk \<Rightarrow>
                    f1\<lparr>fab_pointer_cells := btm_retain
                         (\<lambda>k _. fst k \<noteq> pb_object bk \<or> fst (snd k) \<noteq> pb_generation bk
                            \<or> \<not> (snd (snd k) \<ge> pb_offset bk \<and> snd (snd k) - pb_offset bk < ln))
                         (fab_pointer_cells f1)\<rparr>)
      in retire_locals f2 ps)"

definition retire_pointer_frame :: "fabric \<Rightarrow> scope \<Rightarrow> scoped_pointer list
    \<Rightarrow> ((pointer_machine_error + unit) \<times> fabric) option" where
  "retire_pointer_frame f scope locals =
     (case leave_scope (fab_scoped_pointers f) scope of
        None \<Rightarrow> None
      | Some (Inl e, _) \<Rightarrow> Some (Inl (MPointer e), f)
      | Some (Inr _, sp) \<Rightarrow> Some (Inr (), retire_locals (f\<lparr>fab_scoped_pointers := sp\<rparr>) locals))"

section \<open>Registration\<close>

definition pointer_cell_fault :: "fabric \<Rightarrow> memory_request \<Rightarrow> fault_reason \<Rightarrow> fault_record" where
  "pointer_cell_fault f r reason =
     \<lparr>fr_agent = ctx_agent (req_context r), fr_domain = ctx_domain (req_context r),
      fr_privilege = ctx_privilege (req_context r), fr_transaction = TransactionId 0,
      fr_object = req_object r,
      fr_generation = map_option obj_generation (btm_get (fab_objects f) (req_object r)),
      fr_offset = req_offset r, fr_width = req_width r, fr_length = req_length r,
      fr_kind = req_kind r, fr_pc = None, fr_reason = reason\<rparr>"

definition checked_local_backing :: "fabric \<Rightarrow> memory_request \<Rightarrow> bool
    \<Rightarrow> pointer_machine_error + pointer_backing" where
  "checked_local_backing f r writable =
     (if req_length r = 0 then Inl (MPointer PInvalidRange)
      else let rd = r\<lparr>req_kind := Read\<rparr>; wr = r\<lparr>req_kind := Write\<rparr> in
      case authorize f rd of
        AuthDenied reason \<Rightarrow> Inl (MFabric (pointer_cell_fault f rd reason))
      | AuthAuthorized g \<Rightarrow>
         (case (if writable then authorize f wr else AuthAuthorized g) of
            AuthDenied reason \<Rightarrow> Inl (MFabric (pointer_cell_fault f wr reason))
          | AuthAuthorized _ \<Rightarrow>
             (case translate f (req_object r) (req_offset r) of
                None \<Rightarrow> Inl MUnmapped
              | Some phys \<Rightarrow>
                 (case checked_add phys (req_length r) of
                    None \<Rightarrow> Inl MUnmapped
                  | Some end \<Rightarrow>
                      if unat end > length (fab_memory f) then Inl MUnmapped
                      else Inr \<lparr>pb_object = req_object r, pb_generation = g, pb_offset = req_offset r\<rparr>))))"

definition register_scoped_pointer :: "fabric \<Rightarrow> scope \<Rightarrow> memory_request \<Rightarrow> u64 \<Rightarrow> bool
    \<Rightarrow> ((pointer_machine_error + scoped_pointer) \<times> fabric) option" where
  "register_scoped_pointer f scope r address writable =
     (case checked_local_backing f r writable of
        Inl e \<Rightarrow> Some (Inl e, f)
      | Inr backing \<Rightarrow>
         (case register (fab_scoped_pointers f) scope (domain_id_raw (ctx_domain (req_context r)))
                 address (req_length r) writable of
            (Inl e, _) \<Rightarrow> Some (Inl (MPointer e), f)
          | (Inr p, sp) \<Rightarrow>
             (case bind_backing sp p backing of
                None \<Rightarrow> None
              | Some sp' \<Rightarrow> Some (Inr p, f\<lparr>fab_scoped_pointers := sp'\<rparr>))))"

definition scoped_pointer_backing :: "fabric \<Rightarrow> scoped_pointer \<Rightarrow> domain_id
    \<Rightarrow> pointer_machine_error + object_id \<times> u64" where
  "scoped_pointer_backing f p domain =
     (case pointer_add (fab_scoped_pointers f) p (domain_id_raw domain) 0 of
        Inl e \<Rightarrow> Inl (MPointer e)
      | Inr _ \<Rightarrow>
         (case pointer_backing_of (fab_scoped_pointers f) p of
            None \<Rightarrow> Inl MMissingKind
          | Some b \<Rightarrow>
              if (case btm_get (fab_objects f) (pb_object b) of
                    None \<Rightarrow> True
                  | Some ob \<Rightarrow> obj_generation ob \<noteq> pb_generation b \<or> \<not> obj_live ob)
              then Inl (MPointer PStale)
              else case checked_add (pb_offset b) (snd (sp_words p)) of
                     None \<Rightarrow> Inl MUnmapped
                   | Some at \<Rightarrow> Inr (pb_object b, at)))"

definition authorize_pointer_span :: "fabric \<Rightarrow> agent_id \<Rightarrow> domain_id \<Rightarrow> object_id \<Rightarrow> u64 \<Rightarrow> u64
    \<Rightarrow> access_kind \<Rightarrow> bool" where
  "authorize_pointer_span f agent domain i ofs ln kind =
     (if \<not> (case btm_get (fab_agents f) agent of
              None \<Rightarrow> False | Some a \<Rightarrow> agent_domain a = domain \<and> is_cpu (agent_kind a)) then False
      else if stack_owner_differs f i domain then False
      else if ln \<noteq> 0
      then (case authorize f
              \<lparr>req_context = \<lparr>ctx_agent = agent, ctx_domain = domain, ctx_privilege = Supervisor\<rparr>,
               req_object = i, req_offset = ofs, req_width = Byte, req_length = ln, req_kind = kind\<rparr> of
              AuthAuthorized _ \<Rightarrow> True | AuthDenied _ \<Rightarrow> False)
      else case btm_get (fab_objects f) i of
        None \<Rightarrow> False
      | Some ob \<Rightarrow>
          if ofs > obj_size ob then False
          else case btm_get (fab_domains f) domain of
            None \<Rightarrow> False
          | Some d \<Rightarrow>
              list_ex (\<lambda>e. let c = ce_cap e in
                 cap_object c = i \<and> validate f c
                 \<and> perm_contains (cap_permissions c) (required_permission kind)
                 \<and> ofs \<ge> cap_offset c \<and> ofs - cap_offset c \<le> cap_length c) (dom_capabilities d))"

definition authorize_pointer_output :: "fabric \<Rightarrow> agent_id \<Rightarrow> domain_id \<Rightarrow> object_id \<Rightarrow> u64 \<Rightarrow> u64 \<Rightarrow> bool" where
  "authorize_pointer_output f agent domain i ofs ln = authorize_pointer_span f agent domain i ofs ln Read"

definition authorize_pointer_input :: "fabric \<Rightarrow> agent_id \<Rightarrow> domain_id \<Rightarrow> object_id \<Rightarrow> u64 \<Rightarrow> u64 \<Rightarrow> bool" where
  "authorize_pointer_input f agent domain i ofs ln = authorize_pointer_span f agent domain i ofs ln Write"

section \<open>Pointer cells\<close>

definition checked_pointer_cell :: "fabric \<Rightarrow> memory_request \<Rightarrow> access_kind
    \<Rightarrow> fault_record + object_id \<times> generation \<times> u64" where
  "checked_pointer_cell f r kind =
     (if req_kind r \<noteq> kind \<or> req_length r \<noteq> 16 \<or> req_offset r mod 16 \<noteq> 0
      then Inl (pointer_cell_fault f r InvalidSpan)
      else case btm_get (fab_objects f) (req_object r) of
        None \<Rightarrow> Inl (pointer_cell_fault f r InvalidObject)
      | Some ob \<Rightarrow> Inr (req_object r, obj_generation ob, req_offset r))"

definition cell_bytes :: "u64 \<times> u64 \<Rightarrow> u8 list" where
  "cell_bytes w = le_bytes 8 (fst w) @ le_bytes 8 (snd w)"

definition store_pointer_cell :: "fabric \<Rightarrow> memory_request \<Rightarrow> scoped_pointer option
    \<Rightarrow> ((fault_record + unit) \<times> fabric) option" where
  "store_pointer_cell f r pointer =
     (case (case pointer of
              None \<Rightarrow> Inr ()
            | Some p \<Rightarrow>
               (case scoped_pointer_backing f p (ctx_domain (req_context r)) of
                  Inl _ \<Rightarrow> Inl (pointer_cell_fault f r NoCapability) | Inr _ \<Rightarrow> Inr ())) of
        Inl fr \<Rightarrow> Some (Inl fr, f)
      | Inr _ \<Rightarrow>
         (case checked_pointer_cell f r Write of
            Inl fr \<Rightarrow> Some (Inl fr, f)
          | Inr key \<Rightarrow>
              let words = (case pointer of None \<Rightarrow> (0, 0) | Some p \<Rightarrow> sp_words p) in
              (case execute_write f r (cell_bytes words) of
                 None \<Rightarrow> None
               | Some (Inl fr, f') \<Rightarrow> Some (Inl fr, f')
               | Some (Inr _, f') \<Rightarrow>
                   Some (Inr (), case pointer of
                                   None \<Rightarrow> f'
                                 | Some p \<Rightarrow> f'\<lparr>fab_pointer_cells := btm_insert key p (fab_pointer_cells f')\<rparr>))))"

definition load_pointer_cell :: "fabric \<Rightarrow> memory_request
    \<Rightarrow> ((fault_record + scoped_pointer option) \<times> fabric) option" where
  "load_pointer_cell f r =
     (case checked_pointer_cell f r Read of
        Inl fr \<Rightarrow> Some (Inl fr, f)
      | Inr key \<Rightarrow>
         (case execute_read f r of
            None \<Rightarrow> None
          | Some (Inl fr, f') \<Rightarrow> Some (Inl fr, f')
          | Some (Inr bytes, f') \<Rightarrow>
             (case btm_get (fab_pointer_cells f') key of
                Some p \<Rightarrow>
                  if bytes = cell_bytes (sp_words p) then Some (Inr (Some p), f')
                  else Some (Inl (pointer_cell_fault f' r NoCapability), f')
              | None \<Rightarrow>
                  if list_all (\<lambda>b. b = 0) bytes then Some (Inr None, f')
                  else Some (Inl (pointer_cell_fault f' r NoCapability), f'))))"

section \<open>Local frames\<close>

definition spans_overlap :: "u64 \<Rightarrow> u64 \<Rightarrow> u64 \<Rightarrow> u64 \<Rightarrow> bool" where
  "spans_overlap a n b m =
     (if n = 0 \<or> m = 0 then False
      else case (checked_add a n, checked_add b m) of
             (Some end_a, Some end_b) \<Rightarrow> a < end_b \<and> b < end_a
           | _ \<Rightarrow> True)"

definition frame_rival_agent :: "fabric \<Rightarrow> memory_request \<Rightarrow> bool" where
  "frame_rival_agent f fr \<longleftrightarrow>
     list_ex (\<lambda>(i, a). i \<noteq> ctx_agent (req_context fr) \<and> agent_domain a = ctx_domain (req_context fr)) (fab_agents f)
     \<or> list_ex (\<lambda>(_, d). dom_id d \<noteq> ctx_domain (req_context fr)
          \<and> list_ex (\<lambda>e. cap_object (ce_cap e) = req_object fr \<and> validate f (ce_cap e)
               \<and> spans_overlap (req_offset fr) (req_length fr) (cap_offset (ce_cap e)) (cap_length (ce_cap e)))
              (dom_capabilities d)) (fab_domains f)"

definition frame_alias_object :: "fabric \<Rightarrow> memory_request \<Rightarrow> u64 \<Rightarrow> bool" where
  "frame_alias_object f fr physical \<longleftrightarrow>
     list_ex (\<lambda>(_, ob). obj_id ob \<noteq> req_object fr \<and> obj_live ob
       \<and> (case btm_get (fab_placement f) (obj_id ob) of
            None \<Rightarrow> False
          | Some base \<Rightarrow> spans_overlap physical (req_length fr) base (obj_size ob))) (fab_objects f)"

definition placed_at :: "fabric \<Rightarrow> object_id \<Rightarrow> u64 \<Rightarrow> u64 option" where
  "placed_at f i ofs =
     (case btm_get (fab_placement f) i of None \<Rightarrow> None | Some b \<Rightarrow> checked_add b ofs)"

definition frame_live_backing :: "fabric \<Rightarrow> memory_request \<Rightarrow> u64 \<Rightarrow> bool" where
  "frame_live_backing f fr physical \<longleftrightarrow>
     list_ex (\<lambda>live.
        (pb_object (lf_backing live) = req_object fr
          \<and> spans_overlap (req_offset fr) (req_length fr) (pb_offset (lf_backing live)) (lf_length live))
        \<or> (case placed_at f (pb_object (lf_backing live)) (pb_offset (lf_backing live)) of
             None \<Rightarrow> False
           | Some at \<Rightarrow> spans_overlap physical (req_length fr) at (lf_length live)))
       (live_frame_backings (fab_scoped_pointers f) @ live_local_backings (fab_scoped_pointers f))"

definition frame_pending_tx :: "fabric \<Rightarrow> memory_request \<Rightarrow> u64 \<Rightarrow> bool" where
  "frame_pending_tx f fr physical \<longleftrightarrow>
     list_ex (\<lambda>tx. let r = tx_request tx in
        (req_object r = req_object fr \<and> spans_overlap (req_offset fr) (req_length fr) (req_offset r) (req_length r))
        \<or> (case tx_physical_address tx of
             None \<Rightarrow> False | Some at \<Rightarrow> spans_overlap physical (req_length fr) at (req_length r))
        \<or> (case placed_at f (req_object r) (req_offset r) of
             None \<Rightarrow> False | Some at \<Rightarrow> spans_overlap physical (req_length fr) at (req_length r)))
       (filter (\<lambda>tx. \<not> tx_is_terminal (tx_state tx)) (fab_transactions f))"

definition preflight_local_frame_exclusion :: "fabric \<Rightarrow> memory_request \<Rightarrow> u64 \<Rightarrow> pointer_machine_error + unit" where
  "preflight_local_frame_exclusion f fr physical =
     (if frame_rival_agent f fr then Inl (MPointer PRights)
      else if frame_alias_object f fr physical then Inl (MPointer PRights)
      else if frame_live_backing f fr physical then Inl (MPointer PRights)
      else if frame_pending_tx f fr physical then Inl (MPointer PRights)
      else Inr ())"

type_synonym registration = "memory_request \<times> u64 \<times> bool"

fun ordered_disjoint :: "registration list \<Rightarrow> bool" where
  "ordered_disjoint ((r0, a0, w0) # (r1, a1, w1) # rs) \<longleftrightarrow>
     (case checked_add a0 (req_length r0) of None \<Rightarrow> False | Some end \<Rightarrow> end \<le> a1)
     \<and> ordered_disjoint ((r1, a1, w1) # rs)"
| "ordered_disjoint _ \<longleftrightarrow> True"

definition registration_invalid :: "memory_request \<Rightarrow> u64 \<Rightarrow> u64 \<Rightarrow> memory_request \<Rightarrow> u64 \<Rightarrow> bool" where
  "registration_invalid fr address end r at \<longleftrightarrow>
     ctx_agent (req_context r) \<noteq> ctx_agent (req_context fr)
     \<or> ctx_domain (req_context r) \<noteq> ctx_domain (req_context fr)
     \<or> ctx_privilege (req_context r) \<noteq> ctx_privilege (req_context fr)
     \<or> req_kind r \<noteq> Read
     \<or> req_object r \<noteq> req_object fr
     \<or> at < address
     \<or> (case checked_add at (req_length r) of None \<Rightarrow> True | Some n \<Rightarrow> n > end)
     \<or> checked_add (req_offset fr) (at - address) \<noteq> Some (req_offset r)"

text \<open>The validation loop; \<open>prior\<close> is the prefix already validated.\<close>

fun check_registrations :: "fabric \<Rightarrow> memory_request \<Rightarrow> u64 \<Rightarrow> u64 \<Rightarrow> pointer_backing \<Rightarrow> bool
    \<Rightarrow> registration list \<Rightarrow> registration list \<Rightarrow> pointer_machine_error + unit" where
  "check_registrations f fr address end backing ordered prior [] = Inr ()"
| "check_registrations f fr address end backing ordered prior ((r, at, writable) # rs) =
     (if registration_invalid fr address end r at then Inl (MPointer PInvalidRange)
      else case checked_local_backing f r writable of
        Inl e \<Rightarrow> Inl e
      | Inr current \<Rightarrow>
          if pb_generation current \<noteq> pb_generation backing then Inl (MPointer PInvalidRange)
          else if \<not> ordered \<and> list_ex (\<lambda>(o', p', _). spans_overlap at (req_length r) p' (req_length o')) prior
          then Inl (MPointer PInvalidRange)
          else check_registrations f fr address end backing ordered (prior @ [(r, at, writable)]) rs)"

fun register_all :: "scoped_pointers \<Rightarrow> scope \<Rightarrow> u64 \<Rightarrow> generation \<Rightarrow> registration list
    \<Rightarrow> (scoped_pointer list \<times> scoped_pointers) option" where
  "register_all sp scope domain g [] = Some ([], sp)"
| "register_all sp scope domain g ((r, at, writable) # rs) =
     (case register sp scope domain at (req_length r) writable of
        (Inl _, _) \<Rightarrow> None
      | (Inr p, sp1) \<Rightarrow>
         (case bind_backing sp1 p \<lparr>pb_object = req_object r, pb_generation = g, pb_offset = req_offset r\<rparr> of
            None \<Rightarrow> None
          | Some sp2 \<Rightarrow>
             (case register_all sp2 scope domain g rs of
                None \<Rightarrow> None
              | Some (ps, sp3) \<Rightarrow> Some (p # ps, sp3))))"

definition frame_cell_survives :: "fabric \<Rightarrow> u64 \<Rightarrow> u64 \<Rightarrow> object_id \<times> generation \<times> u64 \<Rightarrow> bool" where
  "frame_cell_survives f physical ln key =
     (case placed_at f (fst key) (snd (snd key)) of
        None \<Rightarrow> True
      | Some cell \<Rightarrow> \<not> spans_overlap physical ln cell 16)"

text \<open>Everything up to the first write of \<open>issue_pointer_frame\<close>: the frame's backing and physical base.\<close>

definition check_pointer_frame :: "fabric \<Rightarrow> u64 \<Rightarrow> memory_request \<Rightarrow> u64 \<Rightarrow> registration list
    \<Rightarrow> pointer_machine_error + pointer_backing \<times> u64" where
  "check_pointer_frame f owner fr address rs =
     (if owner = 0 \<or> ctx_privilege (req_context fr) \<noteq> User \<or> req_kind fr \<noteq> Read
         \<or> btm_get (fab_pointer_stack_objects f) (req_object fr) \<noteq> Some (owner, ctx_domain (req_context fr))
         \<or> \<not> (case btm_get (fab_agents f) (ctx_agent (req_context fr)) of
                None \<Rightarrow> False
              | Some a \<Rightarrow> agent_domain a = ctx_domain (req_context fr) \<and> is_cpu (agent_kind a))
      then Inl (MPointer PDomain)
      else if address mod 16 \<noteq> 0 \<or> req_offset fr mod 16 \<noteq> 0 \<or> req_length fr = 0
         \<or> req_length fr mod 16 \<noteq> 0 \<or> length rs > 4096
      then Inl (MPointer PInvalidRange)
      else case checked_add address (req_length fr) of
        None \<Rightarrow> Inl (MPointer PInvalidRange)
      | Some end \<Rightarrow>
          if checked_add (req_offset fr) (req_length fr) = None then Inl (MPointer PInvalidRange)
          else case checked_local_backing f fr True of
            Inl e \<Rightarrow> Inl e
          | Inr backing \<Rightarrow>
             (case translate f (req_object fr) (req_offset fr) of
                None \<Rightarrow> Inl MUnmapped
              | Some physical \<Rightarrow>
                 (case checked_add physical (req_length fr) of
                    None \<Rightarrow> Inl (MPointer PInvalidRange)
                  | Some physical_end \<Rightarrow>
                      if physical mod 16 \<noteq> 0 \<or> unat physical_end > length (fab_memory f)
                         \<or> heap_pool_overlaps f physical (req_length fr)
                      then Inl (MPointer PInvalidRange)
                      else case preflight_frame (fab_scoped_pointers f) (length rs) of
                        Inl e \<Rightarrow> Inl (MPointer e)
                      | Inr _ \<Rightarrow>
                         (case check_registrations f fr address end backing (ordered_disjoint rs) [] rs of
                            Inl e \<Rightarrow> Inl e
                          | Inr _ \<Rightarrow>
                             (case preflight_local_frame_exclusion f fr physical of
                                Inl e \<Rightarrow> Inl e
                              | Inr _ \<Rightarrow> Inr (backing, physical))))))"

definition issue_pointer_frame :: "fabric \<Rightarrow> u64 \<Rightarrow> memory_request \<Rightarrow> u64 \<Rightarrow> registration list
    \<Rightarrow> ((pointer_machine_error + scope \<times> scoped_pointer list) \<times> fabric) option" where
  "issue_pointer_frame f owner fr address rs =
     (case check_pointer_frame f owner fr address rs of
        Inl e \<Rightarrow> Some (Inl e, f)
      | Inr (backing, physical) \<Rightarrow>
          let f1 = f\<lparr>fab_memory := copy_at (unat physical) (replicate (unat (req_length fr)) 0) (fab_memory f),
                     fab_pointer_cells := btm_retain
                       (\<lambda>k _. frame_cell_survives f physical (req_length fr) k) (fab_pointer_cells f)\<rparr>
          in case enter_scope_for (fab_scoped_pointers f1) owner of
            None \<Rightarrow> None
          | Some (Inl _, _) \<Rightarrow> None
          | Some (Inr scope, sp1) \<Rightarrow>
             (case bind_frame sp1 scope \<lparr>lf_backing = backing, lf_length = req_length fr\<rparr> of
                None \<Rightarrow> None
              | Some sp2 \<Rightarrow>
                 (case register_all sp2 scope (domain_id_raw (ctx_domain (req_context fr)))
                         (pb_generation backing) rs of
                    None \<Rightarrow> None
                  | Some (ps, sp3) \<Rightarrow> Some (Inr (scope, ps), f1\<lparr>fab_scoped_pointers := sp3\<rparr>))))"

end
