(* ===== verification/Fabric_Inv.thy ===== *)
theory Fabric_Inv
  imports Fabric_Exec Fabric_Ptr Step_System
begin

text \<open>
  The fabric as a state machine.  \<open>fabric_op\<close> lists every operation of the fabric outside the
  private heap; a state pairs the fabric with the set of all capabilities ever minted, because the
  parent of a \<open>derive\<close> may be any capability the fabric has handed out, still filed in a domain or
  not.  Each operation is classified by its effect on the object table (\<open>core_change\<close>) and by the
  capabilities it mints (\<open>minted\<close>); the invariants of this theory follow from the classification.
\<close>

section \<open>Operations\<close>

definition caps_of :: "fabric \<Rightarrow> capability64 set" where
  "caps_of f = {ce_cap e | e d dom. (d, dom) \<in> set (fab_domains f) \<and> e \<in> set (dom_capabilities dom)}"

inductive fabric_op :: "capability64 set \<Rightarrow> fabric \<Rightarrow> fabric \<Rightarrow> bool" for M f where
  op_alloc: "fabric_op M f (snd (try_alloc_object f n sz kind))"
| op_place: "fabric_op M f (snd (place_object f i base))"
| op_revoke: "fabric_op M f (revoke f i)"
| op_seal: "fabric_op M f (snd (seal_object f i))"
| op_destroy: "fabric_op M f (destroy_object f i)"
| op_rollback: "fabric_op M f (snd (rollback_unpublished_object f i))"
| op_zero_extent: "fabric_op M f (snd (zero_object_extent f i))"
| op_zero_physical: "fabric_op M f (zero_physical f base sz)"
| op_write_physical: "fabric_op M f (snd (try_write_physical f base data))"
| op_initialize: "fabric_op M f (snd (initialize_object f i ofs data))"
| op_create_domain: "fabric_op M f (snd (create_domain f))"
| op_try_create_domain: "fabric_op M f (snd (try_create_compiler_domain f))"
| op_destroy_domain: "fabric_op M f (destroy_domain f d)"
| op_register_agent: "fabric_op M f (register_agent f a kind d)"
| op_remove_agent: "fabric_op M f (f\<lparr>fab_agents := btm_remove a (fab_agents f)\<rparr>)"
| op_authority_id: "fabric_op M f (snd (alloc_authority_id f))"
| op_timer: "fabric_op M f (f\<lparr>fab_timer := t\<rparr>)"
| op_grant: "fabric_op M f (snd (grant f d i ofs ln p))"
| op_grant_id: "fabric_op M f (snd (grant_with_authority_id f d i ofs ln p a))"
| op_remove_authority: "fabric_op M f (snd (remove_by_authority_id f d a))"
| op_derive: "parent \<in> M \<Longrightarrow> fabric_op M f (snd (derive f d parent ofs ln p))"
| op_derive_id: "fabric_op M f (snd (derive_from_authority_id f src a dst ofs ln p b))"
| op_derive_device: "fabric_op M f (snd (derive_device_from_authority_id f src a i g rs dst rs' b))"
| op_delegate: "fabric_op M f (snd (delegate_dma_span f src i ofs ln p))"
| op_delegate_id: "fabric_op M f (snd (delegate_dma_span_from_authority_id f src a i ofs ln p))"
| op_grant_device: "fabric_op M f (snd (grant_device_with_authority_id f d i rs a))"
| op_submit: "fabric_op M f (snd (submit f r wd))"
| op_advance: "advance f n = Some f' \<Longrightarrow> fabric_op M f f'"
| op_read: "execute_read f r = Some (rres, f') \<Longrightarrow> fabric_op M f f'"
| op_write: "execute_write f r data = Some (wres, f') \<Longrightarrow> fabric_op M f f'"
| op_xchg: "execute_atomic_xchg f r data = Some (rres, f') \<Longrightarrow> fabric_op M f f'"
| op_discard: "fabric_op M f (snd (discard_completed_compiler_trace f))"
| op_collect_compiler: "fabric_op M f (snd (collect_admitted_compiler_trace txc logc f))"
| op_collect_run: "fabric_op M f (snd (collect_application_run_trace txc logc f capacity))"
| op_prepare_trace: "fabric_op M f (snd (prepare_preprocessor_trace txc logc reserved f capacity))"
| op_protect: "fabric_op M f (snd (protect_pointer_stack f i owner d))"
| op_retire: "retire_pointer_frame f sc ps = Some (pres, f') \<Longrightarrow> fabric_op M f f'"
| op_register_pointer: "register_scoped_pointer f sc r base wr = Some (sres, f') \<Longrightarrow> fabric_op M f f'"
| op_store_cell: "store_pointer_cell f r ptr = Some (wres, f') \<Longrightarrow> fabric_op M f f'"
| op_load_cell: "load_pointer_cell f r = Some (lres, f') \<Longrightarrow> fabric_op M f f'"
| op_issue_frame: "issue_pointer_frame f own r base rs = Some (fres, f') \<Longrightarrow> fabric_op M f f'"

type_synonym fabric_sys = "fabric \<times> capability64 set"

inductive fabric_step :: "fabric_sys \<Rightarrow> fabric_sys \<Rightarrow> bool" where
  "fabric_op M f f' \<Longrightarrow> fabric_step (f, M) (f', M \<union> caps_of f')"

inductive_cases fabric_stepE: "fabric_step s t"

text \<open>Any memory, any pointer registry and any private heap may be there at the start.\<close>

definition fabric_init :: "fabric_sys \<Rightarrow> bool" where
  "fabric_init s \<longleftrightarrow> (\<exists>memory sp heap. s = (from_parts memory sp heap, {}))"

section \<open>The object table\<close>

definition core_of :: "fabric \<Rightarrow> (object_id, object) btm \<times> (object_id, u64) btm \<times> u64 \<times> heap_fabric option" where
  "core_of f = (fab_objects f, fab_placement f, fab_next_object_id f, fab_private_heap f)"

lemma core_of_upd [simp]:
  "core_of (f\<lparr>fab_scoped_pointers := x1\<rparr>) = core_of f" "core_of (f\<lparr>fab_pointer_stack_objects := x2\<rparr>) = core_of f"
  "core_of (f\<lparr>fab_pointer_cells := x3\<rparr>) = core_of f" "core_of (f\<lparr>fab_domains := x4\<rparr>) = core_of f"
  "core_of (f\<lparr>fab_agents := x5\<rparr>) = core_of f" "core_of (f\<lparr>fab_memory := x6\<rparr>) = core_of f"
  "core_of (f\<lparr>fab_fault_log := x7\<rparr>) = core_of f" "core_of (f\<lparr>fab_transactions := x8\<rparr>) = core_of f"
  "core_of (f\<lparr>fab_next_domain_id := x9\<rparr>) = core_of f" "core_of (f\<lparr>fab_next_tx_id := x10\<rparr>) = core_of f"
  "core_of (f\<lparr>fab_next_authority_id := x11\<rparr>) = core_of f" "core_of (f\<lparr>fab_timer := x12\<rparr>) = core_of f"
  by (simp_all add: core_of_def)

lemma core_of_with_tx [simp]: "core_of (with_tx f tx log) = core_of f"
  by (simp add: with_tx_def)

lemma core_clear [simp]: "core_of (clear_pointer_cells_physical f b n) = core_of f"
  by (simp add: clear_pointer_cells_physical_def)

lemma core_retain [simp]: "core_of (retain_other_cells f i) = core_of f"
  by (simp add: retain_other_cells_def)

lemma core_commit [simp]: "core_of (commit_bytes f b e d) = core_of f"
  by (simp add: commit_bytes_def Let_def)

lemma core_set_tx [simp]: "core_of (set_tx f n tx) = core_of f"
  by (simp add: set_tx_def)

lemma core_fault [simp]: "core_of (fault_transaction f n reason) = core_of f"
  by (simp add: fault_transaction_def Let_def)

lemma core_push [simp]: "core_of (snd (push_capability f d c a)) = core_of f"
  by (simp add: push_capability_def split: option.splits)

lemma core_create [simp]: "core_of (snd (create_domain f)) = core_of f"
  by (simp add: create_domain_def Let_def)

lemma core_derive [simp]: "core_of (snd (derive f d parent ofs ln p)) = core_of f"
  by (simp add: derive_def split: option.splits)

lemma core_delegate_fresh [simp]: "core_of (snd (delegate_into_fresh_domain f parent ofs ln p)) = core_of f"
  by (auto simp: delegate_into_fresh_domain_def Let_def destroy_domain_def split: prod.splits)
    (metis core_create core_derive snd_conv)+

text \<open>Operations that leave the object table alone.\<close>

lemma core_bytes:
  "core_of (snd (zero_object_extent f i)) = core_of f" "core_of (zero_physical f base sz) = core_of f"
  "core_of (snd (try_write_physical f base data)) = core_of f" "core_of (snd (initialize_object f i ofs data)) = core_of f"
  by (simp_all add: zero_object_extent_def zero_physical_def try_write_physical_def initialize_object_def Let_def
      split: option.splits)

lemma core_domains:
  "core_of (snd (try_create_compiler_domain f)) = core_of f" "core_of (destroy_domain f d) = core_of f"
  "core_of (register_agent f a kind d) = core_of f" "core_of (snd (alloc_authority_id f)) = core_of f"
  by (simp_all add: try_create_compiler_domain_def destroy_domain_def register_agent_def alloc_authority_id_def
      create_domain_def Let_def split: option.splits)

lemma core_grants:
  "core_of (snd (grant f d i ofs ln p)) = core_of f" "core_of (snd (grant_with_authority_id f d i ofs ln p a)) = core_of f"
  "core_of (snd (remove_by_authority_id f d a)) = core_of f"
  "core_of (snd (derive_from_authority_id f src a dst ofs ln p b)) = core_of f"
  "core_of (snd (delegate_dma_span f src i ofs ln p)) = core_of f"
  "core_of (snd (delegate_dma_span_from_authority_id f src a i ofs ln p)) = core_of f"
  by (simp_all add: grant_def grant_with_authority_id_def remove_by_authority_id_def derive_from_authority_id_def
      delegate_dma_span_def delegate_dma_span_from_authority_id_def Let_def split: option.splits)

lemma core_device:
  "derive_device_from_authority_id f src a i g rs dst rs' b = (dres, f1) \<Longrightarrow> core_of f1 = core_of f"
  "grant_device_with_authority_id f d i rs a = (gres, f1) \<Longrightarrow> core_of f1 = core_of f"
  unfolding derive_device_from_authority_id_def grant_device_with_authority_id_def push_device_authority_def
  by (clarsimp split: if_split_asm option.split_asm)+

lemma core_transactions:
  "core_of (snd (submit f r wd)) = core_of f" "advance f n = Some f1 \<Longrightarrow> core_of f1 = core_of f"
  "core_of (snd (discard_completed_compiler_trace f)) = core_of f"
  "core_of (snd (protect_pointer_stack f i owner d)) = core_of f"
  by (auto simp: submit_def advance_def phase_authorize_def phase_translate_def phase_commit_def validate_precommit_def
      discard_completed_compiler_trace_def protect_pointer_stack_def Let_def
      split: if_splits auth_result.splits option.splits sum.splits tx_state.splits)

lemma core_collectors:
  "core_of (snd (collect_admitted_compiler_trace txc logc f)) = core_of f"
  "core_of (snd (collect_application_run_trace txc logc f capacity)) = core_of f"
  "core_of (snd (prepare_preprocessor_trace txc logc reserved f capacity)) = core_of f"
  by (simp_all add: collect_admitted_compiler_trace_def collect_application_run_trace_def prepare_preprocessor_trace_def
      discard_completed_compiler_trace_def)

lemma core_run: "run_schedule f es = Some f1 \<Longrightarrow> \<forall>e \<in> set es. \<exists>n. e = Advance n \<Longrightarrow> core_of f1 = core_of f"
  by (induction f es rule: run_schedule.induct) (auto split: option.splits dest: core_transactions(2))

lemma core_validate_precommit: "validate_precommit f n = (res, f1) \<Longrightarrow> core_of f1 = core_of f"
  by (auto simp: validate_precommit_def split: sum.splits)

lemma submit_snd: "submit f r wd = (n, f1) \<Longrightarrow> core_of f1 = core_of f"
  using core_transactions(1)[of f r wd] by simp

lemma core_execute:
  "execute_read f r = Some (rres, f1) \<Longrightarrow> core_of f1 = core_of f"
  "execute_write f r data = Some (wres, f1) \<Longrightarrow> core_of f1 = core_of f"
  "execute_atomic_xchg f r data = Some (rres, f1) \<Longrightarrow> core_of f1 = core_of f"
  by (auto simp: execute_read_def execute_write_def execute_atomic_xchg_def advance3_def Let_def
      simp del: run_schedule.simps dest!: core_run core_validate_precommit submit_snd
      split: prod.splits option.splits tx_state.splits if_splits sum.splits)

lemma core_retire_locals [simp]: "core_of (retire_locals f ps) = core_of f"
  by (induction ps arbitrary: f) (auto simp: Let_def split: prod.splits option.splits)

lemma core_pointers:
  "retire_pointer_frame f sc ps = Some (pres, f1) \<Longrightarrow> core_of f1 = core_of f"
  "register_scoped_pointer f sc r base wr = Some (sres, f1) \<Longrightarrow> core_of f1 = core_of f"
  "store_pointer_cell f r ptr = Some (wres, f1) \<Longrightarrow> core_of f1 = core_of f"
  "load_pointer_cell f r = Some (lres, f1) \<Longrightarrow> core_of f1 = core_of f"
  "issue_pointer_frame f own r base rs = Some (fres, f1) \<Longrightarrow> core_of f1 = core_of f"
  by (auto simp: retire_pointer_frame_def register_scoped_pointer_def store_pointer_cell_def load_pointer_cell_def
      issue_pointer_frame_def Let_def dest!: core_execute(1,2)
      split: option.splits sum.splits prod.splits if_splits)

text \<open>The operations that change the table, as one relation.\<close>

inductive core_change :: "fabric \<Rightarrow> fabric \<Rightarrow> bool" for f f' where
  cc_same: "core_of f' = core_of f \<Longrightarrow> core_change f f'"
| cc_alloc: "f' = snd (try_alloc_object f n sz kind) \<Longrightarrow> core_change f f'"
| cc_place: "f' = snd (place_object f i base) \<Longrightarrow> core_change f f'"
| cc_revoke: "f' = revoke f i \<Longrightarrow> core_change f f'"
| cc_seal: "f' = snd (seal_object f i) \<Longrightarrow> core_change f f'"
| cc_destroy: "f' = destroy_object f i \<Longrightarrow> core_change f f'"
| cc_rollback: "f' = snd (rollback_unpublished_object f i) \<Longrightarrow> core_change f f'"

lemmas core_same_ops = core_bytes core_domains core_grants core_transactions core_collectors core_execute
  core_pointers

lemma fabric_op_core: "fabric_op M f f' \<Longrightarrow> core_change f f'"
  by (cases rule: fabric_op.cases)
    (auto intro: core_change.intros simp: core_same_ops core_device[OF prod.collapse[symmetric]])

section \<open>Capabilities\<close>

definition attenuates :: "capability64 \<Rightarrow> capability64 \<Rightarrow> bool" where
  "attenuates child parent \<longleftrightarrow> cap_object child = cap_object parent \<and> cap_generation child = cap_generation parent
     \<and> perm_is_subset_of (cap_permissions child) (cap_permissions parent)
     \<and> unat (cap_offset parent) \<le> unat (cap_offset child)
     \<and> unat (cap_offset child) + unat (cap_length child) \<le> unat (cap_offset parent) + unat (cap_length parent)"

definition minted :: "capability64 set \<Rightarrow> fabric \<Rightarrow> capability64 \<Rightarrow> bool" where
  "minted M f c \<longleftrightarrow>
     (\<exists>ob. btm_get (fab_objects f) (cap_object c) = Some ob \<and> obj_generation ob = cap_generation c
        \<and> grant_state_ok (obj_state ob) (cap_permissions c)
        \<and> unat (cap_offset c) + unat (cap_length c) \<le> unat (obj_size ob))
     \<or> (\<exists>parent \<in> M. validate f parent \<and> attenuates c parent)"

definition doms_of :: "fabric \<Rightarrow> (domain_id, domain_state) btm \<times> u64" where
  "doms_of f = (fab_domains f, fab_next_domain_id f)"

lemma caps_of_cong: "doms_of g = doms_of f \<Longrightarrow> caps_of g = caps_of f"
  by (simp add: caps_of_def doms_of_def)

lemma span_le:
  fixes a b n m :: u64
  assumes "\<not> a < b" "\<not> n > m" "\<not> a - b > m - n"
  shows "unat b \<le> unat a \<and> unat a + unat n \<le> unat b + unat m"
proof -
  have "unat b \<le> unat a" "unat n \<le> unat m" using assms(1,2) by (simp_all add: word_le_nat_alt not_less)
  moreover have "unat (a - b) = unat a - unat b" "unat (m - n) = unat m - unat n"
    using assms(1,2) by (simp_all add: unat_minus_exact)
  moreover have "unat (a - b) \<le> unat (m - n)" using assms(3) by (simp add: word_le_nat_alt not_less)
  ultimately show ?thesis by simp
qed

lemma span_fit:
  fixes ofs ln sz :: u64
  assumes "\<not> sz < ln" "\<not> sz - ln < ofs" shows "unat ofs + unat ln \<le> unat sz"
  using span_le[of ofs 0 sz ln, OF _ assms(1)] assms(2) by auto

lemmas span_leI = span_le[THEN conjunct1] span_le[THEN conjunct2]

lemma caps_push: "caps_of (snd (push_capability f d c a)) \<subseteq> insert c (caps_of f)"
proof (cases "btm_get (fab_domains f) d")
  case None
  then show ?thesis by (auto simp: push_capability_def)
next
  case (Some dom)
  let ?new = "dom\<lparr>dom_capabilities := dom_capabilities dom @ [\<lparr>ce_cap = c, ce_authority_id = a\<rparr>]\<rparr>"
  have mem: "(d, dom) \<in> set (fab_domains f)" using Some by (rule map_of_SomeD)
  have "set (fab_domains (snd (push_capability f d c a))) \<subseteq> insert (d, ?new) (set (fab_domains f))"
    using Some set_btm_insert[of d ?new "fab_domains f"] by (simp add: push_capability_def)
  then show ?thesis using mem unfolding caps_of_def by fastforce
qed

lemma grant_Some:
  assumes "grant f d i ofs ln p = (Some c, f')"
  shows "f' = snd (push_capability f d c None) \<and> minted M f c"
  using assms unfolding grant_def push_capability_def minted_def
  by (clarsimp split: if_split_asm option.split_asm simp: span_fit)

lemma grant_None: "grant f d i ofs ln p = (None, f') \<Longrightarrow> f' = f"
  unfolding grant_def push_capability_def by (clarsimp split: if_split_asm option.split_asm)

lemma grant_minted: "caps_of (snd (grant f d i ofs ln p)) \<subseteq> caps_of f \<union> {c. minted M f c}"
proof (cases "grant f d i ofs ln p")
  case (Pair r f')
  then show ?thesis using caps_push[of f d _ None]
    by (cases r) (auto dest: grant_None dest!: grant_Some[where M = M])
qed

lemma grant_id_Some:
  assumes "grant_with_authority_id f d i ofs ln p a = (Some c, f')"
  shows "f' = snd (push_capability f d c (Some a)) \<and> minted M f c"
  using assms unfolding grant_with_authority_id_def push_capability_def minted_def
  by (clarsimp split: if_split_asm option.split_asm simp: span_fit)

lemma grant_id_None: "grant_with_authority_id f d i ofs ln p a = (None, f') \<Longrightarrow> f' = f"
  unfolding grant_with_authority_id_def push_capability_def by (clarsimp split: if_split_asm option.split_asm)

lemma grant_id_minted: "caps_of (snd (grant_with_authority_id f d i ofs ln p a)) \<subseteq> caps_of f \<union> {c. minted M f c}"
proof (cases "grant_with_authority_id f d i ofs ln p a")
  case (Pair r f')
  then show ?thesis using caps_push[of f d _ "Some a"]
    by (cases r) (auto dest: grant_id_None dest!: grant_id_Some[where M = M])
qed

lemma derive_attenuates:
  assumes "derive f d parent ofs ln p = (Some c, f')"
  shows "validate f parent \<and> attenuates c parent \<and> f' = snd (push_capability f d c None)"
  using assms by (auto intro: span_leI simp: derive_def attenuates_def push_capability_def split: if_splits option.splits)

lemma derive_minted:
  assumes "parent \<in> M"
  shows "caps_of (snd (derive f d parent ofs ln p)) \<subseteq> caps_of f \<union> {c. minted M f c}"
proof (cases "fst (derive f d parent ofs ln p)")
  case None
  then show ?thesis by (auto simp: derive_def push_capability_def split: if_splits option.splits)
next
  case (Some c)
  note a = derive_attenuates[of f d parent ofs ln p c "snd (derive f d parent ofs ln p)"]
  have "derive f d parent ofs ln p = (Some c, snd (derive f d parent ofs ln p))" using Some by (metis prod.collapse)
  from a[OF this] show ?thesis using caps_push[of f d c None] assms by (auto simp: minted_def)
qed

lemma domain_entry_cap:
  assumes "btm_get (fab_domains f) d = Some ds" "e \<in> set (dom_capabilities ds)"
  shows "ce_cap e \<in> caps_of f"
  using map_of_SomeD[OF assms(1)] assms(2) unfolding caps_of_def by blast

lemma find_mem: "find P xs = Some x \<Longrightarrow> x \<in> set xs \<and> P x"
  by (auto simp: find_Some_iff)

text \<open>The parent is the entry of the source domain that the identifier names.\<close>

lemma derive_id_entry:
  assumes "derive_from_authority_id f src a dst ofs ln p b = (Some c, f')"
  shows "\<exists>ds e. btm_get (fab_domains f) src = Some ds \<and> e \<in> set (dom_capabilities ds) \<and> ce_authority_id e = Some a
    \<and> validate f (ce_cap e) \<and> attenuates c (ce_cap e) \<and> \<not> has_authority_id f dst b
    \<and> cap_offset c = ofs \<and> cap_length c = ln \<and> cap_permissions c = p
    \<and> push_capability f dst c (Some b) = (Some c, f')"
proof -
  from assms obtain ds e where d: "btm_get (fab_domains f) src = Some ds"
    "find (\<lambda>e. ce_authority_id e = Some a) (dom_capabilities ds) = Some e"
    by (auto simp: derive_from_authority_id_def split: option.splits)
  have "validate f (ce_cap e) \<and> attenuates c (ce_cap e) \<and> \<not> has_authority_id f dst b
      \<and> cap_offset c = ofs \<and> cap_length c = ln \<and> cap_permissions c = p \<and> push_capability f dst c (Some b) = (Some c, f')"
    using assms d by (auto intro: span_leI simp: derive_from_authority_id_def attenuates_def push_capability_def Let_def
        split: if_splits option.splits)
  then show ?thesis using d(1) find_mem[OF d(2)] by blast
qed

lemma derive_id_attenuates:
  assumes "derive_from_authority_id f src a dst ofs ln p b = (Some c, f')"
  shows "\<exists>parent \<in> caps_of f. validate f parent \<and> attenuates c parent \<and> f' = snd (push_capability f dst c (Some b))"
  using derive_id_entry[OF assms] domain_entry_cap by (metis snd_conv)

lemma derive_id_minted:
  assumes "caps_of f \<subseteq> M"
  shows "caps_of (snd (derive_from_authority_id f src a dst ofs ln p b)) \<subseteq> caps_of f \<union> {c. minted M f c}"
proof (cases "fst (derive_from_authority_id f src a dst ofs ln p b)")
  case None
  then show ?thesis
    by (auto simp: derive_from_authority_id_def push_capability_def Let_def split: if_splits option.splits)
next
  case (Some c)
  then have "derive_from_authority_id f src a dst ofs ln p b = (Some c, snd (derive_from_authority_id f src a dst ofs ln p b))"
    by (metis prod.collapse)
  from derive_id_attenuates[OF this] assms have "minted M f c"
    "snd (derive_from_authority_id f src a dst ofs ln p b) = snd (push_capability f dst c (Some b))"
    unfolding minted_def by blast+
  then show ?thesis using caps_push[of f dst c "Some b"] by auto
qed

lemma caps_insert_empty:
  "dom_capabilities v = [] \<Longrightarrow> caps_of (f\<lparr>fab_domains := btm_insert d v (fab_domains f)\<rparr>) \<subseteq> caps_of f"
  using set_btm_insert[of d v "fab_domains f"] by (fastforce simp: caps_of_def)

lemma caps_create: "caps_of (snd (create_domain f)) \<subseteq> caps_of f"
proof -
  let ?d = "DomainId (fab_next_domain_id f)"
  let ?v = "\<lparr>dom_id = ?d, dom_capabilities = [], dom_device_authorities = []\<rparr>"
  have "caps_of (snd (create_domain f)) = caps_of (f\<lparr>fab_domains := btm_insert ?d ?v (fab_domains f)\<rparr>)"
    by (simp add: caps_of_def create_domain_def Let_def)
  then show ?thesis using caps_insert_empty[where v = ?v and f = f and d = ?d] by simp
qed

lemma caps_destroy_domain: "caps_of (destroy_domain f d) \<subseteq> caps_of f"
  by (auto simp: caps_of_def destroy_domain_def btm_remove_def)

lemma minted_cong: "fab_objects g = fab_objects f \<Longrightarrow> fab_private_heap g = fab_private_heap f \<Longrightarrow> minted M g c = minted M f c"
  by (simp add: minted_def validate_cong[of g f])

lemma delegate_fresh_minted:
  assumes "parent \<in> M"
  shows "caps_of (snd (delegate_into_fresh_domain f parent ofs ln p)) \<subseteq> caps_of f \<union> {c. minted M f c}"
proof -
  obtain d f1 where c: "create_domain f = (d, f1)" by fastforce
  obtain r f2 where v: "derive f1 d parent ofs ln p = (r, f2)" by fastforce
  have same: "fab_objects f1 = fab_objects f" "fab_private_heap f1 = fab_private_heap f"
    using c by (auto simp: create_domain_def Let_def)
  have "caps_of f2 \<subseteq> caps_of f1 \<union> {c. minted M f1 c}" using derive_minted[OF assms, of f1 d ofs ln p] v by simp
  moreover have "caps_of f1 \<subseteq> caps_of f" using caps_create[of f] c by simp
  moreover have "minted M f1 = minted M f" using same by (intro ext minted_cong)
  ultimately have f2: "caps_of f2 \<subseteq> caps_of f \<union> {c. minted M f c}" by auto
  then show ?thesis using caps_destroy_domain[of f2 d] by (auto simp: delegate_into_fresh_domain_def c v)
qed

lemma delegate_minted:
  assumes "caps_of f \<subseteq> M"
  shows "caps_of (snd (delegate_dma_span f src i ofs ln p)) \<subseteq> caps_of f \<union> {c. minted M f c}"
    and "caps_of (snd (delegate_dma_span_from_authority_id f src a i ofs ln p)) \<subseteq> caps_of f \<union> {c. minted M f c}"
proof -
  have "parent \<in> M" if found: "find_authorizing_cap f src i ofs ln p = Some parent" for parent
  proof -
    obtain ds where ds: "btm_get (fab_domains f) src = Some ds" "parent \<in> set (map ce_cap (dom_capabilities ds))"
      using found by (auto simp: find_authorizing_cap_def split: option.split_asm dest: find_mem)
    then show ?thesis using domain_entry_cap[OF ds(1)] assms by auto
  qed
  then show "caps_of (snd (delegate_dma_span f src i ofs ln p)) \<subseteq> caps_of f \<union> {c. minted M f c}"
    using delegate_fresh_minted[of _ M f ofs ln p] by (simp add: delegate_dma_span_def split: option.splits)
  have "ce_cap e \<in> M" if "btm_get (fab_domains f) src = Some ds"
      "find (\<lambda>e. ce_authority_id e = Some a) (dom_capabilities ds) = Some e" for ds e
    using domain_entry_cap[OF that(1)] find_mem[OF that(2)] assms by blast
  then show "caps_of (snd (delegate_dma_span_from_authority_id f src a i ofs ln p)) \<subseteq> caps_of f \<union> {c. minted M f c}"
    using delegate_fresh_minted[of _ M f ofs ln p]
    by (simp add: delegate_dma_span_from_authority_id_def Let_def split: option.splits)
qed

text \<open>All other operations file no new capability.\<close>

lemma doms_of_upd [simp]:
  "doms_of (f\<lparr>fab_scoped_pointers := x1\<rparr>) = doms_of f" "doms_of (f\<lparr>fab_pointer_stack_objects := x2\<rparr>) = doms_of f"
  "doms_of (f\<lparr>fab_pointer_cells := x3\<rparr>) = doms_of f" "doms_of (f\<lparr>fab_objects := x4\<rparr>) = doms_of f"
  "doms_of (f\<lparr>fab_agents := x5\<rparr>) = doms_of f" "doms_of (f\<lparr>fab_memory := x6\<rparr>) = doms_of f"
  "doms_of (f\<lparr>fab_fault_log := x7\<rparr>) = doms_of f" "doms_of (f\<lparr>fab_transactions := x8\<rparr>) = doms_of f"
  "doms_of (f\<lparr>fab_placement := x9\<rparr>) = doms_of f" "doms_of (f\<lparr>fab_next_tx_id := x10\<rparr>) = doms_of f"
  "doms_of (f\<lparr>fab_next_authority_id := x11\<rparr>) = doms_of f" "doms_of (f\<lparr>fab_timer := x12\<rparr>) = doms_of f"
  "doms_of (f\<lparr>fab_next_object_id := x13\<rparr>) = doms_of f"
  by (simp_all add: doms_of_def)

lemma domains_with_tx [simp]: "doms_of (with_tx f tx log) = doms_of f"
  by (simp add: with_tx_def)

lemma domains_commit [simp]: "doms_of (commit_bytes f b e d) = doms_of f"
  by (simp add: commit_bytes_def clear_pointer_cells_physical_def Let_def)

lemma domains_helpers [simp]:
  "doms_of (clear_pointer_cells_physical f b m) = doms_of f"
  "doms_of (retain_other_cells f i) = doms_of f" "doms_of (set_tx f n tx) = doms_of f"
  "doms_of (fault_transaction f n reason) = doms_of f"
  by (simp_all add: clear_pointer_cells_physical_def retain_other_cells_def set_tx_def fault_transaction_def Let_def)

lemma domains_objects:
  "doms_of (snd (try_alloc_object f n sz kind)) = doms_of f" "doms_of (snd (place_object f i base)) = doms_of f"
  "doms_of (revoke f i) = doms_of f" "doms_of (snd (seal_object f i)) = doms_of f"
  "doms_of (destroy_object f i) = doms_of f" "doms_of (snd (rollback_unpublished_object f i)) = doms_of f"
  by (simp_all add: try_alloc_object_def place_object_def revoke_def seal_object_def destroy_object_def
      rollback_unpublished_object_def Let_def split: option.splits)

lemma domains_bytes:
  "doms_of (snd (zero_object_extent f i)) = doms_of f" "doms_of (zero_physical f base sz) = doms_of f"
  "doms_of (snd (try_write_physical f base data)) = doms_of f" "doms_of (snd (initialize_object f i ofs data)) = doms_of f"
  "doms_of (register_agent f a kind d) = doms_of f" "doms_of (snd (alloc_authority_id f)) = doms_of f"
  by (simp_all add: zero_object_extent_def zero_physical_def try_write_physical_def initialize_object_def register_agent_def
      alloc_authority_id_def Let_def split: option.splits)

lemma domains_transactions:
  "doms_of (snd (submit f r wd)) = doms_of f" "advance f n = Some f1 \<Longrightarrow> doms_of f1 = doms_of f"
  "doms_of (snd (discard_completed_compiler_trace f)) = doms_of f"
  "doms_of (snd (protect_pointer_stack f i owner d)) = doms_of f"
  by (auto simp: submit_def advance_def phase_authorize_def phase_translate_def phase_commit_def validate_precommit_def
      discard_completed_compiler_trace_def protect_pointer_stack_def Let_def
      split: if_splits auth_result.splits option.splits sum.splits tx_state.splits)

lemma domains_collectors:
  "doms_of (snd (collect_admitted_compiler_trace txc logc f)) = doms_of f"
  "doms_of (snd (collect_application_run_trace txc logc f capacity)) = doms_of f"
  "doms_of (snd (prepare_preprocessor_trace txc logc reserved f capacity)) = doms_of f"
  by (simp_all add: collect_admitted_compiler_trace_def collect_application_run_trace_def prepare_preprocessor_trace_def
      discard_completed_compiler_trace_def)

lemma domains_run: "run_schedule f es = Some f1 \<Longrightarrow> \<forall>e \<in> set es. \<exists>n. e = Advance n \<Longrightarrow> doms_of f1 = doms_of f"
  by (induction f es rule: run_schedule.induct) (auto split: option.splits dest: domains_transactions(2))

lemma domains_validate_precommit: "validate_precommit f n = (res, f1) \<Longrightarrow> doms_of f1 = doms_of f"
  by (auto simp: validate_precommit_def split: sum.splits)

lemma domains_submit: "submit f r wd = (n, f1) \<Longrightarrow> doms_of f1 = doms_of f"
  using domains_transactions(1)[of f r wd] by simp

lemma domains_execute:
  "execute_read f r = Some (rres, f1) \<Longrightarrow> doms_of f1 = doms_of f"
  "execute_write f r data = Some (wres, f1) \<Longrightarrow> doms_of f1 = doms_of f"
  "execute_atomic_xchg f r data = Some (rres, f1) \<Longrightarrow> doms_of f1 = doms_of f"
  by (auto simp: execute_read_def execute_write_def execute_atomic_xchg_def advance3_def Let_def
      simp del: run_schedule.simps dest!: domains_run domains_validate_precommit domains_submit
      split: prod.splits option.splits tx_state.splits if_splits sum.splits)

lemma domains_retire_locals [simp]: "doms_of (retire_locals f ps) = doms_of f"
  by (induction ps arbitrary: f) (auto simp: Let_def split: prod.splits option.splits)

lemma domains_pointers:
  "retire_pointer_frame f sc ps = Some (pres, f1) \<Longrightarrow> doms_of f1 = doms_of f"
  "register_scoped_pointer f sc r base wr = Some (sres, f1) \<Longrightarrow> doms_of f1 = doms_of f"
  "store_pointer_cell f r ptr = Some (wres, f1) \<Longrightarrow> doms_of f1 = doms_of f"
  "load_pointer_cell f r = Some (lres, f1) \<Longrightarrow> doms_of f1 = doms_of f"
  "issue_pointer_frame f own r base rs = Some (fres, f1) \<Longrightarrow> doms_of f1 = doms_of f"
  by (auto simp: retire_pointer_frame_def register_scoped_pointer_def store_pointer_cell_def load_pointer_cell_def
      issue_pointer_frame_def Let_def dest!: domains_execute(1,2)
      split: option.splits sum.splits prod.splits if_splits)

lemmas domains_same_ops = domains_objects domains_bytes domains_transactions domains_collectors domains_execute
  domains_pointers

lemma caps_replace:
  assumes "btm_get (fab_domains f) d = Some ds" "set (dom_capabilities ds') \<subseteq> set (dom_capabilities ds)"
  shows "caps_of (f\<lparr>fab_domains := btm_insert d ds' (fab_domains f)\<rparr>) \<subseteq> caps_of f"
proof
  fix c assume "c \<in> caps_of (f\<lparr>fab_domains := btm_insert d ds' (fab_domains f)\<rparr>)"
  then obtain e k v where e: "c = ce_cap e" "(k, v) \<in> set (btm_insert d ds' (fab_domains f))" "e \<in> set (dom_capabilities v)"
    by (auto simp: caps_of_def)
  show "c \<in> caps_of f"
  proof (cases "(k, v) \<in> set (fab_domains f)")
    case True
    then show ?thesis using e(1,3) by (auto simp: caps_of_def)
  next
    case False
    then have "v = ds'" using e(2) set_btm_insert[of d ds' "fab_domains f"] by auto
    then show ?thesis using domain_entry_cap[OF assms(1)] e(1,3) assms(2) by auto
  qed
qed

lemma caps_replaceD:
  "c \<in> caps_of (f\<lparr>fab_domains := btm_insert d ds' (fab_domains f)\<rparr>) \<Longrightarrow> btm_get (fab_domains f) d = Some ds \<Longrightarrow>
   set (dom_capabilities ds') \<subseteq> set (dom_capabilities ds) \<Longrightarrow> c \<in> caps_of f"
  using caps_replace by blast

lemma caps_remove_authority: "caps_of (snd (remove_by_authority_id f d a)) \<subseteq> caps_of f"
  unfolding remove_by_authority_id_def
  by (clarsimp split: option.split) (auto elim!: caps_replaceD dest: set_vec_remove_subset[THEN subsetD])

lemma caps_device:
  "derive_device_from_authority_id f src a i g rs dst rs' b = (dres, f1) \<Longrightarrow> caps_of f1 \<subseteq> caps_of f"
  "grant_device_with_authority_id f d i rs a = (gres, f1) \<Longrightarrow> caps_of f1 \<subseteq> caps_of f"
  unfolding derive_device_from_authority_id_def grant_device_with_authority_id_def push_device_authority_def
  by (clarsimp split: if_split_asm option.split_asm, (erule caps_replaceD, assumption, simp)?)+

lemmas caps_same = domains_objects[THEN caps_of_cong] domains_bytes[THEN caps_of_cong]
  domains_transactions(1,3,4)[THEN caps_of_cong] domains_collectors[THEN caps_of_cong]
lemmas caps_sameD = domains_transactions(2)[THEN caps_of_cong] domains_execute[THEN caps_of_cong]
  domains_pointers[THEN caps_of_cong]

lemma fabric_op_caps:
  assumes "fabric_op M f f'" "caps_of f \<subseteq> M"
  shows "caps_of f' \<subseteq> caps_of f \<union> {c. minted M f c}"
  using assms(1)
proof cases
  case (op_derive parent d ofs ln p)
  then show ?thesis using derive_minted by blast
next
  case (op_grant d i ofs ln p)
  then show ?thesis using grant_minted by blast
next
  case (op_grant_id d i ofs ln p a)
  then show ?thesis using grant_id_minted by blast
next
  case (op_derive_id src a dst ofs ln p b)
  then show ?thesis using derive_id_minted[OF assms(2)] by blast
next
  case (op_delegate src i ofs ln p)
  then show ?thesis using delegate_minted(1)[OF assms(2)] by blast
next
  case (op_delegate_id src a i ofs ln p)
  then show ?thesis using delegate_minted(2)[OF assms(2)] by blast
next
  case op_create_domain
  then show ?thesis using caps_create by blast
next
  case op_try_create_domain
  then show ?thesis using caps_create[of f]
    by (auto simp: try_create_compiler_domain_def split: option.split_asm if_split_asm prod.split_asm)
next
  case (op_destroy_domain d)
  then show ?thesis using caps_destroy_domain by blast
next
  case (op_remove_authority d a)
  then show ?thesis using caps_remove_authority by blast
next
  case (op_derive_device src a i g rs dst rs' b)
  then show ?thesis using caps_device(1)[OF prod.collapse[symmetric]] by blast
next
  case (op_grant_device d i rs a)
  then show ?thesis using caps_device(2)[OF prod.collapse[symmetric]] by blast
next
  case (op_remove_agent a)
  then show ?thesis by (simp add: caps_of_def)
next
  case (op_timer t)
  then show ?thesis by (simp add: caps_of_def)
qed (auto simp: caps_same dest: caps_sameD)

section \<open>The object table invariant\<close>

definition placed_bytes :: "fabric \<Rightarrow> object_id \<Rightarrow> nat set" where
  "placed_bytes f i =
     (case (btm_get (fab_objects f) i, btm_get (fab_placement f) i) of
        (Some ob, Some p) \<Rightarrow> if obj_live ob then {unat p ..< unat p + unat (obj_size ob)} else {}
      | _ \<Rightarrow> {})"

definition object_ok :: "fabric \<Rightarrow> object_id \<Rightarrow> object \<Rightarrow> bool" where
  "object_ok f i ob \<longleftrightarrow> object_id_raw i < fab_next_object_id f \<and> obj_id ob = i
     \<and> (obj_state ob = Active \<longrightarrow> obj_generation ob = Generation 0)
     \<and> (obj_state ob = Sealed \<longrightarrow> obj_generation ob = Generation 1)"

definition core_inv :: "fabric \<Rightarrow> bool" where
  "core_inv f \<longleftrightarrow> btm_sorted (fab_placement f)
     \<and> (\<forall>i ob. btm_get (fab_objects f) i = Some ob \<longrightarrow> object_ok f i ob)
     \<and> (\<forall>i p. btm_get (fab_placement f) i = Some p \<longrightarrow>
          (\<exists>ob. btm_get (fab_objects f) i = Some ob \<and> unat p + unat (obj_size ob) < 2 ^ 64))
     \<and> (\<forall>i j. i \<noteq> j \<longrightarrow> placed_bytes f i \<inter> placed_bytes f j = {})"

lemma core_inv_cong: "core_of g = core_of f \<Longrightarrow> core_inv g = core_inv f"
  by (simp add: core_inv_def core_of_def placed_bytes_def object_ok_def)

lemma raw_inject [simp]: "object_id_raw i = object_id_raw j \<longleftrightarrow> i = j"
  by (cases i; cases j) simp

lemma core_alloc:
  assumes "core_inv f" shows "core_inv (snd (try_alloc_object f n sz kind))"
proof (cases "next_fresh_object_id f")
  case None
  then show ?thesis using assms by (simp add: try_alloc_object_def)
next
  case (Some i)
  let ?f = "snd (try_alloc_object f n sz kind)"
  let ?ob = "\<lparr>obj_id = i, obj_generation = Generation 0, obj_size = sz, obj_state = Active, obj_kind = kind, obj_name = n\<rparr>"
  have i: "i = ObjectId (fab_next_object_id f)" "btm_get (fab_objects f) i = None" "btm_get (fab_placement f) i = None"
    "fab_next_object_id f \<noteq> u64_max"
    using Some by (auto simp: next_fresh_object_id_def Let_def btm_contains_def checked_add_one_u64
        split: option.split_asm if_split_asm)
  have f: "btm_get (fab_objects ?f) = (btm_get (fab_objects f))(i \<mapsto> ?ob)" "fab_placement ?f = fab_placement f"
    "fab_next_object_id ?f = fab_next_object_id f + 1"
    using Some i(1) by (simp_all add: try_alloc_object_def fun_eq_iff)
  have lt: "x < fab_next_object_id f \<Longrightarrow> x < fab_next_object_id f + 1" "fab_next_object_id f < fab_next_object_id f + 1" for x
    using unat_succ_u64[OF i(4)] by (simp_all add: word_less_nat_alt)
  have "placed_bytes ?f j = placed_bytes f j" for j using i(2,3) by (auto simp: placed_bytes_def f)
  then show ?thesis using assms i(1-3) lt by (auto simp: core_inv_def object_ok_def f)
qed

lemma place_conflict_free:
  assumes "btm_sorted (fab_placement f)" "\<not> list_ex (placement_conflict f i b e) (fab_placement f)"
    and "unat e = unat b + n" "i \<noteq> j"
    and "\<forall>i p. btm_get (fab_placement f) i = Some p \<longrightarrow>
          (\<exists>ob. btm_get (fab_objects f) i = Some ob \<and> unat p + unat (obj_size ob) < 2 ^ 64)"
  shows "{unat b ..< unat b + n} \<inter> placed_bytes f j = {}"
proof (cases "btm_get (fab_placement f) j")
  case None
  then show ?thesis by (auto simp: placed_bytes_def split: option.split)
next
  case (Some p)
  obtain ob where ob: "btm_get (fab_objects f) j = Some ob" "unat p + unat (obj_size ob) < 2 ^ 64" using assms(5) Some by blast
  have mem: "(j, p) \<in> set (fab_placement f)" using Some by (rule map_of_SomeD)
  have c: "checked_add p (obj_size ob) = Some (p + obj_size ob)" "unat (p + obj_size ob) = unat p + unat (obj_size ob)"
    using ob(2) by (simp_all add: checked_add_def unat_plus_exact)
  have "\<not> placement_conflict f i b e (j, p)" using assms(2) mem by (auto simp: list_ex_iff)
  then show ?thesis using assms(3,4) ob c Some
    by (auto simp: placement_conflict_def placed_bytes_def word_less_nat_alt split: if_splits)
qed

lemma core_place:
  assumes "core_inv f" shows "core_inv (snd (place_object f i b))"
proof (cases "fst (place_object f i b)")
  case False
  then have "snd (place_object f i b) = f" using place_object_result[of f i b False] by (metis prod.collapse)
  then show ?thesis using assms by simp
next
  case True
  let ?f = "snd (place_object f i b)"
  obtain ob e where ob: "btm_get (fab_objects f) i = Some ob" "checked_add b (obj_size ob) = Some e"
    "\<not> list_ex (placement_conflict f i b e) (fab_placement f)"
    using True by (auto simp: place_object_def split: if_split_asm option.split_asm)
  have f: "fab_objects ?f = fab_objects f" "fab_placement ?f = btm_insert i b (fab_placement f)"
    "fab_next_object_id ?f = fab_next_object_id f"
    using True by (auto simp: place_object_def retain_other_cells_def Let_def split: if_split_asm option.split_asm)
  have "unat e < 2 ^ 64" using unsigned_less[of e] by simp
  moreover have "unat e = unat b + unat (obj_size ob)" using ob(2) by (simp add: checked_add_eq_Some)
  ultimately have e: "unat e = unat b + unat (obj_size ob)" "unat b + unat (obj_size ob) < 2 ^ 64" by simp_all
  have other: "placed_bytes ?f j = placed_bytes f j" if "j \<noteq> i" for j using that by (simp add: placed_bytes_def f)
  have self: "placed_bytes ?f i \<subseteq> {unat b ..< unat b + unat (obj_size ob)}" using ob(1) by (auto simp: placed_bytes_def f)
  have dj: "placed_bytes ?f i \<inter> placed_bytes ?f j = {}" if "j \<noteq> i" for j
    using place_conflict_free[OF _ ob(3) e(1), of j] assms that self other[OF that] by (auto simp: core_inv_def)
  have "placed_bytes ?f j \<inter> placed_bytes ?f k = {}" if "j \<noteq> k" for j k
    using dj[of j] dj[of k] other[of j] other[of k] assms that by (cases "j = i"; cases "k = i") (auto simp: core_inv_def)
  then show ?thesis using assms ob(1) e btm_sorted_insert
    by (auto simp: core_inv_def object_ok_def f)
qed

lemma core_shrink:
  assumes "core_inv f" "btm_sorted (fab_placement g)"
    and "\<And>i ob. btm_get (fab_objects g) i = Some ob \<Longrightarrow> object_ok g i ob"
    and "\<And>i p. btm_get (fab_placement g) i = Some p \<Longrightarrow> btm_get (fab_placement f) i = Some p
          \<and> (\<exists>ob ob'. btm_get (fab_objects g) i = Some ob \<and> btm_get (fab_objects f) i = Some ob' \<and> obj_size ob = obj_size ob'
               \<and> (obj_live ob \<longrightarrow> obj_live ob'))"
  shows "core_inv g"
proof -
  have "placed_bytes g i \<subseteq> placed_bytes f i" for i
    using assms(4)[of i] by (auto simp: placed_bytes_def split: option.splits if_splits)
  moreover have "\<exists>ob. btm_get (fab_objects g) i = Some ob \<and> unat p + unat (obj_size ob) < 2 ^ 64"
    if "btm_get (fab_placement g) i = Some p" for i p
    using assms(4)[OF that] assms(1) unfolding core_inv_def by (metis option.inject)
  ultimately show ?thesis using assms(1-3) unfolding core_inv_def by blast
qed

lemma core_revoke:
  assumes "core_inv f" shows "core_inv (revoke f i)"
proof (rule core_shrink[OF assms])
  have same: "fab_placement (revoke f i) = fab_placement f" "fab_next_object_id (revoke f i) = fab_next_object_id f"
    by (auto simp: revoke_def retain_other_cells_def Let_def split: option.split)
  have ob: "btm_get (fab_objects (revoke f i)) j = (if private_heap_object f i \<or> j \<noteq> i then btm_get (fab_objects f) j
      else map_option (\<lambda>ob. ob\<lparr>obj_generation := generation_next (obj_generation ob), obj_state := Revoked\<rparr>)
        (btm_get (fab_objects f) j))" for j
    by (auto simp: revoke_def retain_other_cells_def Let_def split: option.split)
  show "btm_sorted (fab_placement (revoke f i))" using assms by (simp add: same core_inv_def)
  show "object_ok (revoke f i) j x" if "btm_get (fab_objects (revoke f i)) j = Some x" for j x
    using that assms by (auto simp: ob object_ok_def same core_inv_def split: if_split_asm)
  show "btm_get (fab_placement f) j = Some p \<and> (\<exists>ob ob'. btm_get (fab_objects (revoke f i)) j = Some ob
      \<and> btm_get (fab_objects f) j = Some ob' \<and> obj_size ob = obj_size ob' \<and> (obj_live ob \<longrightarrow> obj_live ob'))"
    if p: "btm_get (fab_placement (revoke f i)) j = Some p" for j p
  proof -
    obtain x where "btm_get (fab_objects f) j = Some x" using p assms unfolding same core_inv_def by blast
    then show ?thesis using p by (auto simp: same ob obj_live_def)
  qed
qed

lemma core_seal:
  assumes "core_inv f" shows "core_inv (snd (seal_object f i))"
proof (rule core_shrink[OF assms])
  let ?g = "snd (seal_object f i)"
  have same: "fab_placement ?g = fab_placement f" "fab_next_object_id ?g = fab_next_object_id f"
    by (auto simp: seal_object_def split: option.split)
  have ob: "btm_get (fab_objects ?g) j = Some x \<Longrightarrow> btm_get (fab_objects f) j = Some x
      \<or> (\<exists>y. btm_get (fab_objects f) j = Some y \<and> obj_state y = Active
            \<and> x = y\<lparr>obj_generation := generation_next (obj_generation y), obj_state := Sealed\<rparr>)" for j x
    by (auto simp: seal_object_def split: option.split_asm if_split_asm)
  have some: "btm_get (fab_objects f) j \<noteq> None \<Longrightarrow> btm_get (fab_objects ?g) j \<noteq> None" for j
    by (auto simp: seal_object_def split: option.split)
  show "btm_sorted (fab_placement ?g)" using assms by (simp add: same core_inv_def)
  show "object_ok ?g j x" if x: "btm_get (fab_objects ?g) j = Some x" for j x
    using ob[OF x] assms by (auto simp: object_ok_def same core_inv_def)
  show "btm_get (fab_placement f) j = Some p \<and> (\<exists>ob ob'. btm_get (fab_objects ?g) j = Some ob
      \<and> btm_get (fab_objects f) j = Some ob' \<and> obj_size ob = obj_size ob' \<and> (obj_live ob \<longrightarrow> obj_live ob'))"
    if p: "btm_get (fab_placement ?g) j = Some p" for j p
  proof -
    obtain x where "btm_get (fab_objects f) j = Some x" using p assms unfolding same core_inv_def by blast
    then obtain y where "btm_get (fab_objects ?g) j = Some y" using some by blast
    then show ?thesis using ob[of j y] p by (auto simp: same obj_live_def)
  qed
qed

lemma core_destroy:
  assumes "core_inv f" shows "core_inv (destroy_object f i)"
proof (cases "private_heap_object f i")
  case True
  then show ?thesis using assms by (simp add: destroy_object_def)
next
  case False
  let ?g = "destroy_object f i"
  have g: "fab_objects ?g = btm_remove i (fab_objects f)" "fab_placement ?g = btm_remove i (fab_placement f)"
    "fab_next_object_id ?g = fab_next_object_id f" using False by (simp_all add: destroy_object_def)
  show ?thesis using assms
    by (intro core_shrink[OF assms]) (fastforce simp: g core_inv_def object_ok_def btmap.wf_remove split: if_split_asm)+
qed

lemma core_rollback:
  assumes "core_inv f" shows "core_inv (snd (rollback_unpublished_object f i))"
proof (cases "fst (rollback_unpublished_object f i)")
  case False
  then have "snd (rollback_unpublished_object f i) = f"
    by (auto simp: rollback_unpublished_object_def split: if_split_asm option.split_asm)
  then show ?thesis using assms by simp
next
  case True
  let ?g = "snd (rollback_unpublished_object f i)"
  have g: "fab_objects ?g = btm_remove i (fab_objects f)" "fab_placement ?g = btm_remove i (fab_placement f)"
    "fab_next_object_id ?g = object_id_raw i" "unat (fab_next_object_id f) = unat (object_id_raw i) + 1"
    using True by (auto simp: rollback_unpublished_object_def checked_add_eq_Some split: if_split_asm option.split_asm)
  have ids: "object_id_raw j < object_id_raw i" if "object_id_raw j < fab_next_object_id f" "j \<noteq> i" for j
  proof -
    have "unat (object_id_raw j) \<noteq> unat (object_id_raw i)" using that(2) by (simp add: word_unat_eq_iff[symmetric])
    then show ?thesis using that(1) g(4) by (simp add: word_less_nat_alt)
  qed
  show ?thesis using assms ids
    by (intro core_shrink[OF assms])
      (fastforce simp: g(1-3) core_inv_def object_ok_def btmap.wf_remove split: if_split_asm)+
qed

lemma core_inv_change: "core_change f f' \<Longrightarrow> core_inv f \<Longrightarrow> core_inv f'"
proof (induction rule: core_change.induct)
  case cc_same
  then show ?case using core_inv_cong[of f' f] by simp
qed (simp_all add: core_alloc core_place core_revoke core_seal core_destroy core_rollback)

section \<open>The system invariant\<close>

definition cap_ok :: "capability64 \<Rightarrow> bool" where
  "cap_ok c \<longleftrightarrow>
     cap_generation c = Generation 0 \<and> \<not> perm_contains (cap_permissions c) EXECUTE
     \<or> cap_generation c = Generation 1 \<and> \<not> perm_contains (cap_permissions c) WRITE
       \<and> \<not> perm_contains (cap_permissions c) ATOMIC \<and> \<not> perm_contains (cap_permissions c) SEAL"

definition sys_inv :: "fabric_sys \<Rightarrow> bool" where
  "sys_inv s \<longleftrightarrow> core_inv (fst s) \<and> caps_of (fst s) \<subseteq> snd s \<and> (\<forall>c \<in> snd s. cap_ok c)"

lemma cap_ok_attenuates: "cap_ok parent \<Longrightarrow> attenuates c parent \<Longrightarrow> cap_ok c"
  unfolding cap_ok_def attenuates_def by (metis perm_subset_contains)

lemma minted_ok:
  assumes "core_inv f" "\<forall>c \<in> M. cap_ok c" "minted M f c"
  shows "cap_ok c"
  using assms(3) unfolding minted_def
proof (elim disjE exE bexE conjE)
  fix ob assume ob: "btm_get (fab_objects f) (cap_object c) = Some ob" "obj_generation ob = cap_generation c"
    "grant_state_ok (obj_state ob) (cap_permissions c)"
  have "object_ok f (cap_object c) ob" using ob(1) assms(1) by (simp add: core_inv_def)
  then show ?thesis using ob(2,3) by (cases "obj_state ob") (auto simp: object_ok_def grant_state_ok_def cap_ok_def)
qed (use assms(2) cap_ok_attenuates in blast)

lemma from_parts_inv: "core_inv (from_parts memory sp heap) \<and> caps_of (from_parts memory sp heap) = {}"
  by (simp add: core_inv_def from_parts_def caps_of_def placed_bytes_def btm_sorted_def)

interpretation fabric_sys: step_system fabric_init fabric_step sys_inv
proof unfold_locales
  fix s assume "fabric_init s"
  then show "sys_inv s" using from_parts_inv by (auto simp: fabric_init_def sys_inv_def)
next
  fix s t assume "fabric_step s t" and inv: "sys_inv s"
  then obtain f M f' where st: "s = (f, M)" "t = (f', M \<union> caps_of f')" "fabric_op M f f'" by (auto elim: fabric_stepE)
  have f: "core_inv f" "caps_of f \<subseteq> M" "\<forall>c \<in> M. cap_ok c" using inv by (auto simp: sys_inv_def st(1))
  have "core_inv f'" using fabric_op_core[OF st(3)] f(1) by (rule core_inv_change)
  moreover have "cap_ok c" if "c \<in> caps_of f'" for c
    using fabric_op_caps[OF st(3) f(2)] that minted_ok[OF f(1,3)] f(2,3) by blast
  ultimately show "sys_inv t" using f(3) by (auto simp: sys_inv_def st(2))
qed

section \<open>Domain identities\<close>

text \<open>
  Domain identities come from a counter that wraps.  Every operation keeps the counter and the
  domains, drops domains, or takes one identity; so within \<open>2 ^ 64\<close> operations no identity is
  issued twice.  \<open>fabric_run n\<close> holds of the states that \<open>n\<close> operations reach.
\<close>

definition domain_ids :: "fabric \<Rightarrow> domain_id set" where
  "domain_ids f = {d. btm_get (fab_domains f) d \<noteq> None}"

definition dom_change :: "fabric \<Rightarrow> fabric \<Rightarrow> bool" where
  "dom_change f f' \<longleftrightarrow>
     fab_next_domain_id f' = fab_next_domain_id f \<and> domain_ids f' \<subseteq> domain_ids f
     \<or> fab_next_domain_id f' = fab_next_domain_id f + 1
       \<and> domain_ids f' \<subseteq> insert (DomainId (fab_next_domain_id f)) (domain_ids f)"

lemma dom_same: "doms_of f' = doms_of f \<Longrightarrow> dom_change f f'"
  by (simp add: doms_of_def dom_change_def domain_ids_def)

lemma ids_push:
  "domain_ids (snd (push_capability f d c a)) = domain_ids f"
  "fab_next_domain_id (snd (push_capability f d c a)) = fab_next_domain_id f"
  by (auto simp: push_capability_def domain_ids_def split: option.split)

lemma ids_create:
  "domain_ids (snd (create_domain f)) = insert (DomainId (fab_next_domain_id f)) (domain_ids f)"
  "fab_next_domain_id (snd (create_domain f)) = fab_next_domain_id f + 1"
  by (auto simp: create_domain_def domain_ids_def Let_def)

lemma ids_derive:
  "domain_ids (snd (derive f d parent ofs ln p)) = domain_ids f"
  "fab_next_domain_id (snd (derive f d parent ofs ln p)) = fab_next_domain_id f"
  by (simp_all add: derive_def ids_push split: option.split)

lemma dom_push: "dom_change f (snd (push_capability f d c a))"
  by (simp add: dom_change_def ids_push)

lemma dom_refl: "dom_change f f"
  by (simp add: dom_change_def)

lemma dom_remove: "domain_ids (destroy_domain f d) \<subseteq> domain_ids f" "fab_next_domain_id (destroy_domain f d) = fab_next_domain_id f"
  by (auto simp: destroy_domain_def domain_ids_def split: if_split_asm)

lemma dom_delegate_fresh: "dom_change f (snd (delegate_into_fresh_domain f parent ofs ln p))"
proof -
  obtain d f1 where c: "create_domain f = (d, f1)" by fastforce
  obtain r f2 where v: "derive f1 d parent ofs ln p = (r, f2)" by fastforce
  have "domain_ids f2 = insert (DomainId (fab_next_domain_id f)) (domain_ids f)" "fab_next_domain_id f2 = fab_next_domain_id f + 1"
    using ids_derive[of f1 d parent ofs ln p] ids_create[of f] c v by simp_all
  then show ?thesis using dom_remove[of f2 d] by (auto simp: delegate_into_fresh_domain_def c v dom_change_def)
qed

lemma dom_grants:
  "dom_change f (snd (grant f d i ofs ln p))" "dom_change f (snd (grant_with_authority_id f d i ofs ln p a))"
  "dom_change f (snd (derive f d parent ofs ln p))" "dom_change f (snd (derive_from_authority_id f src a dst ofs ln p b))"
  "dom_change f (snd (delegate_dma_span f src i ofs ln p))"
  "dom_change f (snd (delegate_dma_span_from_authority_id f src a i ofs ln p))"
  "dom_change f (destroy_domain f d)"
  by (simp_all add: grant_def grant_with_authority_id_def derive_def derive_from_authority_id_def delegate_dma_span_def
      delegate_dma_span_from_authority_id_def Let_def dom_push dom_refl dom_delegate_fresh split: option.split)
    (simp add: dom_change_def dom_remove)

lemma dom_create: "dom_change f (snd (create_domain f))" "dom_change f (snd (try_create_compiler_domain f))"
  by (auto simp: dom_change_def ids_create try_create_compiler_domain_def split: option.split prod.split
      dest: arg_cong[where f = snd] simp flip: ids_create)

lemma dom_replace:
  "btm_get (fab_domains f) d = Some ds \<Longrightarrow> dom_change f (f\<lparr>fab_domains := btm_insert d ds' (fab_domains f)\<rparr>)"
  by (auto simp: dom_change_def domain_ids_def)

lemma dom_authorities:
  "dom_change f (snd (remove_by_authority_id f d a))"
  "dom_change f (snd (derive_device_from_authority_id f src a i g rs dst rs' b))"
  "dom_change f (snd (grant_device_with_authority_id f d i rs a))"
  by (auto simp: remove_by_authority_id_def derive_device_from_authority_id_def grant_device_with_authority_id_def
      push_device_authority_def dom_refl dom_replace Let_def split: option.split)

lemma fabric_op_domains: "fabric_op M f f' \<Longrightarrow> dom_change f f'"
  by (cases rule: fabric_op.cases)
    (auto simp: dom_grants dom_create dom_authorities domains_same_ops intro: dom_same)

inductive fabric_run :: "nat \<Rightarrow> fabric_sys \<Rightarrow> bool" where
  run_init: "fabric_init s \<Longrightarrow> fabric_run 0 s"
| run_step: "fabric_run n s \<Longrightarrow> fabric_step s t \<Longrightarrow> fabric_run (Suc n) t"

lemma run_domain_ids:
  "fabric_run n s \<Longrightarrow> n < 2 ^ 64 \<Longrightarrow> unat (fab_next_domain_id (fst s)) \<le> n
     \<and> (\<forall>k. DomainId k \<in> domain_ids (fst s) \<longrightarrow> k < fab_next_domain_id (fst s))"
proof (induction rule: fabric_run.induct)
  case (run_init s)
  then show ?case by (auto simp: fabric_init_def from_parts_def domain_ids_def)
next
  case (run_step n s t)
  let ?x = "fab_next_domain_id (fst s)"
  have ch: "dom_change (fst s) (fst t)" using run_step.hyps(2) by (auto elim!: fabric_stepE dest: fabric_op_domains)
  have x: "unat ?x \<le> n" "\<forall>k. DomainId k \<in> domain_ids (fst s) \<longrightarrow> k < ?x" using run_step.IH run_step.prems by auto
  then have "?x \<noteq> u64_max" using run_step.prems by auto
  then have "unat (?x + 1) = unat ?x + 1" by (rule unat_succ_u64)
  then show ?case using ch x by (auto simp: dom_change_def word_less_nat_alt less_Suc_eq dest: subsetD)
qed

end
