(* ===== verification/Fabric_Sec.thy ===== *)
theory Fabric_Sec
  imports Fabric_Inv
begin

text \<open>
  The security properties of the fabric over all its reachable states: no object is writable and
  executable at once, revocation is final, live objects never share a byte, and a write reaches
  only the object it was authorized for.
\<close>

section \<open>What an authorization rests on\<close>

lemma authorize_loop_Some:
  "authorize_loop f r es stale = (Some g, stale') \<Longrightarrow>
   \<exists>e \<in> set es. cap_covers (ce_cap e) (req_object r) (req_offset r) (req_length r) (required_permission (req_kind r))
     \<and> validate f (ce_cap e) \<and> cap_generation (ce_cap e) = g"
  by (induction f r es stale rule: authorize_loop.induct) (auto split: if_splits)

lemma authorize_domain_cap:
  assumes "authorize f r = AuthAuthorized g"
  shows "\<exists>ds e. btm_get (fab_domains f) (ctx_domain (req_context r)) = Some ds \<and> e \<in> set (dom_capabilities ds)
     \<and> cap_covers (ce_cap e) (req_object r) (req_offset r) (req_length r) (required_permission (req_kind r))
     \<and> validate f (ce_cap e) \<and> cap_generation (ce_cap e) = g"
  using assms authorize_loop_Some[of f r]
  by (fastforce simp: authorize_def split: if_split_asm option.split_asm prod.split_asm)

lemma authorize_cap:
  assumes "authorize f r = AuthAuthorized g"
  shows "\<exists>c \<in> caps_of f. cap_covers c (req_object r) (req_offset r) (req_length r) (required_permission (req_kind r))
     \<and> validate f c \<and> cap_generation c = g"
  using authorize_domain_cap[OF assms] domain_entry_cap by blast

lemma validate_object:
  assumes "validate f c"
  shows "\<exists>ob. btm_get (fab_objects f) (cap_object c) = Some ob \<and> obj_live ob \<and> cap_generation c = obj_generation ob
     \<and> unat (cap_offset c) + unat (cap_length c) \<le> unat (obj_size ob) \<and> \<not> private_heap_object f (cap_object c)"
proof -
  obtain ob where ob: "btm_get (fab_objects f) (cap_object c) = Some ob" "obj_live ob" "cap_generation c = obj_generation ob"
    "cap_length c \<le> obj_size ob" "cap_offset c \<le> obj_size ob - cap_length c" "\<not> private_heap_object f (cap_object c)"
    using assms by (auto simp: validate_def split: if_split_asm option.split_asm)
  then show ?thesis using span_fit[of "obj_size ob" "cap_length c" "cap_offset c"] by auto
qed

lemma authorize_within:
  assumes "authorize f r = AuthAuthorized g"
  shows "\<exists>ob. btm_get (fab_objects f) (req_object r) = Some ob \<and> obj_live ob
     \<and> unat (req_offset r) + unat (req_length r) \<le> unat (obj_size ob)"
proof -
  obtain c where c: "cap_covers c (req_object r) (req_offset r) (req_length r) (required_permission (req_kind r))" "validate f c"
    using authorize_cap[OF assms] by blast
  obtain ob where ob: "btm_get (fab_objects f) (cap_object c) = Some ob" "obj_live ob"
    "unat (cap_offset c) + unat (cap_length c) \<le> unat (obj_size ob)" using validate_object[OF c(2)] by blast
  show ?thesis using c(1) ob by (auto simp: cap_covers_iff)
qed

section \<open>Where a committed span lies\<close>

lemma translate_Some:
  assumes "translate f i ofs = Some phys"
  shows "\<exists>p. btm_get (fab_placement f) i = Some p \<and> unat phys = unat p + unat ofs"
  using assms by (auto simp: translate_def checked_add_eq_Some split: if_split_asm option.split_asm)

lemma span_in_object:
  assumes "one_shot f r data = Inr (base, end)"
  shows "{base ..< end} \<subseteq> placed_bytes f (req_object r) \<and> end \<le> length (fab_memory f)"
proof -
  obtain g phys where p: "authorize f r = AuthAuthorized g" "translate f (req_object r) (req_offset r) = Some phys"
    "base = unat phys" "end = base + unat (req_length r)" "end \<le> length (fab_memory f)"
    using one_shot_Inr[OF assms] by metis
  obtain ob where ob: "btm_get (fab_objects f) (req_object r) = Some ob" "obj_live ob"
    "unat (req_offset r) + unat (req_length r) \<le> unat (obj_size ob)" using authorize_within[OF p(1)] by blast
  obtain b where b: "btm_get (fab_placement f) (req_object r) = Some b" "unat phys = unat b + unat (req_offset r)"
    using translate_Some[OF p(2)] by blast
  show ?thesis using ob b p(3-5) by (auto simp: placed_bytes_def)
qed

lemma execute_write_memory:
  assumes "execute_write f r d = Some (res, f')"
  shows "fab_memory f' = fab_memory f
    \<or> (\<exists>base end. one_shot f r (Some d) = Inr (base, end) \<and> res = Inr () \<and> length d = end - base
        \<and> (req_kind r = Write \<or> req_kind r = Atomic) \<and> fab_memory f' = copy_at base d (fab_memory f))"
proof (cases "one_shot f r (Some d)")
  case (Inl reason)
  then show ?thesis using execute_write_effect[of f r d] assms by (auto simp: fault_effect_def)
next
  case (Inr sp)
  obtain base "end" where sp: "sp = (base, end)" by fastforce
  obtain phys :: u64 where "end = base + unat (req_length r)" using one_shot_Inr[OF Inr[unfolded sp]] by metis
  then show ?thesis using execute_write_effect[of f r d] assms Inr sp one_shot_payload[OF Inr]
    by (cases "req_kind r = Write \<or> req_kind r = Atomic") (auto simp: commit_effect_def)
qed

lemma write_changes_within:
  assumes "execute_write f r d = Some (res, f')" "k < length (fab_memory f)" "fab_memory f' ! k \<noteq> fab_memory f ! k"
  shows "k \<in> placed_bytes f (req_object r) \<and> res = Inr () \<and> (\<exists>g. authorize f r = AuthAuthorized g)
    \<and> (req_kind r = Write \<or> req_kind r = Atomic)"
proof -
  obtain base "end" where w: "one_shot f r (Some d) = Inr (base, end)" "res = Inr ()" "length d = end - base"
    "fab_memory f' = copy_at base d (fab_memory f)" "req_kind r = Write \<or> req_kind r = Atomic"
    using execute_write_memory[OF assms(1)] assms(3) by auto
  note sp = span_in_object[OF w(1)]
  obtain g where g: "authorize f r = AuthAuthorized g" "base \<le> end" using one_shot_Inr[OF w(1)] by (metis le_add1)
  have "base \<le> k \<and> k < end"
  proof (rule ccontr)
    assume "\<not> ?thesis"
    then have "copy_at base d (fab_memory f) ! k = fab_memory f ! k"
      using nth_copy_at_outside[of base d "fab_memory f" k] sp w(3) assms(2) g(2) by auto
    then show False using assms(3) w(4) by simp
  qed
  then show ?thesis using sp w(2,5) g by auto
qed

section \<open>Revocation\<close>

definition object_dead :: "object_id \<Rightarrow> fabric \<Rightarrow> bool" where
  "object_dead i f \<longleftrightarrow> object_id_raw i < fab_next_object_id f
     \<and> (\<forall>ob. btm_get (fab_objects f) i = Some ob \<longrightarrow> \<not> obj_live ob)"

lemma dead_alloc:
  assumes "object_dead i f" shows "object_dead i (snd (try_alloc_object f n sz kind))"
proof (cases "next_fresh_object_id f")
  case None
  then show ?thesis using assms by (simp add: try_alloc_object_def)
next
  case (Some j)
  then have j: "j = ObjectId (fab_next_object_id f)" "fab_next_object_id f \<noteq> u64_max"
    by (auto simp: next_fresh_object_id_def Let_def checked_add_one_u64 split: option.split_asm if_split_asm)
  have lt: "object_id_raw i < fab_next_object_id f" using assms by (simp add: object_dead_def)
  then have "i \<noteq> j" using j(1) by auto
  moreover have "object_id_raw i < fab_next_object_id f + 1"
    using lt unat_succ_u64[OF j(2)] by (simp add: word_less_nat_alt)
  ultimately show ?thesis using assms Some j(1) by (auto simp: object_dead_def try_alloc_object_def)
qed

lemma dead_change:
  assumes "core_change f f'" "object_dead i f"
  shows "object_dead i f'"
  using assms(1)
proof cases
  case cc_same
  then show ?thesis using assms(2) by (simp add: core_of_def object_dead_def)
next
  case (cc_alloc n sz kind)
  then show ?thesis using assms(2) dead_alloc by simp
next
  case (cc_place j b)
  then show ?thesis using assms(2)
    by (auto simp: place_object_def retain_other_cells_def Let_def object_dead_def split: option.splits)
next
  case (cc_revoke j)
  then show ?thesis using assms(2)
    by (auto simp: revoke_def retain_other_cells_def Let_def object_dead_def obj_live_def split: option.splits)
next
  case (cc_seal j)
  then show ?thesis using assms(2) by (auto simp: seal_object_def object_dead_def obj_live_def split: option.splits)
next
  case (cc_destroy j)
  then show ?thesis using assms(2) by (auto simp: destroy_object_def object_dead_def)
next
  case (cc_rollback j)
  show ?thesis
  proof (cases "fst (rollback_unpublished_object f j)")
    case False
    then have "f' = f" using cc_rollback
      by (auto simp: rollback_unpublished_object_def split: if_split_asm option.split_asm)
    then show ?thesis using assms(2) by simp
  next
    case True
    obtain ob where j: "btm_get (fab_objects f) j = Some ob" "obj_state ob = Active"
      "unat (fab_next_object_id f) = unat (object_id_raw j) + 1" "fab_objects f' = btm_remove j (fab_objects f)"
      "fab_next_object_id f' = object_id_raw j"
      using True cc_rollback
      by (auto simp: rollback_unpublished_object_def checked_add_eq_Some split: if_split_asm option.split_asm)
    then have "i \<noteq> j" using assms(2) by (auto simp: object_dead_def obj_live_def)
    then have "unat (object_id_raw i) \<noteq> unat (object_id_raw j)" by (simp add: word_unat_eq_iff[symmetric])
    then show ?thesis using assms(2) j by (auto simp: object_dead_def word_less_nat_alt)
  qed
qed

lemma dead_steps: "steps fabric_step s t \<Longrightarrow> object_dead i (fst s) \<Longrightarrow> object_dead i (fst t)"
  by (rule steps_keep[of fabric_step s t "\<lambda>s. object_dead i (fst s)"])
    (auto elim!: fabric_stepE intro: dead_change[OF fabric_op_core])

lemma dead_unauthorized: "object_dead i f \<Longrightarrow> req_object r = i \<Longrightarrow> authorize f r \<noteq> AuthAuthorized g"
  using authorize_within by (fastforce simp: object_dead_def)

section \<open>Two objects\<close>

text \<open>A reachable fabric with two placed objects, one of them writable by domain 0.\<close>

definition demo_other :: object where
  "demo_other = \<lparr>obj_id = ObjectId 1, obj_generation = Generation 0, obj_size = 1, obj_state = Active,
     obj_kind = Memory, obj_name = []\<rparr>"

definition demo_pair :: fabric where
  "demo_pair = demo_fabric\<lparr>fab_objects := fab_objects demo_fabric @ [(ObjectId 1, demo_other)],
     fab_placement := fab_placement demo_fabric @ [(ObjectId 1, 3)], fab_next_object_id := 2\<rparr>"

definition fabric_reachable :: "fabric \<Rightarrow> bool" where
  "fabric_reachable f \<longleftrightarrow> (\<exists>M. reachable fabric_init fabric_step (f, M))"

definition fabric_reachable_in :: "nat \<Rightarrow> fabric \<Rightarrow> bool" where
  "fabric_reachable_in n f \<longleftrightarrow> (\<exists>M. fabric_run n (f, M))"

lemma fabric_run_reachable: "fabric_run n s \<Longrightarrow> reachable fabric_init fabric_step s"
  by (induction rule: fabric_run.induct) (auto intro: reach_init reach_step)

lemma fabric_reachable_in_reachable: "fabric_reachable_in n f \<Longrightarrow> fabric_reachable f"
  unfolding fabric_reachable_in_def fabric_reachable_def using fabric_run_reachable by blast

lemma fabric_reachable_in_op: "fabric_reachable_in n f \<Longrightarrow> (\<And>M. fabric_op M f f') \<Longrightarrow> fabric_reachable_in (Suc n) f'"
  unfolding fabric_reachable_in_def by (meson fabric_step.intros run_step)

lemma fabric_reachable_op: "fabric_reachable f \<Longrightarrow> (\<And>M. fabric_op M f f') \<Longrightarrow> fabric_reachable f'"
  unfolding fabric_reachable_def by (meson fabric_step.intros reach_step)

lemma fabric_reachable_inv: "fabric_reachable f \<Longrightarrow> core_inv f \<and> (\<forall>c \<in> caps_of f. cap_ok c)"
  unfolding fabric_reachable_def using fabric_sys.invariant_reachable by (fastforce simp: sys_inv_def)

lemmas op_eval = try_alloc_object_def next_fresh_object_id_def from_parts_def checked_add_def btm_contains_def Let_def
  create_domain_def grant_def private_heap_object_def stack_owner_differs_def grant_state_ok_def push_capability_def
  perm_contains_def RW_def EXECUTE_def place_object_def heap_pool_overlaps_def placement_conflict_def
  retain_other_cells_def btm_retain_def obj_live_def

lemma demo_fabric_run: "fabric_reachable_in 4 demo_fabric"
proof -
  let ?f0 = "from_parts [0, 0, 0, 0] one_slot_registry None"
  let ?f1 = "snd (try_alloc_object ?f0 [] 2 Memory)"
  let ?f2 = "snd (create_domain ?f1)"
  let ?f3 = "snd (grant ?f2 (DomainId 0) (ObjectId 0) 0 2 RW)"
  have "fabric_reachable_in 0 ?f0" unfolding fabric_reachable_in_def
    by (rule exI[of _ "{}"], rule run_init) (auto simp: fabric_init_def)
  then have "fabric_reachable_in (Suc 0) ?f1" by (rule fabric_reachable_in_op) (rule op_alloc)
  then have "fabric_reachable_in (Suc (Suc 0)) ?f2" by (rule fabric_reachable_in_op) (rule op_create_domain)
  then have "fabric_reachable_in (Suc (Suc (Suc 0))) ?f3" by (rule fabric_reachable_in_op) (rule op_grant)
  then have "fabric_reachable_in (Suc (Suc (Suc (Suc 0)))) (snd (place_object ?f3 (ObjectId 0) 1))"
    by (rule fabric_reachable_in_op) (rule op_place)
  moreover have "snd (place_object ?f3 (ObjectId 0) 1) = demo_fabric" by (simp add: op_eval demo_fabric_def)
  ultimately show ?thesis by (simp add: eval_nat_numeral)
qed

lemma demo_fabric_reachable: "fabric_reachable demo_fabric"
  using demo_fabric_run by (rule fabric_reachable_in_reachable)

lemma demo_pair_reachable: "fabric_reachable demo_pair"
proof -
  let ?f1 = "snd (try_alloc_object demo_fabric [] 1 Memory)"
  have "fabric_reachable ?f1" using demo_fabric_reachable by (rule fabric_reachable_op) (rule op_alloc)
  then have "fabric_reachable (snd (place_object ?f1 (ObjectId 1) 3))" by (rule fabric_reachable_op) (rule op_place)
  moreover have "snd (place_object ?f1 (ObjectId 1) 3) = demo_pair"
    by (simp add: op_eval demo_fabric_def demo_pair_def demo_other_def)
  ultimately show ?thesis by simp
qed

section \<open>Attenuation\<close>

lemma attenuates_covers: "attenuates c parent \<Longrightarrow> cap_covers c i ofs ln p \<Longrightarrow> cap_covers parent i ofs ln p"
  by (auto simp: attenuates_def cap_covers_iff dest: perm_subset_contains)

lemma push_only_destination:
  "d' \<noteq> d \<Longrightarrow> btm_get (fab_domains (snd (push_capability f d c a))) d' = btm_get (fab_domains f) d'"
  by (simp add: push_capability_def split: option.split)

lemma push_files:
  assumes "push_capability f dst c a = (Some c, f')"
  obtains dd where "btm_get (fab_domains f) dst = Some dd" "btm_get (fab_domains f') dst =
      Some (dd\<lparr>dom_capabilities := dom_capabilities dd @ [\<lparr>ce_cap = c, ce_authority_id = a\<rparr>]\<rparr>)"
  using assms by (auto simp: push_capability_def split: option.splits)

lemma delegate_fresh_exact:
  assumes "delegate_into_fresh_domain f q ofs ln p = (Some d, f')"
  shows "\<exists>c0. c0 = \<lparr>cap_object = cap_object q, cap_generation = cap_generation q, cap_offset = ofs, cap_length = ln,
      cap_permissions = p\<rparr> \<and> d = DomainId (fab_next_domain_id f) \<and> btm_get (fab_domains f') = (btm_get (fab_domains f))(d \<mapsto>
      \<lparr>dom_id = d, dom_capabilities = [\<lparr>ce_cap = c0, ce_authority_id = None\<rparr>], dom_device_authorities = []\<rparr>)"
proof -
  obtain d1 f1 where c: "create_domain f = (d1, f1)" by fastforce
  obtain c0 where v: "derive f1 d1 q ofs ln p = (Some c0, f')" "d1 = d"
    using assms c by (auto simp: delegate_into_fresh_domain_def split: if_split_asm prod.split_asm)
  have f1: "btm_get (fab_domains f1) = (btm_get (fab_domains f))(d \<mapsto> \<lparr>dom_id = d, dom_capabilities = [], dom_device_authorities = []\<rparr>)"
    "d = DomainId (fab_next_domain_id f)" using c v(2) by (auto simp: create_domain_def Let_def)
  have fp: "f' = snd (push_capability f1 d c0 None)" using derive_attenuates[OF v(1)] v(2) by simp
  have "c0 = \<lparr>cap_object = cap_object q, cap_generation = cap_generation q, cap_offset = ofs, cap_length = ln, cap_permissions = p\<rparr>"
    using v(1) by (auto simp: derive_def push_capability_def split: if_split_asm option.split_asm)
  then show ?thesis using f1(2) by (auto simp: fp push_capability_def f1(1) fun_eq_iff)
qed

lemma reachable_in_fresh:
  assumes "fabric_reachable_in n f" "n < 2 ^ 64" shows "DomainId (fab_next_domain_id f) \<notin> domain_ids f"
  using assms run_domain_ids by (fastforce simp: fabric_reachable_in_def)

section \<open>Moving objects\<close>

text \<open>Moves change the placement table and the pointer cells, and nothing else.\<close>

definition moved :: "fabric \<Rightarrow> fabric \<Rightarrow> bool" where
  "moved g f \<longleftrightarrow> same_authority g f \<and> fab_memory g = fab_memory f \<and> fab_transactions g = fab_transactions f"

lemma moved_event: "moved (snd (move_object f i b)) f"
  by (simp add: moved_def same_authority_def move_object_def place_object_def retain_other_cells_def Let_def split: option.split)

lemma moved_trans: "moved h g \<Longrightarrow> moved g f \<Longrightarrow> moved h f"
  by (simp add: moved_def same_authority_def)

lemma moved_run: "run_schedule f (map (\<lambda>(i, b). Move i b) moves) = Some f1 \<Longrightarrow> moved f1 f"
proof (induction moves arbitrary: f)
  case Nil
  then show ?case by (simp add: moved_def same_authority_def)
next
  case (Cons m ms)
  then show ?case using moved_event moved_trans by (cases m) fastforce
qed

lemma moved_precommit:
  assumes "moved g f" shows "precommit_check g tx = precommit_check f tx"
proof -
  have eq: "fab_memory g = fab_memory f" "heap_pool_overlaps g = heap_pool_overlaps f" "authorize g r = authorize f r" for r
    using assms authorize_cong[of g f] heap_pool_overlaps_cong[of g f] by (simp_all add: moved_def same_authority_def)
  show ?thesis unfolding precommit_check_def eq ..
qed

lemma two_phases_prepared:
  assumes "one_shot f r data = Inr sp"
  obtains g phys where "run_schedule (snd (submit f r data)) [Advance (length (fab_transactions f)), Advance (length (fab_transactions f))] =
      Some (with_tx f (prepared_tx f r data g phys) [])" "precommit_check f (prepared_tx f r data g phys) = Inr sp"
proof -
  show ?thesis using two_phases[of f r data] assms precommit_prepared[of f r _ _ data] that by auto
qed

lemma one_shot_length:
  assumes "one_shot f r (Some d) = Inr (base, end)" "req_kind r = Write" shows "end = base + length d"
  using one_shot_Inr[OF assms(1)] one_shot_payload[OF assms(1)] assms(2) by (metis option.inject)

section \<open>Claims\<close>

text \<open>
  C3: no object is writable and executable at the same time.  In every state any sequence of
  fabric operations can reach, if a write or an exchange on an object is authorized for some
  domain, then a fetch from that object is authorized for no domain, and conversely.
\<close>

theorem write_xor_execute:
  assumes "fabric_reachable f" "req_kind w = Write \<or> req_kind w = Atomic" "req_kind x = Fetch"
    and "req_object w = req_object x"
  shows "\<not> (\<exists>g g'. authorize f w = AuthAuthorized g \<and> authorize f x = AuthAuthorized g')"
proof (intro notI, elim exE conjE)
  fix g g' assume a: "authorize f w = AuthAuthorized g" "authorize f x = AuthAuthorized g'"
  obtain c where c: "c \<in> caps_of f" "validate f c" "cap_object c = req_object w" "perm_contains (cap_permissions c) (required_permission (req_kind w))"
    using authorize_cap[OF a(1)] by (auto simp: cap_covers_iff)
  obtain d where d: "d \<in> caps_of f" "validate f d" "cap_object d = req_object x" "perm_contains (cap_permissions d) EXECUTE"
    using authorize_cap[OF a(2)] assms(3) by (auto simp: cap_covers_iff)
  have ok: "cap_ok c" "cap_ok d" using fabric_reachable_inv[OF assms(1)] c(1) d(1) by blast+
  have "cap_generation c = cap_generation d"
    using validate_object[OF c(2)] validate_object[OF d(2)] c(3) d(3) assms(4) by auto
  then show False using ok c(4) d(4) assms(2) by (auto simp: cap_ok_def)
qed

theorem write_xor_execute_witness:
  "(\<exists>g. authorize demo_fabric demo_write = AuthAuthorized g)
   \<and> \<not> (\<exists>g. authorize demo_fabric (demo_write\<lparr>req_kind := Fetch\<rparr>) = AuthAuthorized g)"
proof -
  have "authorize demo_fabric demo_write = AuthAuthorized (Generation 0)" by (simp add: exec_eval)
  then show ?thesis
    using write_xor_execute[OF demo_fabric_reachable, of demo_write "demo_write\<lparr>req_kind := Fetch\<rparr>"]
    by (auto simp: demo_write_def mk_request_def)
qed

text \<open>
  C2: revocation is final.  Once an object has been revoked, no request on it is ever authorized
  again, for any agent and any domain, whatever operations follow: the identity is not reissued,
  the object is not revived, and no capability for it can be minted or derived.
\<close>

theorem revocation_final:
  assumes "fabric_reachable f" "btm_get (fab_objects f) i = Some ob" "\<not> private_heap_object f i"
    and "steps fabric_step (revoke f i, M) (f', M')" "req_object r = i"
  shows "\<exists>reason. authorize f' r = AuthDenied reason"
proof -
  have "object_id_raw i < fab_next_object_id f"
    using fabric_reachable_inv[OF assms(1)] assms(2) by (auto simp: core_inv_def object_ok_def)
  then have "object_dead i (revoke f i)"
    using assms(2,3) by (auto simp: object_dead_def revoke_def retain_other_cells_def Let_def obj_live_def)
  then have "object_dead i f'" using dead_steps[OF assms(4)] by simp
  then show ?thesis using dead_unauthorized[OF _ assms(5)] by (cases "authorize f' r") auto
qed

theorem revocation_final_witness:
  "\<exists>reason. authorize (snd (create_domain (revoke demo_fabric (ObjectId 0)))) demo_write = AuthDenied reason"
proof -
  have st: "steps fabric_step (revoke demo_fabric (ObjectId 0), {}) (snd (create_domain (revoke demo_fabric (ObjectId 0))),
      {} \<union> caps_of (snd (create_domain (revoke demo_fabric (ObjectId 0)))))"
    by (rule steps_step[of fabric_step], rule steps_refl, rule fabric_step.intros, rule op_create_domain)
  have ob: "btm_get (fab_objects demo_fabric) (ObjectId 0) = Some (the (btm_get (fab_objects demo_fabric) (ObjectId 0)))"
    "\<not> private_heap_object demo_fabric (ObjectId 0)" "req_object demo_write = ObjectId 0"
    by (simp_all add: demo_fabric_def private_heap_object_def from_parts_def demo_write_def mk_request_def)
  show ?thesis using revocation_final[OF demo_fabric_reachable ob(1,2) st ob(3)] .
qed

text \<open>
  C4: live placed objects never share a byte of physical memory, in any reachable state.
\<close>

theorem placements_disjoint:
  assumes "fabric_reachable f" "i \<noteq> j"
  shows "placed_bytes f i \<inter> placed_bytes f j = {}"
  using fabric_reachable_inv[OF assms(1)] assms(2) by (auto simp: core_inv_def)

theorem placements_disjoint_witness:
  "placed_bytes demo_pair (ObjectId 0) \<inter> placed_bytes demo_pair (ObjectId 1) = {} \<and> 3 \<in> placed_bytes demo_pair (ObjectId 1)"
  using placements_disjoint[OF demo_pair_reachable, of "ObjectId 0" "ObjectId 1"]
  by (simp add: placed_bytes_def demo_pair_def demo_fabric_def demo_other_def obj_live_def from_parts_def)

text \<open>
  C1: isolation.  Whatever request a core or device makes and whatever it answers, a write
  transaction leaves every byte of every other live object alone; and if it changes any byte at
  all, the request was authorized and the byte belongs to the object the request names.
\<close>

theorem write_isolation:
  assumes "fabric_reachable f" "execute_write f r d = Some (res, f')" "k < length (fab_memory f)"
  shows "(fab_memory f' ! k \<noteq> fab_memory f ! k \<longrightarrow>
      k \<in> placed_bytes f (req_object r) \<and> res = Inr () \<and> (\<exists>g. authorize f r = AuthAuthorized g))
    \<and> (\<forall>j. j \<noteq> req_object r \<and> k \<in> placed_bytes f j \<longrightarrow> fab_memory f' ! k = fab_memory f ! k)"
proof -
  have dj: "placed_bytes f i \<inter> placed_bytes f j = {}" if "i \<noteq> j" for i j
    using fabric_reachable_inv[OF assms(1)] that by (auto simp: core_inv_def)
  show ?thesis using write_changes_within[OF assms(2,3)] dj by blast
qed

theorem write_isolation_witness:
  "\<exists>f'. execute_write demo_pair demo_write [7] = Some (Inr (), f') \<and> fab_memory f' ! 3 = fab_memory demo_pair ! 3"
proof -
  have os: "one_shot demo_pair demo_write (Some [7]) = Inr (2, 3)" by (simp add: exec_eval demo_pair_def)
  obtain f' where w: "execute_write demo_pair demo_write [7] = Some (Inr (), f')"
    using execute_write_effect[of demo_pair demo_write "[7]"] by (auto simp: os)
  have k: "3 < length (fab_memory demo_pair)" "3 \<in> placed_bytes demo_pair (ObjectId 1)" "ObjectId 1 \<noteq> req_object demo_write"
    by (simp_all add: demo_pair_def demo_fabric_def demo_other_def from_parts_def placed_bytes_def obj_live_def
        demo_write_def mk_request_def)
  show ?thesis using write_isolation[OF demo_pair_reachable w k(1)] k(2,3) w by blast
qed

text \<open>
  C15: derivation only attenuates.  A capability derived from an exact authority comes from the
  entry of the source domain that carries that authority identifier, and that entry is valid at
  that moment.  The child names the parent's object and generation and exactly the offset, length
  and rights asked for, and every access it can cover its parent covers too.  It is filed at the
  end of the destination domain, under an identifier that domain did not use; no other domain and
  nothing else of the destination changes.
\<close>

theorem derivation_attenuates:
  assumes "derive_from_authority_id f src a dst ofs ln p b = (Some c, f')"
  shows "(\<exists>ds e. btm_get (fab_domains f) src = Some ds \<and> e \<in> set (dom_capabilities ds) \<and> ce_authority_id e = Some a
      \<and> validate f (ce_cap e) \<and> cap_object c = cap_object (ce_cap e) \<and> cap_generation c = cap_generation (ce_cap e)
      \<and> (\<forall>i x n perm. cap_covers c i x n perm \<longrightarrow> cap_covers (ce_cap e) i x n perm))
    \<and> cap_offset c = ofs \<and> cap_length c = ln \<and> cap_permissions c = p \<and> \<not> has_authority_id f dst b
    \<and> (\<exists>dd. btm_get (fab_domains f) dst = Some dd \<and> btm_get (fab_domains f') dst =
         Some (dd\<lparr>dom_capabilities := dom_capabilities dd @ [\<lparr>ce_cap = c, ce_authority_id = Some b\<rparr>]\<rparr>))
    \<and> (\<forall>x. x \<noteq> dst \<longrightarrow> btm_get (fab_domains f') x = btm_get (fab_domains f) x)"
proof -
  obtain ds e where e: "btm_get (fab_domains f) src = Some ds" "e \<in> set (dom_capabilities ds)" "ce_authority_id e = Some a"
    "validate f (ce_cap e)" "attenuates c (ce_cap e)" "\<not> has_authority_id f dst b"
    "cap_offset c = ofs" "cap_length c = ln" "cap_permissions c = p" "push_capability f dst c (Some b) = (Some c, f')"
    using derive_id_entry[OF assms] by (elim exE conjE)
  have "cap_object c = cap_object (ce_cap e) \<and> cap_generation c = cap_generation (ce_cap e)"
    using e(5) by (simp add: attenuates_def)
  moreover obtain dd where "btm_get (fab_domains f) dst = Some dd" "btm_get (fab_domains f') dst =
      Some (dd\<lparr>dom_capabilities := dom_capabilities dd @ [\<lparr>ce_cap = c, ce_authority_id = Some b\<rparr>]\<rparr>)"
    using push_files[OF e(10)] .
  moreover have "btm_get (fab_domains f') x = btm_get (fab_domains f) x" if "x \<noteq> dst" for x
    using push_only_destination[OF that, of f c "Some b"] e(10) by simp
  ultimately show ?thesis using e(1-4,6-9) attenuates_covers[OF e(5)] by blast
qed

definition demo_authority :: fabric where
  "demo_authority = demo_fabric\<lparr>fab_domains := [(DomainId 0, \<lparr>dom_id = DomainId 0, dom_capabilities =
        [\<lparr>ce_cap = \<lparr>cap_object = ObjectId 0, cap_generation = Generation 0, cap_offset = 0, cap_length = 2,
           cap_permissions = RW\<rparr>, ce_authority_id = Some (AuthorityId 5)\<rparr>], dom_device_authorities = []\<rparr>)]\<rparr>"

definition demo_child :: capability64 where
  "demo_child = \<lparr>cap_object = ObjectId 0, cap_generation = Generation 0, cap_offset = 1, cap_length = 1, cap_permissions = READ\<rparr>"

lemmas derive_eval = demo_authority_def demo_child_def demo_fabric_def from_parts_def derive_from_authority_id_def
  derive_def stack_owner_differs_def validate_def private_heap_object_def obj_live_def perm_is_subset_of_def
  perm_contains_def RW_def READ_def has_authority_id_def push_capability_def Let_def

theorem derivation_attenuates_witness:
  "\<exists>f'. derive_from_authority_id demo_authority (DomainId 0) (AuthorityId 5) (DomainId 0) 1 1 READ (AuthorityId 6) = (Some demo_child, f')
     \<and> (\<exists>ds e. btm_get (fab_domains demo_authority) (DomainId 0) = Some ds \<and> e \<in> set (dom_capabilities ds)
          \<and> ce_authority_id e = Some (AuthorityId 5) \<and> validate demo_authority (ce_cap e))
     \<and> \<not> has_authority_id demo_authority (DomainId 0) (AuthorityId 6)"
proof -
  let ?r = "derive_from_authority_id demo_authority (DomainId 0) (AuthorityId 5) (DomainId 0) 1 1 READ (AuthorityId 6)"
  have r: "?r = (Some demo_child, snd ?r)" by (simp add: derive_eval)
  from derivation_attenuates[OF r] r show ?thesis by blast
qed

text \<open>
  C16: delegating a span to a device hands over exactly that span.  On any fabric that fewer than
  \<open>2 ^ 64\<close> operations have built (the domain counter wraps after that many), the device's domain is
  fresh: no domain had its identity before.  It holds one capability and no device authority; the
  capability is for the named object, offset, length and rights, at the object's present
  generation; the source domain held a valid capability covering it; and no other domain changes.
\<close>

theorem dma_delegation_exact:
  assumes "fabric_reachable_in n f" "n < 2 ^ 64" "delegate_dma_span f src i ofs ln p = (Some d, f')"
  shows "btm_get (fab_domains f) d = None
    \<and> (\<exists>ds q c. btm_get (fab_domains f') d = Some ds \<and> map ce_cap (dom_capabilities ds) = [c]
      \<and> dom_device_authorities ds = []
      \<and> cap_object c = i \<and> cap_offset c = ofs \<and> cap_length c = ln \<and> cap_permissions c = p
      \<and> (\<exists>sd. btm_get (fab_domains f) src = Some sd \<and> q \<in> ce_cap ` set (dom_capabilities sd))
      \<and> validate f q \<and> cap_covers q i ofs ln p \<and> cap_generation c = cap_generation q
      \<and> (\<forall>x. x \<noteq> d \<longrightarrow> btm_get (fab_domains f') x = btm_get (fab_domains f) x))"
proof -
  obtain q where q: "find_authorizing_cap f src i ofs ln p = Some q" "delegate_into_fresh_domain f q ofs ln p = (Some d, f')"
    using assms(3) by (auto simp: delegate_dma_span_def split: if_split_asm option.split_asm)
  obtain sd where sd: "btm_get (fab_domains f) src = Some sd" "q \<in> ce_cap ` set (dom_capabilities sd)"
    "validate f q" "cap_covers q i ofs ln p"
    using q(1) by (auto simp: find_authorizing_cap_def split: option.split_asm dest!: find_mem)
  obtain c0 where c0: "c0 = \<lparr>cap_object = cap_object q, cap_generation = cap_generation q, cap_offset = ofs, cap_length = ln,
      cap_permissions = p\<rparr>" "d = DomainId (fab_next_domain_id f)" "btm_get (fab_domains f') = (btm_get (fab_domains f))(d \<mapsto>
      \<lparr>dom_id = d, dom_capabilities = [\<lparr>ce_cap = c0, ce_authority_id = None\<rparr>], dom_device_authorities = []\<rparr>)"
    using delegate_fresh_exact[OF q(2)] by blast
  have "d \<notin> domain_ids f" unfolding c0(2) using assms(1,2) by (rule reachable_in_fresh)
  then have fresh: "btm_get (fab_domains f) d = None" by (simp add: domain_ids_def)
  have "cap_object q = i" using sd(4) by (simp add: cap_covers_iff)
  then show ?thesis using sd c0(3)
    by (intro conjI[OF fresh] exI[of _ "\<lparr>dom_id = d, dom_capabilities = [\<lparr>ce_cap = c0, ce_authority_id = None\<rparr>], dom_device_authorities = []\<rparr>"]
        exI[of _ q] exI[of _ c0]) (auto simp: c0(1))
qed

theorem dma_delegation_exact_witness:
  "\<exists>f'. delegate_dma_span demo_fabric (DomainId 0) (ObjectId 0) 1 1 READ = (Some (DomainId 1), f')
     \<and> btm_get (fab_domains demo_fabric) (DomainId 1) = None
     \<and> (\<exists>ds. btm_get (fab_domains f') (DomainId 1) = Some ds \<and> length (dom_capabilities ds) = 1)"
proof -
  let ?r = "delegate_dma_span demo_fabric (DomainId 0) (ObjectId 0) 1 1 READ"
  have r: "?r = (Some (DomainId 1), snd ?r)"
    by (simp add: derive_eval delegate_dma_span_def btm_contains_def find_authorizing_cap_def cap_covers_def
        delegate_into_fresh_domain_def create_domain_def)
  have n: "(4::nat) < 2 ^ 64" by simp
  from dma_delegation_exact[OF demo_fabric_run n r]
  obtain ds c where new: "btm_get (fab_domains demo_fabric) (DomainId 1) = None"
    "btm_get (fab_domains (snd ?r)) (DomainId 1) = Some ds" "map ce_cap (dom_capabilities ds) = [c]"
    by (elim exE conjE) (rule that)
  have "length (dom_capabilities ds) = 1" using arg_cong[OF new(3), of length] by simp
  then show ?thesis using r new by blast
qed

section \<open>A stale translation\<close>

text \<open>
  C14: the commit check authorizes again but does not translate again.  Take any write that would
  succeed at once, submit it, and let it be authorized and translated; then move any objects
  anywhere, as often as the placement rules allow.  The last phase still commits, into the span the
  object occupied when the address was translated: memory is as if no object had moved, and every
  byte of that span takes the payload, whichever object is placed there by now.
\<close>

theorem stale_translation_write:
  assumes "one_shot f r (Some data) = Inr (base, end)" "req_kind r = Write"
    and "run_schedule (snd (submit f r (Some data)))
        (Advance (length (fab_transactions f)) # Advance (length (fab_transactions f)) # map (\<lambda>(i, b). Move i b) moves) = Some f1"
  shows "{base ..< end} \<subseteq> placed_bytes f (req_object r)
    \<and> (\<exists>f'. advance f1 (length (fab_transactions f)) = Some f'
      \<and> tx_state (fab_transactions f' ! length (fab_transactions f)) = Committed
      \<and> fab_memory f' = copy_at base data (fab_memory f) \<and> fab_placement f' = fab_placement f1
      \<and> (\<forall>j k. k \<in> placed_bytes f' j \<and> base \<le> k \<and> k < end \<longrightarrow> fab_memory f' ! k = data ! (k - base)))"
proof -
  let ?n = "length (fab_transactions f)"
  obtain g phys where f2: "run_schedule (snd (submit f r (Some data))) [Advance ?n, Advance ?n] =
      Some (with_tx f (prepared_tx f r (Some data) g phys) [])"
    and pc: "precommit_check f (prepared_tx f r (Some data) g phys) = Inr (base, end)"
    using two_phases_prepared[OF assms(1)] .
  let ?f2 = "with_tx f (prepared_tx f r (Some data) g phys) []"
  have "run_schedule ?f2 (map (\<lambda>(i, b). Move i b) moves) = Some f1"
    using assms(3) run_schedule_append[of "snd (submit f r (Some data))" "[Advance ?n, Advance ?n]" "map (\<lambda>(i, b). Move i b) moves"]
      f2 by simp
  then have mv: "moved f1 ?f2" by (rule moved_run)
  have tx: "fab_transactions f1 ! ?n = prepared_tx f r (Some data) g phys" "length (fab_transactions f1) = Suc ?n"
    "fab_memory f1 = fab_memory f" using mv by (simp_all add: moved_def)
  have "precommit_check f1 (prepared_tx f r (Some data) g phys) = Inr (base, end)"
    using moved_precommit[OF mv] pc by simp
  then have vp: "validate_precommit f1 ?n = (Inr (base, end), f1)" by (simp add: validate_precommit_def tx(1))
  let ?f' = "set_tx (commit_bytes f1 base end data) ?n ((prepared_tx f r (Some data) g phys)\<lparr>tx_state := Committed\<rparr>)"
  have adv: "advance f1 ?n = Some ?f'"
    using assms(2) by (simp add: advance_def tx phase_commit_def vp tx_payload_def Let_def)
  note sp = span_in_object[OF assms(1)] and ln = one_shot_length[OF assms(1)]
  have mem: "fab_memory ?f' = copy_at base data (fab_memory f)" "fab_placement ?f' = fab_placement f1"
    "tx_state (fab_transactions ?f' ! ?n) = Committed"
    using tx by (simp_all add: set_tx_def commit_bytes_def clear_pointer_cells_physical_def Let_def)
  have "fab_memory ?f' ! k = data ! (k - base)" if "base \<le> k" "k < end" for k
    unfolding mem(1) using that sp ln assms(2) by (simp add: nth_copy_at)
  then show ?thesis using sp adv mem by blast
qed

theorem stale_translation_write_witness:
  "\<exists>f1 f'. run_schedule (snd (submit demo_pair demo_write (Some [7])))
       [Advance 0, Advance 0, Move (ObjectId 0) 8, Move (ObjectId 1) 2] = Some f1
     \<and> advance f1 0 = Some f' \<and> tx_state (fab_transactions f' ! 0) = Committed
     \<and> req_object demo_write = ObjectId 0 \<and> 2 \<in> placed_bytes f1 (ObjectId 1) \<and> fab_memory f' ! 2 = 7"
proof -
  let ?s = "snd (submit demo_pair demo_write (Some [7]))"
  let ?f1 = "the (run_schedule ?s [Advance 0, Advance 0, Move (ObjectId 0) 8, Move (ObjectId 1) 2])"
  have os: "one_shot demo_pair demo_write (Some [7]) = Inr (2, 3)" by (simp add: exec_eval demo_pair_def)
  have k: "req_kind demo_write = Write" "fab_transactions demo_pair = []" "req_object demo_write = ObjectId 0"
    by (simp_all add: demo_write_def mk_request_def demo_pair_def demo_fabric_def from_parts_def)
  have run: "run_schedule ?s [Advance 0, Advance 0, Move (ObjectId 0) 8, Move (ObjectId 1) 2] = Some ?f1"
    and pl: "2 \<in> placed_bytes ?f1 (ObjectId 1)"
    by (simp_all add: submit_def advance_def phase_authorize_def phase_translate_def set_tx_def move_object_def
        exec_eval op_eval demo_pair_def demo_other_def placed_bytes_def)
  note st = stale_translation_write[OF os k(1), of "[(ObjectId 0, 8), (ObjectId 1, 2)]" ?f1]
  have "fab_memory demo_pair = [0, 0, 0, 0]" by (simp add: demo_pair_def demo_fabric_def from_parts_def)
  then show ?thesis using st run pl k(2,3) by (fastforce simp: copy_at_def)
qed

end
