(* ===== verification/Fabric_Cells.thy ===== *)
theory Fabric_Cells
  imports Fabric_Exec Fabric_Ptr
begin

text \<open>
  Properties of protected pointers: a stored pointer cell loads back, ordinary writes destroy the
  pointer kinds they touch and create none, and the issue of a local frame never panics and is all
  or nothing.
\<close>

section \<open>Pointer cells\<close>

lemma store_cell_Some:
  assumes "store_pointer_cell f r (Some p) = Some (Inr (), f')"
  obtains ob f1 where "btm_get (fab_objects f) (req_object r) = Some ob" "req_kind r = Write" "req_length r = 16"
    "req_offset r mod 16 = 0" "execute_write f r (cell_bytes (sp_words p)) = Some (Inr (), f1)"
    "f' = f1\<lparr>fab_pointer_cells := btm_insert (req_object r, obj_generation ob, req_offset r) p (fab_pointer_cells f1)\<rparr>"
  using assms by (auto simp: store_pointer_cell_def checked_pointer_cell_def Let_def
      split: option.split_asm sum.split_asm prod.split_asm if_split_asm)

lemma length_cell_bytes [simp]: "length (cell_bytes w) = 16"
  by (simp add: cell_bytes_def)

lemma one_shot_cells_cong: "one_shot (f\<lparr>fab_pointer_cells := x\<rparr>) r data = one_shot f r data"
proof -
  have eq: "authorize (f\<lparr>fab_pointer_cells := x\<rparr>) r = authorize f r"
    "translate (f\<lparr>fab_pointer_cells := x\<rparr>) = translate f" "heap_pool_overlaps (f\<lparr>fab_pointer_cells := x\<rparr>) = heap_pool_overlaps f"
    by (rule authorize_cong translate_cong heap_pool_overlaps_cong; simp add: same_authority_def)+
  have mem: "fab_memory (f\<lparr>fab_pointer_cells := x\<rparr>) = fab_memory f" by simp
  show ?thesis unfolding one_shot_def eq mem ..
qed

lemma written_then_read:
  assumes "execute_write f r d = Some (Inr (), f1)" "req_kind r = Write"
    and "authorize f (r\<lparr>req_kind := Read\<rparr>) = AuthAuthorized g"
  shows "\<exists>base end. one_shot f1 (r\<lparr>req_kind := Read\<rparr>) None = Inr (base, end) \<and> slice base (end - base) (fab_memory f1) = d"
proof -
  obtain base "end" tx where w: "one_shot f r (Some d) = Inr (base, end)" "f1 = with_tx (commit_bytes f base end d) tx []"
    "length d = unat (req_length r)" using write_committed[OF assms(1,2)] .
  obtain phys where p: "translate f (req_object r) (req_offset r) = Some phys" "base = unat phys"
    "end = base + unat (req_length r)" "end \<le> length (fab_memory f)" "req_length r \<noteq> 0"
    "\<not> heap_pool_overlaps f phys (req_length r)" "checked_add (req_offset r) (req_length r) \<noteq> None" "end < 2 ^ 64"
    using one_shot_Inr[OF w(1)] by metis
  have "one_shot f1 (r\<lparr>req_kind := Read\<rparr>) None = Inr (base, end)"
    using one_shot_intro[of f1 "r\<lparr>req_kind := Read\<rparr>" g phys] assms(3) p w(3) by (simp add: w(2))
  moreover have "slice base (end - base) (fab_memory f1) = d"
    using slice_copy_at_same[of base d "fab_memory f"] p(3,4) w(3) by (simp add: w(2))
  ultimately show ?thesis by blast
qed

lemma write_keeps_objects:
  assumes "execute_write f r d = Some (Inr (), f1)" "req_kind r = Write"
  shows "fab_objects f1 = fab_objects f"
  using write_committed[OF assms] by (metis commit_bytes_sel(2) with_tx_sel(4))

section \<open>Kinds and ordinary writes\<close>

lemma cell_survives_disjoint:
  assumes "cell_survives f b n (i, g, ofs)" "btm_get (fab_placement f) i = Some p"
  shows "unat p + unat ofs + 16 \<le> unat b \<or> unat b + unat n \<le> unat p + unat ofs"
  using assms by (auto simp: cell_survives_def checked_add_eq_Some word_less_nat_alt not_less split: option.split_asm)

lemma clear_cells_mem:
  assumes "n \<noteq> 0"
  shows "(k, p) \<in> set (fab_pointer_cells (clear_pointer_cells_physical f b n)) \<longleftrightarrow>
    (k, p) \<in> set (fab_pointer_cells f) \<and> cell_survives f b n k"
  using assms by (simp add: clear_pointer_cells_physical_def btm_retain_mem)

section \<open>Frames\<close>

lemma register_all_ready:
  assumes "frame_ready scope (length rs) sp" "\<forall>(r, at, w) \<in> set rs. checked_add at (req_length r) \<noteq> None"
  shows "\<exists>ps sp'. register_all sp scope domain g rs = Some (ps, sp') \<and> length ps = length rs"
  using assms
proof (induction rs arbitrary: sp)
  case Nil
  then show ?case by simp
next
  case (Cons x rs)
  obtain r at w where x: "x = (r, at, w)" by (cases x) auto
  have "frame_ready scope (Suc (length rs)) sp" "checked_add at (req_length r) \<noteq> None" using Cons.prems x by auto
  then obtain p sp1 sp2 where s: "register sp scope domain at (req_length r) w = (Inr p, sp1)"
    "bind_backing sp1 p \<lparr>pb_object = req_object r, pb_generation = g, pb_offset = req_offset r\<rparr> = Some sp2"
    "frame_ready scope (length rs) sp2"
    using register_ready by blast
  obtain ps sp3 where "register_all sp2 scope domain g rs = Some (ps, sp3)" "length ps = length rs"
    using Cons.IH[OF s(3)] Cons.prems(2) by auto
  then show ?case using s x by simp
qed

text \<open>The allocation a registration asks for, in the scope and at the generation of its frame.\<close>

fun local_of :: "scope \<Rightarrow> u64 \<Rightarrow> generation \<Rightarrow> registration \<Rightarrow> local_allocation" where
  "local_of scope domain g (r, at, writable) =
     \<lparr>la_scope = scope, la_domain = domain, la_base = at, la_length = req_length r, la_writable = writable,
      la_backing = Some \<lparr>pb_object = req_object r, pb_generation = g, pb_offset = req_offset r\<rparr>\<rparr>"

definition unissued :: "scoped_pointers \<Rightarrow> scoped_pointer \<Rightarrow> bool" where
  "unissued sp p \<longleftrightarrow> (\<forall>d. \<exists>e. allocation sp p d = Inl e)"

definition allocations_kept :: "scoped_pointers \<Rightarrow> scoped_pointers \<Rightarrow> bool" where
  "allocations_kept sp sp' \<longleftrightarrow> (\<forall>q d a. allocation sp q d = Inr a \<longrightarrow> allocation sp' q d = Inr a)"

lemma unissued_kept: "allocations_kept sp sp' \<Longrightarrow> unissued sp' p \<Longrightarrow> unissued sp p"
  unfolding allocations_kept_def unissued_def by (metis sum.distinct(1) sum.exhaust)

lemma register_issues:
  assumes "register sp scope domain at (req_length r) w = (Inr p, sp1)"
    and "bind_backing sp1 p \<lparr>pb_object = req_object r, pb_generation = g, pb_offset = req_offset r\<rparr> = Some sp2"
  shows "allocation sp2 p domain = Inr (local_of scope domain g (r, at, w))" "sp_position p = 0" "unissued sp p"
    "allocations_kept sp sp2" "sps_scopes sp2 = sps_scopes sp"
proof -
  from assms(1) obtain i where i: "i < length (sps_slots sp)" "slot_is_free (sps_slots sp ! i)"
    "p = \<lparr>sp_slot = i, sp_generation = ps_generation (sps_slots sp ! i) + 1, sp_position = 0\<rparr>"
    "sp1 = sp\<lparr>sps_slots := (sps_slots sp)[i :=
              \<lparr>ps_generation = ps_generation (sps_slots sp ! i) + 1, ps_state = SLive,
               ps_record = RLocal \<lparr>la_scope = scope, la_domain = domain, la_base = at,
                 la_length = req_length r, la_writable = w, la_backing = None\<rparr>\<rparr>],
            sps_active_slots_end := max (sps_active_slots_end sp) (i + 1),
            sps_heap := heap_ledger_advance (sps_heap sp)\<rparr>" by (rule register_Inr)
  have sl: "sps_slots sp2 = (sps_slots sp)[i :=
       \<lparr>ps_generation = ps_generation (sps_slots sp ! i) + 1, ps_state = SLive, ps_record = RLocal (local_of scope domain g (r, at, w))\<rparr>]"
    and sc: "sps_scopes sp2 = sps_scopes sp"
    using assms(2) i by (auto simp: bind_backing_def slot_at_def)
  show "allocation sp2 p domain = Inr (local_of scope domain g (r, at, w))"
    using i(1,3) by (simp add: allocation_def slot_at_def sl)
  show "sp_position p = 0" "sps_scopes sp2 = sps_scopes sp" using i(3) sc by simp_all
  show "unissued sp p" using i(1-3) by (simp add: unissued_def allocation_def slot_at_def slot_is_free_def)
  have "ps_state (sps_slots sp ! i) = SFree" using i(2) by (simp add: slot_is_free_def)
  then have "allocation sp2 q d = Inr a" if "allocation sp q d = Inr a" for q d a
    using that by (cases "sp_slot q = i") (auto simp: allocation_def slot_at_def sl split: if_split_asm)
  then show "allocations_kept sp sp2" unfolding allocations_kept_def by blast
qed

text \<open>The loop registers every local, in order, under pointers that nobody held before.\<close>

lemma register_all_issues:
  assumes "register_all sp scope domain g rs = Some (ps, sp')"
  shows "list_all2 (\<lambda>p reg. allocation sp' p domain = Inr (local_of scope domain g reg) \<and> sp_position p = 0 \<and> unissued sp p) ps rs
    \<and> distinct ps \<and> allocations_kept sp sp' \<and> sps_scopes sp' = sps_scopes sp"
  using assms
proof (induction rs arbitrary: sp ps)
  case Nil
  then show ?case by (simp add: allocations_kept_def)
next
  case (Cons x rs)
  obtain r at w where x: "x = (r, at, w)" by (cases x) auto
  from Cons.prems obtain p sp1 sp2 ps' where s: "register sp scope domain at (req_length r) w = (Inr p, sp1)"
    "bind_backing sp1 p \<lparr>pb_object = req_object r, pb_generation = g, pb_offset = req_offset r\<rparr> = Some sp2"
    "register_all sp2 scope domain g rs = Some (ps', sp')" "ps = p # ps'"
    by (auto simp: x split: sum.splits prod.splits option.splits)
  note R = register_issues[OF s(1,2)]
  note I = Cons.IH[OF s(3)]
  have kept: "allocations_kept sp sp'" using R(4) I unfolding allocations_kept_def by blast
  have "allocation sp' p domain = Inr (local_of scope domain g (r, at, w))" using R(1) I unfolding allocations_kept_def by blast
  moreover have "unissued sp q" if "unissued sp2 q" for q using unissued_kept[OF R(4) that] .
  moreover have "p \<notin> set ps'"
  proof
    assume "p \<in> set ps'"
    then have "unissued sp2 p" using I by (auto simp: list_all2_conv_all_nth in_set_conv_nth)
    then show False using R(1) unfolding unissued_def by (metis sum.distinct(1))
  qed
  ultimately show ?case using I R kept by (auto simp: s(4) x list_all2_conv_all_nth nth_Cons split: nat.split)
qed

lemma check_registrations_spans:
  "check_registrations f fr address end backing ordered prior rs = Inr () \<Longrightarrow>
   \<forall>(r, at, w) \<in> set rs. checked_add at (req_length r) \<noteq> None"
  by (induction f fr address "end" backing ordered prior rs rule: check_registrations.induct)
    (auto simp: registration_invalid_def split: if_split_asm sum.split_asm option.split_asm)

lemma frame_scope:
  assumes wf: "sp_wf sp" and e: "enter_scope_for sp owner = Some (Inr scope, sp1)" "position (scope_is scope) (sps_scopes sp1) = Some i"
    "sps_scopes sp1 ! i = Some \<lparr>sr_scope = scope, sr_owner = owner, sr_frame = None\<rparr>"
    and b: "bind_frame sp1 scope frame = Some sp2"
  shows "sps_slots sp2 = sps_slots sp"
    "\<And>r. Some r \<in> set (sps_scopes sp2) \<longleftrightarrow>
       Some r \<in> set (sps_scopes sp) \<or> r = \<lparr>sr_scope = scope, sr_owner = owner, sr_frame = Some frame\<rparr>"
    "\<And>r. Some r \<in> set (sps_scopes sp) \<Longrightarrow> sr_scope r \<noteq> scope"
proof -
  let ?new = "\<lparr>sr_scope = scope, sr_owner = owner, sr_frame = Some frame\<rparr>"
  from e(1) obtain j where j: "j < length (sps_scopes sp)" "sps_scopes sp ! j = None" "scope = Scope (sps_next_scope sp)"
    "sp1 = sp\<lparr>sps_next_scope := sps_next_scope sp + 1,
           sps_scopes := (sps_scopes sp)[j := Some \<lparr>sr_scope = scope, sr_owner = owner, sr_frame = None\<rparr>],
           sps_active_scopes_end := max (sps_active_scopes_end sp) (j + 1),
           sps_heap := heap_ledger_advance (sps_heap sp)\<rparr>" by (rule enter_scope_for_Inr)
  have old: "sr_scope r \<noteq> scope" if "Some r \<in> set (sps_scopes sp)" for r using wf that j(3) by (auto simp: sp_wf_def)
  then show "\<And>r. Some r \<in> set (sps_scopes sp) \<Longrightarrow> sr_scope r \<noteq> scope" by blast
  have ij: "i = j"
  proof (rule ccontr)
    assume "i \<noteq> j"
    moreover have "i < length (sps_scopes sp)" using position_SomeD[OF e(2)] by (simp add: j(4))
    ultimately show False using old e(3) nth_mem[of i "sps_scopes sp"] by (fastforce simp: j(4))
  qed
  have s2: "sps_scopes sp2 = (sps_scopes sp)[j := Some ?new]" "sps_slots sp2 = sps_slots sp"
    using b e(2,3) ij by (auto simp: bind_frame_def j(4))
  then show "sps_slots sp2 = sps_slots sp" by simp
  show "Some r \<in> set (sps_scopes sp2) \<longleftrightarrow> Some r \<in> set (sps_scopes sp) \<or> r = ?new" for r
    using j(1,2) unfolding s2(1) by (auto simp: in_set_conv_nth nth_list_update) (metis option.distinct(1))
qed

lemma checked_local_backing_Inr:
  "checked_local_backing f r w = Inr b \<Longrightarrow> \<lparr>pb_object = req_object r, pb_generation = pb_generation b, pb_offset = req_offset r\<rparr> = b"
  by (auto simp: checked_local_backing_def Let_def split: if_split_asm auth_result.split_asm option.split_asm)

lemma checked_local_backing_generation:
  assumes "checked_local_backing f r w = Inr b" "req_kind r = Read" shows "authorize f r = AuthAuthorized (pb_generation b)"
proof -
  have "r\<lparr>req_kind := Read\<rparr> = r" using assms(2) by simp
  then show ?thesis using assms(1) by (auto simp: checked_local_backing_def Let_def split: if_split_asm auth_result.split_asm option.split_asm)
qed

lemma check_frame_Inr:
  assumes "check_pointer_frame f owner fr address rs = Inr (backing, physical)"
  shows "preflight_frame (fab_scoped_pointers f) (length rs) = Inr ()"
    "\<forall>(r, at, w) \<in> set rs. checked_add at (req_length r) \<noteq> None"
    "unat physical + unat (req_length fr) \<le> length (fab_memory f)"
    "translate f (req_object fr) (req_offset fr) = Some physical"
    "checked_local_backing f fr True = Inr backing" "req_kind fr = Read"
  using assms check_registrations_spans[of f fr address _ backing "ordered_disjoint rs" "[]" rs]
  by (auto simp: check_pointer_frame_def checked_add_eq_Some not_less
      split: if_split_asm option.split_asm sum.split_asm prod.split_asm)

section \<open>A worked fabric\<close>

definition cell_registry :: scoped_pointers where
  "cell_registry = one_slot_registry\<lparr>
     sps_slots := [\<lparr>ps_generation = 1, ps_state = SLive, ps_record = RLocal
        \<lparr>la_scope = Scope 1, la_domain = 0, la_base = 0, la_length = 8, la_writable = True,
         la_backing = Some \<lparr>pb_object = ObjectId 0, pb_generation = Generation 0, pb_offset = 0\<rparr>\<rparr>\<rparr>],
     sps_scopes := [Some \<lparr>sr_scope = Scope 1, sr_owner = 0, sr_frame = None\<rparr>]\<rparr>"

definition cell_object :: object where
  "cell_object = \<lparr>obj_id = ObjectId 0, obj_generation = Generation 0, obj_size = 32, obj_state = Active,
     obj_kind = Memory, obj_name = []\<rparr>"

definition cell_fabric :: fabric where
  "cell_fabric = (from_parts (replicate 32 0) cell_registry None)\<lparr>
     fab_objects := [(ObjectId 0, cell_object)],
     fab_domains := [(DomainId 0, \<lparr>dom_id = DomainId 0, dom_capabilities =
        [\<lparr>ce_cap = \<lparr>cap_object = ObjectId 0, cap_generation = Generation 0, cap_offset = 0, cap_length = 32,
           cap_permissions = RW\<rparr>, ce_authority_id = None\<rparr>], dom_device_authorities = []\<rparr>)],
     fab_placement := [(ObjectId 0, 0)], fab_next_object_id := 1, fab_next_domain_id := 1\<rparr>"

definition cell_write :: memory_request where
  "cell_write = (mk_request (AgentId 0) (DomainId 0) (ObjectId 0) 16 Byte Write)\<lparr>req_length := 16\<rparr>"

definition cell_pointer :: scoped_pointer where
  "cell_pointer = \<lparr>sp_slot = 0, sp_generation = 1, sp_position = 4\<rparr>"

lemma cell_one_shot: "length d = 16 \<Longrightarrow> one_shot cell_fabric cell_write (Some d) = Inr (16, 32)"
  by (simp add: exec_eval cell_fabric_def cell_object_def cell_write_def)

lemma cell_readable: "authorize cell_fabric (cell_write\<lparr>req_kind := Read\<rparr>) = AuthAuthorized (Generation 0)"
  by (simp add: exec_eval cell_fabric_def cell_object_def cell_write_def)

lemma cell_written: "length d = 16 \<Longrightarrow> \<exists>f'. execute_write cell_fabric cell_write d = Some (Inr (), f')"
  using execute_write_effect[of cell_fabric cell_write d] by (auto simp: cell_one_shot)

lemma cell_pointer_live: "scoped_pointer_backing cell_fabric cell_pointer (DomainId 0) = Inr (ObjectId 0, 4)"
  by (simp add: scoped_pointer_backing_def cell_fabric_def cell_object_def from_parts_def cell_registry_def cell_pointer_def pointer_add_def
      allocation_def slot_at_def pointer_backing_of_def one_slot_registry_def empty_registry_def local_limits_def checked_add_signed_def checked_add_def obj_live_def sp_words_def)

lemma cell_stored: "\<exists>f'. store_pointer_cell cell_fabric cell_write (Some cell_pointer) = Some (Inr (), f')"
proof -
  have "ctx_domain (req_context cell_write) = DomainId 0" "checked_pointer_cell cell_fabric cell_write Write
      = Inr (ObjectId 0, Generation 0, 16)"
    by (simp_all add: checked_pointer_cell_def cell_write_def mk_request_def cell_fabric_def from_parts_def cell_object_def)
  then show ?thesis using cell_pointer_live cell_written[of "cell_bytes (sp_words cell_pointer)"]
    by (auto simp: store_pointer_cell_def)
qed

section \<open>Claims\<close>

text \<open>
  C18: a pointer stored in a cell loads back as the same pointer, whenever the domain may read the
  cell.
\<close>

theorem pointer_cell_roundtrip:
  assumes "store_pointer_cell f r (Some p) = Some (Inr (), f')"
    and "authorize f (r\<lparr>req_kind := Read\<rparr>) = AuthAuthorized g"
  shows "\<exists>f''. load_pointer_cell f' (r\<lparr>req_kind := Read\<rparr>) = Some (Inr (Some p), f'')"
proof -
  let ?r = "r\<lparr>req_kind := Read\<rparr>"
  obtain ob f1 where s: "btm_get (fab_objects f) (req_object r) = Some ob" "req_kind r = Write" "req_length r = 16"
    "req_offset r mod 16 = 0" "execute_write f r (cell_bytes (sp_words p)) = Some (Inr (), f1)"
    "f' = f1\<lparr>fab_pointer_cells := btm_insert (req_object r, obj_generation ob, req_offset r) p (fab_pointer_cells f1)\<rparr>"
    using store_cell_Some[OF assms(1)] .
  obtain base "end" where o: "one_shot f1 ?r None = Inr (base, end)" "slice base (end - base) (fab_memory f1) = cell_bytes (sp_words p)"
    using written_then_read[OF s(5,2) assms(2)] by blast
  have "one_shot f' ?r None = Inr (base, end)" using o(1) by (simp add: s(6) one_shot_cells_cong)
  then obtain f2 where r: "execute_read f' ?r = Some (Inr (cell_bytes (sp_words p)), f2)" "fab_pointer_cells f2 = fab_pointer_cells f'"
    using execute_read_effect[of f' ?r] o(2) by (auto simp: s(6) commit_effect_def)
  have "btm_get (fab_objects f') (req_object r) = Some ob" using s(1) write_keeps_objects[OF s(5,2)] by (simp add: s(6))
  then show ?thesis using r s(3,4,6) by (simp add: load_pointer_cell_def checked_pointer_cell_def)
qed

theorem pointer_cell_roundtrip_witness:
  "\<exists>f' f''. store_pointer_cell cell_fabric cell_write (Some cell_pointer) = Some (Inr (), f')
     \<and> load_pointer_cell f' (cell_write\<lparr>req_kind := Read\<rparr>) = Some (Inr (Some cell_pointer), f'')"
  using cell_stored pointer_cell_roundtrip[OF _ cell_readable] by blast

text \<open>
  C17: pointer kinds cannot be forged.  Whatever request and bytes an ordinary write presents, the
  kinds that exist afterwards all existed before, and the sixteen bytes under every one of them
  are untouched by the write.
\<close>

theorem pointer_kinds_unforgeable:
  assumes "execute_write f r d = Some (Inr (), f')" "req_kind r = Write"
    and "((i, g, ofs), p) \<in> set (fab_pointer_cells f')"
  shows "((i, g, ofs), p) \<in> set (fab_pointer_cells f)
    \<and> (\<exists>b base end. btm_get (fab_placement f) i = Some b \<and> one_shot f r (Some d) = Inr (base, end)
        \<and> (unat b + unat ofs + 16 \<le> base \<or> end \<le> unat b + unat ofs))"
proof -
  obtain base "end" tx where w: "one_shot f r (Some d) = Inr (base, end)" "f' = with_tx (commit_bytes f base end d) tx []"
    using write_committed[OF assms(1,2)] by metis
  obtain g' phys where "authorize f r = AuthAuthorized g'" "translate f (req_object r) (req_offset r) = Some phys"
    and ph: "base = unat phys" "end = base + unat (req_length r)" and "end \<le> length (fab_memory f)"
    and z: "req_length r \<noteq> 0" using one_shot_Inr[OF w(1)] by metis
  have n: "of_nat base = phys" "of_nat (end - base) = req_length r" by (simp_all add: ph)
  have m: "((i, g, ofs), p) \<in> set (fab_pointer_cells (clear_pointer_cells_physical f phys (req_length r)))"
    using assms(3) by (simp add: w(2) commit_bytes_def Let_def n)
  then have c: "((i, g, ofs), p) \<in> set (fab_pointer_cells f)" "cell_survives f phys (req_length r) (i, g, ofs)"
    by (simp_all add: clear_cells_mem[OF z])
  obtain b where b: "btm_get (fab_placement f) i = Some b" using c(2) by (auto simp: cell_survives_def split: option.split_asm)
  show ?thesis using c(1) b w(1) cell_survives_disjoint[OF c(2) b] ph(1,2) by auto
qed

definition kinded_fabric :: fabric where
  "kinded_fabric = cell_fabric\<lparr>fab_pointer_cells := [((ObjectId 0, Generation 0, 0), cell_pointer)]\<rparr>"

lemma kinded_one_shot: "one_shot kinded_fabric cell_write (Some (replicate 16 7)) = Inr (16, 32)"
  by (simp add: kinded_fabric_def one_shot_cells_cong cell_one_shot)

theorem pointer_kinds_unforgeable_witness:
  "\<exists>f' p. execute_write kinded_fabric cell_write (replicate 16 7) = Some (Inr (), f')
     \<and> ((ObjectId 0, Generation 0, 0), p) \<in> set (fab_pointer_cells f')
     \<and> ((ObjectId 0, Generation 0, 0), p) \<in> set (fab_pointer_cells kinded_fabric)"
proof -
  have k: "req_kind cell_write = Write" by (simp add: cell_write_def mk_request_def)
  obtain f' where w: "execute_write kinded_fabric cell_write (replicate 16 7) = Some (Inr (), f')"
    "fab_pointer_cells f' = fab_pointer_cells (commit_bytes kinded_fabric 16 32 (replicate 16 7))"
    using execute_write_effect[of kinded_fabric cell_write "replicate 16 7"] by (auto simp: k kinded_one_shot commit_effect_def)
  have m: "((ObjectId 0, Generation 0, 0), cell_pointer) \<in> set (fab_pointer_cells f')"
    by (simp add: w(2) commit_bytes_def Let_def clear_cells_mem kinded_fabric_def cell_fabric_def cell_survives_def checked_add_def)
  from pointer_kinds_unforgeable[OF w(1) k m] m w(1) show ?thesis by blast
qed

text \<open>What a successful issue leaves behind.\<close>

definition frame_issued :: "fabric \<Rightarrow> u64 \<Rightarrow> memory_request \<Rightarrow> registration list \<Rightarrow> scope \<Rightarrow> scoped_pointer list \<Rightarrow> fabric \<Rightarrow> bool" where
  "frame_issued f owner fr rs scope ps f' \<longleftrightarrow>
     (\<exists>physical cells sp g. translate f (req_object fr) (req_offset fr) = Some physical
       \<and> authorize f fr = AuthAuthorized g \<and> unat physical + unat (req_length fr) \<le> length (fab_memory f)
       \<and> f' = f\<lparr>fab_memory := copy_at (unat physical) (replicate (unat (req_length fr)) 0) (fab_memory f),
               fab_pointer_cells := cells, fab_scoped_pointers := sp\<rparr>
       \<and> (\<forall>k p. (k, p) \<in> set cells \<longleftrightarrow> (k, p) \<in> set (fab_pointer_cells f)
            \<and> (case placed_at f (fst k) (snd (snd k)) of None \<Rightarrow> True | Some c \<Rightarrow> \<not> spans_overlap physical (req_length fr) c 16))
       \<and> list_all2 (\<lambda>p reg. allocation sp p (domain_id_raw (ctx_domain (req_context fr)))
              = Inr (local_of scope (domain_id_raw (ctx_domain (req_context fr))) g reg)
            \<and> sp_position p = 0 \<and> unissued (fab_scoped_pointers f) p) ps rs
       \<and> distinct ps \<and> allocations_kept (fab_scoped_pointers f) sp
       \<and> (\<forall>r. Some r \<in> set (sps_scopes sp) \<longleftrightarrow> Some r \<in> set (sps_scopes (fab_scoped_pointers f))
            \<or> r = \<lparr>sr_scope = scope, sr_owner = owner, sr_frame = Some
                \<lparr>lf_backing = \<lparr>pb_object = req_object fr, pb_generation = g, pb_offset = req_offset fr\<rparr>, lf_length = req_length fr\<rparr>\<rparr>)
       \<and> (\<forall>r. Some r \<in> set (sps_scopes (fab_scoped_pointers f)) \<longrightarrow> sr_scope r \<noteq> scope))"

lemma frame_issued_locals:
  assumes "frame_issued f owner fr rs scope ps f'" "d = domain_id_raw (ctx_domain (req_context fr))"
  shows "\<exists>g. list_all2 (\<lambda>p reg. allocation (fab_scoped_pointers f') p d = Inr (local_of scope d g reg)) ps rs"
  using assms(1) unfolding frame_issued_def assms(2)[symmetric]
proof (elim exE conjE)
  fix physical cells sp g
  assume f': "f' = f\<lparr>fab_memory := copy_at (unat physical) (replicate (unat (req_length fr)) 0) (fab_memory f),
      fab_pointer_cells := cells, fab_scoped_pointers := sp\<rparr>"
    and l: "list_all2 (\<lambda>p reg. allocation sp p d = Inr (local_of scope d g reg) \<and> sp_position p = 0 \<and> unissued (fab_scoped_pointers f) p) ps rs"
  have "list_all2 (\<lambda>p reg. allocation sp p d = Inr (local_of scope d g reg)) ps rs" by (rule list_all2_mono[OF l]) blast
  then show ?thesis using f' by auto
qed

text \<open>
  C19: issuing a local frame is all or nothing and never panics, on every well-formed pointer
  registry.  Either it reports an error and nothing changed; or the frame's bytes, and no others, are
  zero, no pointer kind is left on a cell that overlaps them, a scope that did not exist before is open
  for the owner with the frame as its backing, and every requested local has its own new pointer, to an
  allocation of that scope with exactly the requested span, rights and backing.  Allocations and
  scopes that existed before stay, and so does the rest of the fabric.
\<close>

theorem issue_frame_all_or_nothing:
  assumes "sp_wf (fab_scoped_pointers f)"
  shows "\<exists>res f'. issue_pointer_frame f owner fr address rs = Some (res, f')
    \<and> (case res of
         Inl _ \<Rightarrow> f' = f
       | Inr (scope, ps) \<Rightarrow> frame_issued f owner fr rs scope ps f')"
proof (cases "check_pointer_frame f owner fr address rs")
  case (Inl e)
  then show ?thesis by (simp add: issue_pointer_frame_def)
next
  case (Inr bp)
  obtain backing physical where bp: "bp = (backing, physical)" by fastforce
  note c = check_frame_Inr[OF Inr[unfolded bp]]
  obtain scope sp1 i where e: "enter_scope_for (fab_scoped_pointers f) owner = Some (Inr scope, sp1)"
    "frame_ready scope (length rs) sp1" "position (scope_is scope) (sps_scopes sp1) = Some i"
    "sps_scopes sp1 ! i = Some \<lparr>sr_scope = scope, sr_owner = owner, sr_frame = None\<rparr>"
    using enter_scope_ready[OF assms c(1)] by blast
  obtain sp2 where b: "bind_frame sp1 scope \<lparr>lf_backing = backing, lf_length = req_length fr\<rparr> = Some sp2"
    "frame_ready scope (length rs) sp2" using bind_frame_ready[OF e(2,3,4)] by auto
  obtain ps sp3 where r: "register_all sp2 scope (domain_id_raw (ctx_domain (req_context fr))) (pb_generation backing) rs
      = Some (ps, sp3)" using register_all_ready[OF b(2) c(2)] by blast
  note S = frame_scope[OF assms e(1,3,4) b(1)]
  have sl: "sps_slots sp2 = sps_slots (fab_scoped_pointers f)" by (rule S(1))
  have al: "allocation sp2 = allocation (fab_scoped_pointers f)" by (simp add: fun_eq_iff allocation_def slot_at_def sl)
  note R = register_all_issues[OF r, unfolded unissued_def allocations_kept_def al, folded unissued_def allocations_kept_def]
  define f' where "f' = f\<lparr>fab_memory := copy_at (unat physical) (replicate (unat (req_length fr)) 0) (fab_memory f),
    fab_pointer_cells := btm_retain (\<lambda>k _. frame_cell_survives f physical (req_length fr) k) (fab_pointer_cells f),
    fab_scoped_pointers := sp3\<rparr>"
  have run: "issue_pointer_frame f owner fr address rs = Some (Inr (scope, ps), f')"
    using Inr bp e(1) b(1) r by (simp add: issue_pointer_frame_def f'_def)
  have k: "(k, p) \<in> set (btm_retain (\<lambda>k _. frame_cell_survives f physical (req_length fr) k) (fab_pointer_cells f))
      \<longleftrightarrow> (k, p) \<in> set (fab_pointer_cells f) \<and> (case placed_at f (fst k) (snd (snd k)) of None \<Rightarrow> True
        | Some c \<Rightarrow> \<not> spans_overlap physical (req_length fr) c 16)" for k p
    by (simp add: btm_retain_mem frame_cell_survives_def)
  show ?thesis
  proof (intro exI conjI, rule run, unfold sum.case prod.case frame_issued_def, intro exI conjI allI)
    show "f' = f\<lparr>fab_memory := copy_at (unat physical) (replicate (unat (req_length fr)) 0) (fab_memory f),
      fab_pointer_cells := btm_retain (\<lambda>k _. frame_cell_survives f physical (req_length fr) k) (fab_pointer_cells f),
      fab_scoped_pointers := sp3\<rparr>" by (rule f'_def)
    show "Some r \<in> set (sps_scopes sp3) \<longleftrightarrow> Some r \<in> set (sps_scopes (fab_scoped_pointers f))
        \<or> r = \<lparr>sr_scope = scope, sr_owner = owner, sr_frame = Some \<lparr>lf_backing = \<lparr>pb_object = req_object fr,
            pb_generation = pb_generation backing, pb_offset = req_offset fr\<rparr>, lf_length = req_length fr\<rparr>\<rparr>" for r
      using S(2) R checked_local_backing_Inr[OF c(5)] by simp
    show "list_all2 (\<lambda>p reg. allocation sp3 p (domain_id_raw (ctx_domain (req_context fr)))
            = Inr (local_of scope (domain_id_raw (ctx_domain (req_context fr))) (pb_generation backing) reg)
        \<and> sp_position p = 0 \<and> unissued (fab_scoped_pointers f) p) ps rs"
      "distinct ps" "allocations_kept (fab_scoped_pointers f) sp3" using R by blast+
    show "authorize f fr = AuthAuthorized (pb_generation backing)" by (rule checked_local_backing_generation[OF c(5,6)])
    show "translate f (req_object fr) (req_offset fr) = Some physical"
      "unat physical + unat (req_length fr) \<le> length (fab_memory f)" by (rule c)+
  qed (use k S(3) in blast)+
qed

definition frame_fabric :: fabric where
  "frame_fabric = cell_fabric\<lparr>fab_scoped_pointers := one_slot_registry,
     fab_agents := [(AgentId 0, \<lparr>agent_id = AgentId 0, agent_kind = Cpu (CoreId 0), agent_domain = DomainId 0\<rparr>)],
     fab_pointer_stack_objects := [(ObjectId 0, 7, DomainId 0)]\<rparr>"

definition frame_request :: "u64 \<Rightarrow> memory_request" where
  "frame_request n = \<lparr>req_context = \<lparr>ctx_agent = AgentId 0, ctx_domain = DomainId 0, ctx_privilege = User\<rparr>,
     req_object = ObjectId 0, req_offset = 16, req_width = Byte, req_length = n, req_kind = Read\<rparr>"

lemmas frame_eval = frame_fabric_def frame_request_def cell_fabric_def cell_object_def check_pointer_frame_def
  checked_local_backing_def registration_invalid_def preflight_local_frame_exclusion_def frame_rival_agent_def
  frame_alias_object_def frame_live_backing_def frame_pending_tx_def preflight_frame_def live_frame_backings_def
  live_local_backings_def one_slot_registry_def empty_registry_def local_limits_def slot_is_free_def SLOT_EMPTY_def
  active_scopes_def

lemma frame_checked: "\<exists>b. check_pointer_frame frame_fabric 7 (frame_request 16) 16 [(frame_request 8, 16, True)] = Inr b"
  by (simp add: frame_eval exec_eval)

lemma issue_frame_checked:
  "check_pointer_frame f owner fr address rs = Inr b \<Longrightarrow> issue_pointer_frame f owner fr address rs \<noteq> Some (Inl e, f')"
  by (auto simp: issue_pointer_frame_def Let_def split: option.split prod.split sum.split)

theorem issue_frame_all_or_nothing_witness:
  "\<exists>scope p f' a. issue_pointer_frame frame_fabric 7 (frame_request 16) 16 [(frame_request 8, 16, True)] = Some (Inr (scope, [p]), f')
     \<and> allocation (fab_scoped_pointers f') p (domain_id_raw (DomainId 0)) = Inr a \<and> la_scope a = scope \<and> la_length a = 8"
proof -
  let ?rs = "[(frame_request 8, 16, True)]"
  have wf: "sp_wf (fab_scoped_pointers frame_fabric)" by (simp add: frame_fabric_def one_slot_registry_def sp_wf_new)
  have d: "ctx_domain (req_context (frame_request 16)) = DomainId 0" "req_length (frame_request 8) = 8" by (simp_all add: frame_request_def)
  from issue_frame_all_or_nothing[OF wf, of 7 "frame_request 16" 16 ?rs] obtain res f'
    where r: "issue_pointer_frame frame_fabric 7 (frame_request 16) 16 ?rs = Some (res, f')"
      "case res of Inl _ \<Rightarrow> f' = frame_fabric | Inr (scope, ps) \<Rightarrow> frame_issued frame_fabric 7 (frame_request 16) ?rs scope ps f'"
    by (elim exE conjE) (rule that)
  obtain scope ps where res: "res = Inr (scope, ps)" using r(1) frame_checked issue_frame_checked by (cases res) auto
  then obtain p g where "ps = [p]" "allocation (fab_scoped_pointers f') p (domain_id_raw (DomainId 0))
      = Inr (local_of scope (domain_id_raw (DomainId 0)) g (frame_request 8, 16, True))"
    using frame_issued_locals[of frame_fabric 7 "frame_request 16" ?rs scope ps f'] r(2) d(1) by (auto simp: list_all2_Cons2)
  then show ?thesis using r(1) res d(2) by simp
qed

end
