(* ===== verification/Device_Slots.thy ===== *)
theory Device_Slots
  imports Fabric_Inv
begin

text \<open>
  What the two DMA controllers share: request slots with a queue of completed slot numbers, the
  loop over the slots that both tick functions run, one phase of a transaction per tick, and the
  contract with the rest of the machine, which may do anything to the fabric but touch a
  transaction that is still pending.
\<close>

section \<open>Slots and the completion queue\<close>

definition NUM_SLOTS :: nat where
  "NUM_SLOTS = 2"

text \<open>A \<open>for\<close> loop over slot numbers whose body may panic.\<close>

fun for_slots :: "(nat \<Rightarrow> 's \<Rightarrow> 's option) \<Rightarrow> nat list \<Rightarrow> 's \<Rightarrow> 's option" where
  "for_slots body [] s = Some s"
| "for_slots body (i # is) s = (case body i s of None \<Rightarrow> None | Some s' \<Rightarrow> for_slots body is s')"

definition ring_ok :: "('s \<Rightarrow> bool) \<Rightarrow> 's list \<Rightarrow> nat list \<Rightarrow> bool" where
  "ring_ok completed slots order \<longleftrightarrow>
     distinct order \<and> set order = {i. i < length slots \<and> completed (slots ! i)}"

text \<open>
  The contract of a controller's slots: the free state is not a completed one.  The laws of the
  queue follow for both controllers.
\<close>

locale completion_ring =
  fixes completed :: "'s \<Rightarrow> bool" and free :: 's
  assumes free_not_completed: "\<not> completed free"
begin

lemma ring_new: "ring_ok completed (replicate n free) []"
  using free_not_completed by (auto simp: ring_ok_def)

lemma ring_keep:
  "ring_ok completed slots order \<Longrightarrow> i < length slots \<Longrightarrow> completed (slots ! i) \<longleftrightarrow> completed s
   \<Longrightarrow> ring_ok completed (slots[i := s]) order"
  by (auto simp: ring_ok_def nth_list_update)

lemma ring_cong: "map completed slots' = map completed slots \<Longrightarrow> ring_ok completed slots' order = ring_ok completed slots order"
  by (auto simp: ring_ok_def list_eq_iff_nth_eq)

lemma ring_push:
  "ring_ok completed slots order \<Longrightarrow> i < length slots \<Longrightarrow> \<not> completed (slots ! i) \<Longrightarrow> completed s
   \<Longrightarrow> ring_ok completed (slots[i := s]) (order @ [i])"
  by (auto simp: ring_ok_def nth_list_update)

lemma ring_head: "ring_ok completed slots (i # order) \<Longrightarrow> i < length slots \<and> completed (slots ! i)"
  unfolding ring_ok_def by (metis (mono_tags, lifting) list.set_intros(1) mem_Collect_eq)

lemma ring_pop:
  assumes "ring_ok completed slots (i # order)"
  shows "ring_ok completed (slots[i := free]) order"
proof -
  have d: "i \<notin> set order" "distinct order" and e: "set (i # order) = {j. j < length slots \<and> completed (slots ! j)}"
    using assms unfolding ring_ok_def by simp_all
  have "set order = set (i # order) - {i}" using d(1) by auto
  also have "\<dots> = {j. j < length slots \<and> completed (slots ! j)} - {i}" by (simp only: e)
  also have "\<dots> = {j. j < length (slots[i := free]) \<and> completed (slots[i := free] ! j)}"
    using free_not_completed ring_head[OF assms] by (auto simp: nth_list_update)
  finally have s: "set order = {j. j < length (slots[i := free]) \<and> completed (slots[i := free] ! j)}" .
  show ?thesis unfolding ring_ok_def using d(2) s by (rule conjI)
qed

lemma ring_count: "ring_ok completed slots order \<Longrightarrow> length order = length (filter completed slots)"
  using distinct_card[of order] by (simp add: ring_ok_def length_filter_conv_card)

end

section \<open>Driving a transaction\<close>

text \<open>One phase per tick, none once the transaction is terminal; \<open>None\<close> is the panic of an index out of range.\<close>

definition drive :: "fabric \<Rightarrow> nat \<Rightarrow> fabric option" where
  "drive f idx =
     (if length (fab_transactions f) \<le> idx then None
      else if \<not> tx_is_terminal (tx_state (fab_transactions f ! idx)) then advance f idx
      else Some f)"

definition dma_status :: "fabric \<Rightarrow> nat \<Rightarrow> device_completion_status" where
  "dma_status f idx =
     (case tx_state (fab_transactions f ! idx) of
        Committed \<Rightarrow> Success
      | _ \<Rightarrow> DmaFault (case tx_fault (fab_transactions f ! idx) of
                          Some fr \<Rightarrow> fr_reason fr | None \<Rightarrow> TranslationFault))"

lemma drive_advance: "drive f idx = advance f idx"
  by (auto simp: drive_def advance_def split: tx_state.split)

section \<open>Pending transactions\<close>

definition pending :: "fabric \<Rightarrow> nat \<Rightarrow> bool" where
  "pending f k \<longleftrightarrow> k < length (fab_transactions f) \<and> \<not> tx_is_terminal (tx_state (fab_transactions f ! k))"

text \<open>Nothing happened to the pending transactions of \<open>K\<close>.\<close>

definition keeps_txs :: "nat set \<Rightarrow> fabric \<Rightarrow> fabric \<Rightarrow> bool" where
  "keeps_txs K f f' \<longleftrightarrow>
     (\<forall>k \<in> K. pending f k \<longrightarrow> k < length (fab_transactions f') \<and> fab_transactions f' ! k = fab_transactions f ! k)"

lemma keeps_refl [simp]: "keeps_txs K f f"
  by (simp add: keeps_txs_def pending_def)

lemma keeps_trans: "keeps_txs K f g \<Longrightarrow> keeps_txs K g h \<Longrightarrow> keeps_txs K f h"
  by (simp add: keeps_txs_def pending_def)

lemma keeps_mono: "keeps_txs K f g \<Longrightarrow> K' \<subseteq> K \<Longrightarrow> keeps_txs K' f g"
  by (auto simp: keeps_txs_def)

lemma keeps_same: "fab_transactions f' = fab_transactions f \<Longrightarrow> keeps_txs K f f'"
  by (simp add: keeps_txs_def pending_def)

lemma keeps_append: "fab_transactions f' = fab_transactions f @ txs \<Longrightarrow> keeps_txs K f f'"
  by (simp add: keeps_txs_def pending_def nth_append)

lemma keeps_txsD:
  "keeps_txs K f f' \<Longrightarrow> k \<in> K \<Longrightarrow> pending f k \<Longrightarrow> pending f' k \<and> fab_transactions f' ! k = fab_transactions f ! k"
  by (auto simp: keeps_txs_def pending_def)

section \<open>What one phase does to the transactions\<close>

lemma set_tx_transactions [simp]: "fab_transactions (set_tx f k tx) = (fab_transactions f)[k := tx]"
  by (simp add: set_tx_def)

lemma fault_transactions [simp]:
  "fab_transactions (fault_transaction f k reason) = (fab_transactions f)
     [k := (fab_transactions f ! k)\<lparr>tx_state := Faulted, tx_fault := Some (fault_record_of (fab_transactions f ! k) reason)\<rparr>]"
  by (simp add: fault_transaction_def Let_def)

primrec tx_rank :: "tx_state \<Rightarrow> nat" where
  "tx_rank Requested = 3"
| "tx_rank Authorized = 2"
| "tx_rank Prepared = 1"
| "tx_rank Committed = 0"
| "tx_rank Faulted = 0"

lemma tx_rank_0 [simp]: "tx_rank s = 0 \<longleftrightarrow> tx_is_terminal s"
  by (cases s) auto

lemma advance_tx:
  assumes "advance f k = Some f'"
  shows "k < length (fab_transactions f)" "fab_transactions f' = (fab_transactions f)[k := fab_transactions f' ! k]"
    "tx_request (fab_transactions f' ! k) = tx_request (fab_transactions f ! k)"
    "tx_write_data (fab_transactions f' ! k) = tx_write_data (fab_transactions f ! k)"
    "tx_rank (tx_state (fab_transactions f' ! k)) \<le> tx_rank (tx_state (fab_transactions f ! k)) - 1"
proof -
  define P where "P f' \<longleftrightarrow> fab_transactions f' = (fab_transactions f)[k := fab_transactions f' ! k]
    \<and> tx_request (fab_transactions f' ! k) = tx_request (fab_transactions f ! k)
    \<and> tx_write_data (fab_transactions f' ! k) = tx_write_data (fab_transactions f ! k)
    \<and> tx_rank (tx_state (fab_transactions f' ! k)) \<le> tx_rank (tx_state (fab_transactions f ! k)) - 1" for f' :: fabric
  show k: "k < length (fab_transactions f)" using assms by (auto simp: advance_def split: if_split_asm)
  have "tx_state (fab_transactions f ! k) = Requested \<Longrightarrow> P (phase_authorize f k)"
    using k by (simp add: P_def phase_authorize_def Let_def split: auth_result.split)
  moreover have "tx_state (fab_transactions f ! k) = Authorized \<Longrightarrow> P (phase_translate f k)"
    using k by (simp add: P_def phase_translate_def Let_def split: option.split)
  moreover have "tx_state (fab_transactions f ! k) = Prepared \<Longrightarrow> P (phase_commit f k)"
    using k by (simp add: P_def phase_commit_def validate_precommit_def Let_def split: sum.split prod.split)
  moreover have "tx_is_terminal (tx_state (fab_transactions f ! k)) \<Longrightarrow> P f"
    unfolding P_def by (simp flip: tx_rank_0)
  ultimately have "P f'" using assms k by (auto simp: advance_def split: tx_state.split_asm)
  then show "fab_transactions f' = (fab_transactions f)[k := fab_transactions f' ! k]"
    "tx_request (fab_transactions f' ! k) = tx_request (fab_transactions f ! k)"
    "tx_write_data (fab_transactions f' ! k) = tx_write_data (fab_transactions f ! k)"
    "tx_rank (tx_state (fab_transactions f' ! k)) \<le> tx_rank (tx_state (fab_transactions f ! k)) - 1" unfolding P_def by blast+
qed

lemma advance_total: "k < length (fab_transactions f) \<Longrightarrow> \<exists>f'. advance f k = Some f'"
  by (simp add: advance_def)

lemma submit_fst [simp]: "fst (submit f r data) = length (fab_transactions f)"
  by (simp add: submit_with_tx)

lemma submit_tx:
  obtains tx where "fab_transactions (snd (submit f r data)) = fab_transactions f @ [tx]"
    "tx_request tx = r" "tx_write_data tx = data"
proof (cases "req_length r = 0 \<or> checked_add (req_offset r) (req_length r) = None")
  case True
  then show ?thesis using that[of "faulted (requested_tx f r data) InvalidSpan"] by (simp add: submit_with_tx faulted_def)
next
  case False
  then show ?thesis using that[of "requested_tx f r data"] by (auto simp: submit_with_tx)
qed

lemma destroy_domain_transactions [simp]: "fab_transactions (destroy_domain f d) = fab_transactions f"
  by (simp add: destroy_domain_def)

lemma push_transactions [simp]: "fab_transactions (snd (push_capability f d c a)) = fab_transactions f"
  by (simp add: push_capability_def split: option.splits)

lemma derive_transactions [simp]: "fab_transactions (snd (derive f d parent ofs ln p)) = fab_transactions f"
  by (simp add: derive_def split: option.splits)

lemma fresh_transactions [simp]: "fab_transactions (snd (delegate_into_fresh_domain f parent ofs ln p)) = fab_transactions f"
  by (simp add: delegate_into_fresh_domain_def Let_def case_prod_unfold create_domain_def)

text \<open>Delegating a span touches no transaction.\<close>

lemma delegate_span_transactions:
  "fab_transactions (snd (delegate_dma_span f src i ofs ln p)) = fab_transactions f"
  "fab_transactions (snd (delegate_dma_span_from_authority_id f src a i ofs ln p)) = fab_transactions f"
  by (simp_all add: delegate_dma_span_def delegate_dma_span_from_authority_id_def Let_def split: option.splits)

lemma advance_terminal: "n < length (fab_transactions f) \<Longrightarrow> tx_is_terminal (tx_state (fab_transactions f ! n)) \<Longrightarrow> advance f n = Some f"
  by (auto simp: advance_def tx_is_terminal_iff)

lemma slots_list: "[0..<NUM_SLOTS] = [0, 1]"
  by (simp add: NUM_SLOTS_def upt_rec)

lemma replicate_slots: "replicate NUM_SLOTS x = [x, x]"
  by (simp add: NUM_SLOTS_def numeral_2_eq_2)

end
