(* ===== verification/Block.thy ===== *)
theory Block
  imports Device_Slots Step_System
begin

text \<open>
  The block storage and its controller, \<open>src/src/anka64/block.rs\<close>: two request slots, a fixed
  completion latency, and DMA through the fabric with a domain delegated per request.  Slot
  numbers, bytes in the source, are \<open>nat\<close>; they never reach \<open>NUM_SLOTS\<close>.  An outer \<open>None\<close> is a
  panic.
\<close>

section \<open>Storage\<close>

record block_storage =
  st_data :: "u8 list"
  st_block_size :: u64
  st_num_blocks :: u64

definition storage_new :: "u64 \<Rightarrow> u64 \<Rightarrow> block_storage" where
  "storage_new num_blocks block_size =
     \<lparr>st_data = replicate (unat (num_blocks * block_size)) 0, st_block_size = block_size, st_num_blocks = num_blocks\<rparr>"

text \<open>The slice panics when its end, computed modulo the word size, is not in range.\<close>

definition read_block :: "block_storage \<Rightarrow> u64 \<Rightarrow> u8 list option option" where
  "read_block st b =
     (if b \<ge> st_num_blocks st then Some None
      else let ofs = b * st_block_size st; end = ofs + st_block_size st in
        if end < ofs \<or> unat end > length (st_data st) then None
        else Some (Some (slice (unat ofs) (unat end - unat ofs) (st_data st))))"

definition write_block :: "block_storage \<Rightarrow> u64 \<Rightarrow> u8 list \<Rightarrow> (bool \<times> block_storage) option" where
  "write_block st b data =
     (if b \<ge> st_num_blocks st \<or> length data \<noteq> unat (st_block_size st) then Some (False, st)
      else let ofs = b * st_block_size st; end = ofs + of_nat (length data) in
        if end < ofs \<or> unat end > length (st_data st) then None
        else Some (True, st\<lparr>st_data := copy_at (unat ofs) data (st_data st)\<rparr>))"

section \<open>Requests, completions, slots\<close>

record block_request =
  br_block_number :: u64
  br_requester :: requester_key
  br_target_object :: object_id
  br_target_offset :: u64
  br_source_domain :: domain_id
  br_source_authority_id :: "authority_id option"
  br_delegation_id :: "delegation_id option"

record block_completion =
  bco_handle :: request_handle
  bco_requester :: requester_key
  bco_block_number :: u64
  bco_status :: device_completion_status
  bco_delegation_id :: "delegation_id option"

datatype submit_result = Accepted request_handle | DeviceBusy | InvalidBlock | DelegationFailed

datatype block_slot =
    BFree
  | BWaiting block_request u32 domain_id
  | BDmaReady block_request domain_id
  | BDmaInFlight block_request domain_id nat
  | BCompleted block_completion

primrec b_is_free :: "block_slot \<Rightarrow> bool" where
  "b_is_free BFree = True"
| "b_is_free (BWaiting _ _ _) = False"
| "b_is_free (BDmaReady _ _) = False"
| "b_is_free (BDmaInFlight _ _ _) = False"
| "b_is_free (BCompleted _) = False"

primrec b_is_completed :: "block_slot \<Rightarrow> bool" where
  "b_is_completed BFree = False"
| "b_is_completed (BWaiting _ _ _) = False"
| "b_is_completed (BDmaReady _ _) = False"
| "b_is_completed (BDmaInFlight _ _ _) = False"
| "b_is_completed (BCompleted _) = True"

primrec b_is_waiting :: "block_slot \<Rightarrow> bool" where
  "b_is_waiting BFree = False"
| "b_is_waiting (BWaiting _ _ _) = True"
| "b_is_waiting (BDmaReady _ _) = False"
| "b_is_waiting (BDmaInFlight _ _ _) = False"
| "b_is_waiting (BCompleted _) = False"

primrec b_is_odma :: "block_slot \<Rightarrow> bool" where
  "b_is_odma BFree = False"
| "b_is_odma (BWaiting _ _ _) = False"
| "b_is_odma (BDmaReady _ _) = True"
| "b_is_odma (BDmaInFlight _ _ _) = True"
| "b_is_odma (BCompleted _) = False"

record block_controller =
  bc_slots :: "block_slot list"
  bc_slot_generations :: "u64 list"
  bc_completion_order :: "nat list"
  bc_storage :: block_storage
  bc_latency :: u32
  bc_storage_agent :: agent_id
  bc_event_sequence :: u64

section \<open>Operations\<close>

definition block_new :: "block_storage \<Rightarrow> u32 \<Rightarrow> agent_id \<Rightarrow> block_controller" where
  "block_new storage latency agent =
     \<lparr>bc_slots = replicate NUM_SLOTS BFree, bc_slot_generations = replicate NUM_SLOTS 0, bc_completion_order = [],
      bc_storage = storage, bc_latency = latency, bc_storage_agent = agent, bc_event_sequence = 0\<rparr>"

definition block_delegate :: "block_request \<Rightarrow> u64 \<Rightarrow> fabric \<Rightarrow> domain_id option \<times> fabric" where
  "block_delegate r block_size f =
     (case br_source_authority_id r of
        Some aid \<Rightarrow> delegate_dma_span_from_authority_id f (br_source_domain r) aid (br_target_object r)
                      (br_target_offset r) block_size WRITE
      | None \<Rightarrow> delegate_dma_span f (br_source_domain r) (br_target_object r) (br_target_offset r) block_size WRITE)"

definition block_submit :: "block_controller \<Rightarrow> block_request \<Rightarrow> fabric
    \<Rightarrow> submit_result \<times> block_controller \<times> fabric" where
  "block_submit bc r f =
     (if br_source_authority_id r = None \<and> br_delegation_id r \<noteq> None then (DelegationFailed, bc, f)
      else if br_block_number r \<ge> st_num_blocks (bc_storage bc) then (InvalidBlock, bc, f)
      else case position b_is_free (bc_slots bc) of
        None \<Rightarrow> (DeviceBusy, bc, f)
      | Some idx \<Rightarrow>
         (case block_delegate r (st_block_size (bc_storage bc)) f of
            (None, f') \<Rightarrow> (DelegationFailed, bc, f')
          | (Some dma_domain, f') \<Rightarrow>
              (Accepted \<lparr>rh_slot = of_nat idx, rh_generation = bc_slot_generations bc ! idx\<rparr>,
               bc\<lparr>bc_slots := (bc_slots bc)[idx := BWaiting r (max (bc_latency bc) 1) dma_domain]\<rparr>, f')))"

text \<open>The three phases of \<open>tick\<close>, each for one slot.\<close>

definition wait_slot :: "block_slot \<Rightarrow> block_slot" where
  "wait_slot s =
     (case s of
        BWaiting r remaining d \<Rightarrow>
          if remaining - 1 = 0 then BDmaReady r d else BWaiting r (remaining - 1) d
      | _ \<Rightarrow> s)"

definition block_start :: "nat \<Rightarrow> block_controller \<times> fabric \<Rightarrow> (block_controller \<times> fabric) option" where
  "block_start i s =
     (let (bc, f) = s in
      case bc_slots bc ! i of
        BDmaReady r d \<Rightarrow>
          (case read_block (bc_storage bc) (br_block_number r) of
             Some (Some data) \<Rightarrow>
               let (tx_idx, f') = submit f (dma_request (bc_storage_agent bc) d (br_target_object r) (br_target_offset r)
                                     (st_block_size (bc_storage bc)) Write) (Some data)
               in Some (bc\<lparr>bc_slots := (bc_slots bc)[i := BDmaInFlight r d tx_idx]\<rparr>, f')
           | _ \<Rightarrow> None)
      | _ \<Rightarrow> Some s)"

definition block_finish :: "nat \<Rightarrow> block_request \<Rightarrow> domain_id \<Rightarrow> nat \<Rightarrow> block_controller \<Rightarrow> fabric
    \<Rightarrow> (block_controller \<times> fabric) option" where
  "block_finish i r d tx_idx bc f =
     (let completion = \<lparr>bco_handle = \<lparr>rh_slot = of_nat i, rh_generation = bc_slot_generations bc ! i\<rparr>,
            bco_requester = br_requester r, bco_block_number = br_block_number r,
            bco_status = dma_status f tx_idx, bco_delegation_id = br_delegation_id r\<rparr>
      in case checked_add (bc_event_sequence bc) 1 of
           None \<Rightarrow> None
         | Some e \<Rightarrow> Some (bc\<lparr>bc_slots := (bc_slots bc)[i := BCompleted completion],
                            bc_completion_order := bc_completion_order bc @ [i], bc_event_sequence := e\<rparr>,
                          destroy_domain f d))"

definition block_drive :: "nat \<Rightarrow> block_controller \<times> fabric \<Rightarrow> (block_controller \<times> fabric) option" where
  "block_drive i s =
     (let (bc, f) = s in
      case bc_slots bc ! i of
        BDmaInFlight r d tx_idx \<Rightarrow>
          (case drive f tx_idx of
             None \<Rightarrow> None
           | Some f' \<Rightarrow>
               if tx_is_terminal (tx_state (fab_transactions f' ! tx_idx))
               then block_finish i r d tx_idx bc f' else Some (bc, f'))
      | _ \<Rightarrow> Some s)"

definition block_tick :: "block_controller \<times> fabric \<Rightarrow> (block_controller \<times> fabric) option" where
  "block_tick s =
     (let (bc, f) = s in
      case for_slots block_start [0..<NUM_SLOTS] (bc\<lparr>bc_slots := map wait_slot (bc_slots bc)\<rparr>, f) of
        None \<Rightarrow> None
      | Some s' \<Rightarrow> for_slots block_drive [0..<NUM_SLOTS] s')"

definition consume_completion :: "block_controller \<Rightarrow> (block_completion option \<times> block_controller) option" where
  "consume_completion bc =
     (case bc_completion_order bc of
        [] \<Rightarrow> Some (None, bc)
      | i # order \<Rightarrow>
          if length (bc_slots bc) \<le> i then None
          else case bc_slots bc ! i of
            BCompleted c \<Rightarrow>
              Some (Some c, bc\<lparr>bc_slots := (bc_slots bc)[i := BFree], bc_completion_order := order,
                               bc_slot_generations := (bc_slot_generations bc)[i := bc_slot_generations bc ! i + 1]\<rparr>)
          | _ \<Rightarrow> Some (None, bc\<lparr>bc_completion_order := order\<rparr>))"

section \<open>Observations\<close>

definition completion_count :: "block_controller \<Rightarrow> nat" where
  "completion_count bc = length (filter b_is_completed (bc_slots bc))"

definition requires_attention :: "block_controller \<Rightarrow> bool" where
  "requires_attention bc \<longleftrightarrow> completion_count bc > 0"

definition free_slot_count :: "block_controller \<Rightarrow> nat" where
  "free_slot_count bc = length (filter b_is_free (bc_slots bc))"

definition has_autonomous_work :: "block_controller \<Rightarrow> bool" where
  "has_autonomous_work bc \<longleftrightarrow> list_ex (\<lambda>s. b_is_waiting s \<or> b_is_odma s) (bc_slots bc)"

primrec slot_request :: "block_slot \<Rightarrow> block_request option" where
  "slot_request BFree = None"
| "slot_request (BWaiting r _ _) = Some r"
| "slot_request (BDmaReady r _) = Some r"
| "slot_request (BDmaInFlight r _ _) = Some r"
| "slot_request (BCompleted _) = None"

definition in_flight_requests :: "block_controller \<Rightarrow> block_request list" where
  "in_flight_requests bc = List.map_filter slot_request (bc_slots bc)"

definition nonterminal_pair_request_count :: "block_controller \<Rightarrow> process_key \<Rightarrow> process_key \<Rightarrow> nat" where
  "nonterminal_pair_request_count bc client driver =
     length (filter (\<lambda>s. case slot_request s of
        None \<Rightarrow> False
      | Some r \<Rightarrow>
         (case br_delegation_id r of
            None \<Rightarrow> False
          | Some did \<Rightarrow> pk_slot (del_client did) = pk_slot client \<and> pk_generation (del_client did) = pk_generation client
              \<and> pk_slot (del_driver did) = pk_slot driver \<and> pk_generation (del_driver did) = pk_generation driver))
      (bc_slots bc))"

definition has_nonterminal_pair_request :: "block_controller \<Rightarrow> process_key \<Rightarrow> process_key \<Rightarrow> bool" where
  "has_nonterminal_pair_request bc client driver \<longleftrightarrow> nonterminal_pair_request_count bc client driver \<noteq> 0"

text \<open>The structural checks of \<open>assert_conservation\<close>, which the source compiles in debug builds.\<close>

definition conservation_ok :: "block_controller \<Rightarrow> bool" where
  "conservation_ok bc \<longleftrightarrow>
     free_slot_count bc + length (filter b_is_waiting (bc_slots bc)) + length (filter b_is_odma (bc_slots bc))
       + completion_count bc = NUM_SLOTS
     \<and> length (bc_completion_order bc) = completion_count bc
     \<and> list_all (\<lambda>i. i < length (bc_slots bc) \<and> b_is_completed (bc_slots bc ! i)) (bc_completion_order bc)
     \<and> distinct (bc_completion_order bc)"

section \<open>Storage laws\<close>

definition storage_ok :: "block_storage \<Rightarrow> bool" where
  "storage_ok st \<longleftrightarrow> length (st_data st) = unat (st_num_blocks st) * unat (st_block_size st) \<and> length (st_data st) < 2 ^ 64"

definition block_bytes :: "block_storage \<Rightarrow> u64 \<Rightarrow> u8 list" where
  "block_bytes st b = slice (unat b * unat (st_block_size st)) (unat (st_block_size st)) (st_data st)"

lemma storage_new_ok: "unat n * unat s < 2 ^ 64 \<Longrightarrow> storage_ok (storage_new n s)"
  by (simp add: storage_ok_def storage_new_def unat_word_ariths)

lemma block_span:
  assumes "storage_ok st" "b < st_num_blocks st"
  shows "unat (b * st_block_size st) = unat b * unat (st_block_size st)"
    "unat (b * st_block_size st + st_block_size st) = unat b * unat (st_block_size st) + unat (st_block_size st)"
    "unat b * unat (st_block_size st) + unat (st_block_size st) \<le> length (st_data st)"
proof -
  have "Suc (unat b) * unat (st_block_size st) \<le> unat (st_num_blocks st) * unat (st_block_size st)"
    using assms(2) by (intro mult_le_mono1) (simp add: word_less_nat_alt)
  then show le: "unat b * unat (st_block_size st) + unat (st_block_size st) \<le> length (st_data st)"
    using assms(1) by (simp add: storage_ok_def add.commute)
  then have lt: "unat b * unat (st_block_size st) + unat (st_block_size st) < 2 ^ 64"
    using assms(1) by (simp add: storage_ok_def)
  then show m: "unat (b * st_block_size st) = unat b * unat (st_block_size st)" by (simp add: unat_word_ariths)
  show "unat (b * st_block_size st + st_block_size st) = unat b * unat (st_block_size st) + unat (st_block_size st)"
    using lt m by (simp add: unat_word_ariths(1))
qed

lemma read_block_ok:
  assumes "storage_ok st" "b < st_num_blocks st"
  shows "read_block st b = Some (Some (block_bytes st b))"
  using block_span[OF assms] assms(2) by (simp add: read_block_def block_bytes_def Let_def word_less_nat_alt word_le_nat_alt)

lemma length_block_bytes:
  assumes "storage_ok st" "b < st_num_blocks st"
  shows "length (block_bytes st b) = unat (st_block_size st)"
  using block_span(3)[OF assms] by (simp add: block_bytes_def)

section \<open>Invariant\<close>

interpretation block_ring: completion_ring b_is_completed BFree
  by unfold_locales simp

text \<open>Between ticks a transaction in flight is pending; within a tick this holds of the slots already driven.\<close>

definition slot_ok :: "bool \<Rightarrow> block_controller \<Rightarrow> fabric \<Rightarrow> nat \<Rightarrow> bool" where
  "slot_ok driven bc f i =
     (case bc_slots bc ! i of
        BFree \<Rightarrow> True
      | BWaiting r n d \<Rightarrow> n \<noteq> 0 \<and> br_block_number r < st_num_blocks (bc_storage bc)
      | BDmaReady r d \<Rightarrow> br_block_number r < st_num_blocks (bc_storage bc)
      | BDmaInFlight r d idx \<Rightarrow>
          (if driven then pending f idx else idx < length (fab_transactions f))
          \<and> tx_request (fab_transactions f ! idx) = dma_request (bc_storage_agent bc) d (br_target_object r)
               (br_target_offset r) (st_block_size (bc_storage bc)) Write
          \<and> tx_write_data (fab_transactions f ! idx) = Some (block_bytes (bc_storage bc) (br_block_number r))
      | BCompleted c \<Rightarrow> bco_handle c = \<lparr>rh_slot = of_nat i, rh_generation = bc_slot_generations bc ! i\<rparr>)"

primrec slot_tx :: "block_slot \<Rightarrow> nat option" where
  "slot_tx BFree = None"
| "slot_tx (BWaiting _ _ _) = None"
| "slot_tx (BDmaReady _ _) = None"
| "slot_tx (BDmaInFlight _ _ idx) = Some idx"
| "slot_tx (BCompleted _) = None"

definition own_txs :: "block_controller \<Rightarrow> nat set" where
  "own_txs bc = {k. \<exists>i < length (bc_slots bc). slot_tx (bc_slots bc ! i) = Some k}"

definition block_inv :: "nat set \<Rightarrow> block_controller \<Rightarrow> fabric \<Rightarrow> bool" where
  "block_inv driven bc f \<longleftrightarrow>
     length (bc_slots bc) = NUM_SLOTS \<and> length (bc_slot_generations bc) = NUM_SLOTS \<and> storage_ok (bc_storage bc)
     \<and> ring_ok b_is_completed (bc_slots bc) (bc_completion_order bc)
     \<and> (\<forall>i < NUM_SLOTS. slot_ok (i \<in> driven) bc f i)
     \<and> (\<forall>i < NUM_SLOTS. \<forall>j < NUM_SLOTS. \<forall>k. i \<noteq> j \<longrightarrow> slot_tx (bc_slots bc ! i) = Some k
          \<longrightarrow> slot_tx (bc_slots bc ! j) \<noteq> Some k)"

lemma slot_ok_weaken: "slot_ok b bc f i \<Longrightarrow> b' \<longrightarrow> b \<Longrightarrow> slot_ok b' bc f i"
  by (cases "bc_slots bc ! i") (auto simp: slot_ok_def pending_def split: if_split_asm)

lemma block_inv_mono: "block_inv D bc f \<Longrightarrow> D' \<subseteq> D \<Longrightarrow> block_inv D' bc f"
  unfolding block_inv_def by (elim conjE, intro conjI) (blast intro: slot_ok_weaken)+

text \<open>A slot that is not touched stays as it is when its own transaction does.\<close>

lemma slot_ok_frame:
  assumes "slot_ok b bc f j" "bc_slots bc' ! j = bc_slots bc ! j" "bc_storage bc' = bc_storage bc"
    and "bc_storage_agent bc' = bc_storage_agent bc" "bc_slot_generations bc' ! j = bc_slot_generations bc ! j"
    and "\<And>k. slot_tx (bc_slots bc ! j) = Some k \<Longrightarrow> k < length (fab_transactions f) \<Longrightarrow> pending f k \<or> \<not> b
      \<Longrightarrow> k < length (fab_transactions f') \<and> fab_transactions f' ! k = fab_transactions f ! k"
  shows "slot_ok b bc' f' j"
proof (cases "bc_slots bc ! j")
  case (BDmaInFlight r d k)
  then have "k < length (fab_transactions f)" "pending f k \<or> \<not> b"
    using assms(1) by (auto simp: slot_ok_def pending_def split: if_split_asm)
  then have "k < length (fab_transactions f') \<and> fab_transactions f' ! k = fab_transactions f ! k"
    using assms(6)[of k] BDmaInFlight by simp
  then show ?thesis using assms(1-5) BDmaInFlight by (auto simp: slot_ok_def pending_def split: if_split_asm)
qed (use assms(1-5) in \<open>simp_all add: slot_ok_def\<close>)

section \<open>Progress\<close>

text \<open>
  How many ticks a slot is from completion.  The stages of a tick: \<open>Rest\<close> between ticks,
  \<open>Waited\<close> after the first phase, \<open>Started\<close> after the second.
\<close>

datatype stage = Rest | Waited | Started

definition slot_rank :: "stage \<Rightarrow> fabric \<Rightarrow> block_slot \<Rightarrow> nat" where
  "slot_rank st f s =
     (case s of
        BWaiting r n d \<Rightarrow> unat n + 2 + (if st = Rest then 0 else 1)
      | BDmaReady r d \<Rightarrow> 3
      | BDmaInFlight r d idx \<Rightarrow> tx_rank (tx_state (fab_transactions f ! idx))
      | _ \<Rightarrow> 0)"

definition answers :: "block_completion \<Rightarrow> block_request \<Rightarrow> bool" where
  "answers c r \<longleftrightarrow> bco_requester c = br_requester r \<and> bco_block_number c = br_block_number r
     \<and> bco_delegation_id c = br_delegation_id r"

definition progress :: "stage \<Rightarrow> nat \<Rightarrow> block_request \<Rightarrow> fabric \<Rightarrow> block_slot \<Rightarrow> bool" where
  "progress st k r f s \<longleftrightarrow>
     (case s of
        BCompleted c \<Rightarrow> answers c r
      | BDmaReady r' d \<Rightarrow> st \<noteq> Started \<and> r' = r \<and> slot_rank st f s \<le> k
      | _ \<Rightarrow> slot_request s = Some r \<and> slot_rank st f s \<le> k)"

lemma progress_wait:
  assumes "progress Rest k r f s" "\<And>r n d. s = BWaiting r n d \<Longrightarrow> n \<noteq> 0"
  shows "progress Waited k r f (wait_slot s)"
proof (cases s)
  case (BWaiting r n d)
  have "unat (n - 1) = unat n - 1" using assms(2)[OF BWaiting] by (simp add: unat_minus_one)
  moreover have "unat n \<noteq> 0" using assms(2)[OF BWaiting] by (simp add: unat_eq_0)
  ultimately show ?thesis using assms(1) BWaiting by (auto simp: progress_def wait_slot_def slot_rank_def)
qed (use assms(1) in \<open>simp_all add: progress_def wait_slot_def slot_rank_def\<close>)

lemma progress_frame:
  assumes "progress b k r f s" "\<And>n. slot_tx s = Some n \<Longrightarrow> fab_transactions f' ! n = fab_transactions f ! n"
  shows "progress b k r f' s"
  using assms by (cases s) (simp_all add: progress_def slot_rank_def)

section \<open>The phases of a tick\<close>

lemma wait_slot_sel [simp]:
  "b_is_completed (wait_slot s) = b_is_completed s" "slot_tx (wait_slot s) = slot_tx s"
  by (cases s; simp add: wait_slot_def)+

lemma wait_phase:
  assumes "block_inv UNIV bc f"
  shows "block_inv UNIV (bc\<lparr>bc_slots := map wait_slot (bc_slots bc)\<rparr>) f"
proof -
  have "slot_ok True (bc\<lparr>bc_slots := map wait_slot (bc_slots bc)\<rparr>) f i" if "i < length (bc_slots bc)" "slot_ok True bc f i" for i
    using that by (cases "bc_slots bc ! i") (simp_all add: slot_ok_def wait_slot_def)
  moreover have "ring_ok b_is_completed (map wait_slot (bc_slots bc)) order = ring_ok b_is_completed (bc_slots bc) order" for order
    by (rule block_ring.ring_cong) simp
  ultimately show ?thesis using assms by (simp add: block_inv_def)
qed

lemma slot_tx_bound:
  "slot_ok b bc f j \<Longrightarrow> slot_tx (bc_slots bc ! j) = Some k \<Longrightarrow> k < length (fab_transactions f)"
  by (cases "bc_slots bc ! j") (auto simp: slot_ok_def pending_def split: if_split_asm)

lemma block_invD:
  assumes "block_inv D bc f"
  shows "length (bc_slots bc) = NUM_SLOTS" "length (bc_slot_generations bc) = NUM_SLOTS" "storage_ok (bc_storage bc)"
    "ring_ok b_is_completed (bc_slots bc) (bc_completion_order bc)"
    "i < NUM_SLOTS \<Longrightarrow> slot_ok (i \<in> D) bc f i"
    "i < NUM_SLOTS \<Longrightarrow> j < NUM_SLOTS \<Longrightarrow> i \<noteq> j \<Longrightarrow> slot_tx (bc_slots bc ! i) = Some k \<Longrightarrow> slot_tx (bc_slots bc ! j) \<noteq> Some k"
proof -
  show "length (bc_slots bc) = NUM_SLOTS" "length (bc_slot_generations bc) = NUM_SLOTS" "storage_ok (bc_storage bc)"
    "ring_ok b_is_completed (bc_slots bc) (bc_completion_order bc)"
    "i < NUM_SLOTS \<Longrightarrow> slot_ok (i \<in> D) bc f i"
    using assms unfolding block_inv_def by simp_all
  show "slot_tx (bc_slots bc ! j) \<noteq> Some k"
    if "i < NUM_SLOTS" "j < NUM_SLOTS" "i \<noteq> j" "slot_tx (bc_slots bc ! i) = Some k"
    using assms that unfolding block_inv_def by blast
qed

definition others_kept :: "nat \<Rightarrow> block_controller \<Rightarrow> fabric \<Rightarrow> fabric \<Rightarrow> bool" where
  "others_kept i bc f f' \<longleftrightarrow>
     (\<forall>j k. j < NUM_SLOTS \<and> j \<noteq> i \<and> slot_tx (bc_slots bc ! j) = Some k
        \<longrightarrow> k < length (fab_transactions f') \<and> fab_transactions f' ! k = fab_transactions f ! k)"

text \<open>Replacing one slot, when the transactions of the others stay.\<close>

lemma replace_slot:
  assumes inv: "block_inv D bc f" and i: "i < NUM_SLOTS"
    and bc': "bc_slots bc' = (bc_slots bc)[i := s]" "bc_storage bc' = bc_storage bc"
      "bc_storage_agent bc' = bc_storage_agent bc" "bc_slot_generations bc' = bc_slot_generations bc"
    and ring: "ring_ok b_is_completed (bc_slots bc') (bc_completion_order bc')"
    and here: "slot_ok (i \<in> D') bc' f' i" and D: "D' - {i} = D - {i}"
    and keep: "others_kept i bc f f'"
    and own: "\<And>j k. j < NUM_SLOTS \<Longrightarrow> j \<noteq> i \<Longrightarrow> slot_tx s = Some k \<Longrightarrow> slot_tx (bc_slots bc ! j) \<noteq> Some k"
  shows "block_inv D' bc' f'"
    "j < NUM_SLOTS \<Longrightarrow> j \<noteq> i \<Longrightarrow> progress b k r f (bc_slots bc ! j) \<Longrightarrow> progress b k r f' (bc_slots bc' ! j)"
proof -
  note I = block_invD[OF inv]
  have other: "bc_slots bc' ! j = bc_slots bc ! j" if "j \<noteq> i" for j using that bc'(1) by simp
  have this_slot: "bc_slots bc' ! i = s" using bc'(1) I(1) i by simp
  have ok: "slot_ok (j \<in> D') bc' f' j" if "j < NUM_SLOTS" for j
  proof (cases "j = i")
    case False
    have "j \<in> D' \<longleftrightarrow> j \<in> D" using D False by blast
    then show ?thesis using I(5)[OF that] other[OF False] bc'(2-4) keep that False
      by (intro slot_ok_frame[of "j \<in> D'" bc f j bc' f']) (simp_all add: others_kept_def)
  qed (use here in simp)
  have dis: "slot_tx (bc_slots bc' ! n) \<noteq> Some k"
    if mn: "m < NUM_SLOTS" "n < NUM_SLOTS" "m \<noteq> n" "slot_tx (bc_slots bc' ! m) = Some k" for m n k
  proof -
    consider "m = i" | "n = i" "m \<noteq> i" | "m \<noteq> i" "n \<noteq> i" by blast
    then show ?thesis
      using mn(3,4) own[OF mn(1), of k] own[OF mn(2), of k] I(6)[OF mn(1,2,3), of k] other[of m] other[of n] this_slot
      by cases auto
  qed
  show "block_inv D' bc' f'" unfolding block_inv_def using I(1-3) bc' ring ok dis by auto
  show "progress b k r f' (bc_slots bc' ! j)" if "j < NUM_SLOTS" "j \<noteq> i" "progress b k r f (bc_slots bc ! j)"
    using that other[OF that(2)] keep by (auto intro: progress_frame simp: others_kept_def)
qed

lemma start_phase:
  assumes inv: "block_inv {} bc f" and i: "i < NUM_SLOTS"
  obtains bc' f' where "block_start i (bc, f) = Some (bc', f')" "block_inv {} bc' f'"
    "bc_event_sequence bc' = bc_event_sequence bc" "bc_slot_generations bc' = bc_slot_generations bc"
    "\<And>j st k r. j < NUM_SLOTS \<Longrightarrow> j \<noteq> i \<Longrightarrow> progress st k r f (bc_slots bc ! j) \<Longrightarrow> progress st k r f' (bc_slots bc' ! j)"
    "\<And>k r. progress Waited k r f (bc_slots bc ! i) \<Longrightarrow> progress Started k r f' (bc_slots bc' ! i)"
proof (cases "\<exists>r d. bc_slots bc ! i = BDmaReady r d")
  case True
  then obtain r d where slot: "bc_slots bc ! i = BDmaReady r d" by blast
  note I = block_invD[OF inv]
  define req where "req = dma_request (bc_storage_agent bc) d (br_target_object r) (br_target_offset r)
    (st_block_size (bc_storage bc)) Write"
  define data where "data = block_bytes (bc_storage bc) (br_block_number r)"
  define s where "s = BDmaInFlight r d (length (fab_transactions f))"
  define f' where "f' = snd (submit f req (Some data))"
  let ?bc = "bc\<lparr>bc_slots := (bc_slots bc)[i := s]\<rparr>"
  have rb: "read_block (bc_storage bc) (br_block_number r) = Some (Some data)"
    using read_block_ok[OF I(3)] I(5)[OF i] slot by (simp add: slot_ok_def data_def)
  have st: "block_start i (bc, f) = Some (?bc, f')"
    using slot rb by (simp add: block_start_def case_prod_unfold f'_def req_def s_def)
  obtain tx where tx: "fab_transactions f' = fab_transactions f @ [tx]" "tx_request tx = req" "tx_write_data tx = Some data"
    using submit_tx[of f req "Some data"] unfolding f'_def by blast
  have bound: "k < length (fab_transactions f)" if "slot_tx (bc_slots bc ! j) = Some k" "j < NUM_SLOTS" for j k
    using slot_tx_bound[OF I(5)[OF that(2)] that(1)] .
  have here: "slot_ok (i \<in> {}) ?bc f' i" using I(1) i tx by (simp add: slot_ok_def s_def req_def data_def)
  have ring: "ring_ok b_is_completed (bc_slots ?bc) (bc_completion_order ?bc)"
    using block_ring.ring_keep[OF I(4)] I(1) i slot by (simp add: s_def)
  have keep: "others_kept i bc f f'"
    using bound tx(1) by (auto simp: others_kept_def nth_append less_SucI)
  have own: "slot_tx (bc_slots bc ! j) \<noteq> Some k" if "j < NUM_SLOTS" "j \<noteq> i" "slot_tx s = Some k" for j k
    using bound[of j k] that by (auto simp: s_def)
  note R = replace_slot[where bc' = ?bc and f' = f' and D' = "{}" and s = s, OF inv i _ _ _ _ ring here _ keep own]
  have inv': "block_inv {} ?bc f'" by (rule R(1)) simp_all
  have here': "progress Started k r' f' (bc_slots ?bc ! i)" if "progress Waited k r' f (bc_slots bc ! i)" for k r'
    using that slot i I(1) tx(1) by (cases "tx_state tx") (simp_all add: progress_def slot_rank_def s_def)
  have others: "progress st k r' f' (bc_slots ?bc ! j)"
    if "j < NUM_SLOTS" "j \<noteq> i" "progress st k r' f (bc_slots bc ! j)" for j st k r'
    by (rule R(2)[OF _ _ _ _ _ _ _ _ that]) simp_all
  show ?thesis by (rule that[OF st inv' _ _ others here']) simp_all
next
  case False
  then have "block_start i (bc, f) = Some (bc, f)" by (cases "bc_slots bc ! i") (auto simp: block_start_def)
  moreover have "progress Started k r f (bc_slots bc ! i)" if "progress Waited k r f (bc_slots bc ! i)" for k r
    using that False by (cases "bc_slots bc ! i") (auto simp: progress_def slot_rank_def)
  ultimately show ?thesis using that inv by blast
qed

text \<open>A tick panics only when the counter of completed requests is exhausted.\<close>

lemma drive_total:
  assumes inv: "block_inv D bc f" and i: "i < NUM_SLOTS" and ev: "unat (bc_event_sequence bc) + 1 < 2 ^ 64"
  obtains bc' f' where "block_drive i (bc, f) = Some (bc', f')" "unat (bc_event_sequence bc') \<le> unat (bc_event_sequence bc) + 1"
proof (cases "slot_tx (bc_slots bc ! i)")
  case None
  then have "block_drive i (bc, f) = Some (bc, f)" by (cases "bc_slots bc ! i") (simp_all add: block_drive_def)
  then show ?thesis using that by simp
next
  case (Some k)
  then obtain r d where slot: "bc_slots bc ! i = BDmaInFlight r d k" by (cases "bc_slots bc ! i") simp_all
  obtain f' where f': "drive f k = Some f'"
    using advance_total[OF slot_tx_bound[OF block_invD(5)[OF inv i] Some]] by (auto simp: drive_advance)
  have "checked_add (bc_event_sequence bc) 1 = Some (bc_event_sequence bc + 1)"
    "unat (bc_event_sequence bc + 1) = unat (bc_event_sequence bc) + 1"
    using ev by (simp_all add: checked_add_def unat_word_ariths)
  then show ?thesis using that slot f'
    by (cases "tx_is_terminal (tx_state (fab_transactions f' ! k))") (simp_all add: block_drive_def block_finish_def Let_def)
qed

text \<open>Driving leaves the slot or completes it.\<close>

lemma same_slot:
  assumes "block_inv D bc f" "i < NUM_SLOTS" "slot_ok True bc f' i"
    and "others_kept i bc f f'"
  shows "block_inv (insert i D) bc f'"
    "j < NUM_SLOTS \<Longrightarrow> j \<noteq> i \<Longrightarrow> progress st k r f (bc_slots bc ! j) \<Longrightarrow> progress st k r f' (bc_slots bc ! j)"
proof -
  note I = block_invD[OF assms(1)]
  note R = replace_slot[where bc' = bc and s = "bc_slots bc ! i" and D' = "insert i D" and f' = f', OF assms(1,2) _ _ _ _ I(4) _ _ assms(4)]
  show "block_inv (insert i D) bc f'" by (rule R(1)) (use assms(3) I(6)[OF assms(2)] in auto)
  show "progress st k r f' (bc_slots bc ! j)" if "j < NUM_SLOTS" "j \<noteq> i" "progress st k r f (bc_slots bc ! j)"
    by (rule R(2)[OF _ _ _ _ _ _ _ that]) (use assms(3) I(6)[OF assms(2)] in auto)
qed

lemma finish_slot:
  assumes inv: "block_inv D bc f" and i: "i < NUM_SLOTS" and s: "bc_slots bc ! i = BDmaInFlight r d n"
    and fin: "block_finish i r d n bc f1 = Some (bc', f')"
    and keep: "others_kept i bc f f1"
  shows "block_inv (insert i D) bc' f'" "bc_slot_generations bc' = bc_slot_generations bc"
    "j < NUM_SLOTS \<Longrightarrow> j \<noteq> i \<Longrightarrow> progress st k r' f (bc_slots bc ! j) \<Longrightarrow> progress st k r' f' (bc_slots bc' ! j)"
    "\<exists>c. bc_slots bc' ! i = BCompleted c \<and> answers c r"
proof -
  note I = block_invD[OF inv]
  obtain c e where c: "bc' = bc\<lparr>bc_slots := (bc_slots bc)[i := BCompleted c],
      bc_completion_order := bc_completion_order bc @ [i], bc_event_sequence := e\<rparr>" "f' = destroy_domain f1 d" "answers c r"
    "bco_handle c = \<lparr>rh_slot = of_nat i, rh_generation = bc_slot_generations bc ! i\<rparr>"
    using fin by (auto simp: block_finish_def Let_def answers_def split: option.split_asm)
  have ring: "ring_ok b_is_completed (bc_slots bc') (bc_completion_order bc')"
    using block_ring.ring_push[OF I(4)] I(1) i s by (simp add: c(1))
  have here: "slot_ok (i \<in> insert i D) bc' f' i" using I(1) i c by (simp add: slot_ok_def)
  note R = replace_slot[where s = "BCompleted c" and bc' = bc' and f' = f', OF inv i _ _ _ _ ring here]
  have keep': "others_kept i bc f f'" using keep by (simp add: others_kept_def c(2))
  show "block_inv (insert i D) bc' f'" by (rule R(1)) (simp_all add: c keep' flip: c(2))
  show "bc_slot_generations bc' = bc_slot_generations bc" by (simp add: c)
  show "progress st k r' f' (bc_slots bc' ! j)" if "j < NUM_SLOTS" "j \<noteq> i" "progress st k r' f (bc_slots bc ! j)"
    by (rule R(2)[OF _ _ _ _ _ _ _ that]) (simp_all add: c keep' flip: c(2))
  show "\<exists>c. bc_slots bc' ! i = BCompleted c \<and> answers c r" using c I(1) i by simp
qed

lemma drive_phase:
  assumes inv: "block_inv D bc f" and i: "i < NUM_SLOTS" and run: "block_drive i (bc, f) = Some (bc', f')"
  shows "block_inv (insert i D) bc' f' \<and> bc_slot_generations bc' = bc_slot_generations bc
    \<and> (\<forall>j st k r. j < NUM_SLOTS \<longrightarrow> j \<noteq> i \<longrightarrow> progress st k r f (bc_slots bc ! j) \<longrightarrow> progress st k r f' (bc_slots bc' ! j))
    \<and> (\<forall>k r. progress Started k r f (bc_slots bc ! i) \<longrightarrow> progress Rest (k - 1) r f' (bc_slots bc' ! i))"
proof (cases "slot_tx (bc_slots bc ! i)")
  case None
  note I = block_invD[OF inv]
  have same: "bc' = bc" "f' = f" using None run by (cases "bc_slots bc ! i"; simp add: block_drive_def)+
  have "slot_ok True bc f i" using I(5)[OF i] None by (cases "bc_slots bc ! i") (simp_all add: slot_ok_def)
  then have "block_inv (insert i D) bc f" using slot_tx_bound[OF I(5)] by (intro same_slot(1)[OF inv i]) (auto simp: others_kept_def)
  moreover have "progress Rest (k - 1) r f (bc_slots bc ! i)" if "progress Started k r f (bc_slots bc ! i)" for k r
    using that None by (cases "bc_slots bc ! i") (simp_all add: progress_def slot_rank_def)
  ultimately show ?thesis unfolding same by blast
next
  case (Some n)
  note I = block_invD[OF inv]
  obtain r d where slot: "bc_slots bc ! i = BDmaInFlight r d n" using Some by (cases "bc_slots bc ! i") simp_all
  obtain f1 where f1: "advance f n = Some f1" using run slot
    by (auto simp: block_drive_def drive_advance split: option.split_asm)
  note A = advance_tx[OF f1]
  have "k < length (fab_transactions f1) \<and> fab_transactions f1 ! k = fab_transactions f ! k"
    if "j < NUM_SLOTS" "j \<noteq> i" "slot_tx (bc_slots bc ! j) = Some k" for j k
    using slot_tx_bound[OF I(5)[OF that(1)] that(3)] I(6)[OF that(1) i that(2,3)] Some A(2)
    by (metis length_list_update nth_list_update_neq)
  then have keep: "others_kept i bc f f1" unfolding others_kept_def by blast
  show ?thesis
  proof (cases "tx_is_terminal (tx_state (fab_transactions f1 ! n))")
    case True
    then have fin: "block_finish i r d n bc f1 = Some (bc', f')" using run slot f1 by (simp add: block_drive_def drive_advance)
    note F = finish_slot[OF inv i slot fin keep]
    have "progress Rest (k - 1) r' f' (bc_slots bc' ! i)" if "progress Started k r' f (bc_slots bc ! i)" for k r'
      using that slot F(4) by (auto simp: progress_def)
    then show ?thesis using F(1-3) by blast
  next
    case False
    have same: "bc' = bc" "f' = f1" using run slot f1 False by (simp_all add: block_drive_def drive_advance)
    have "n < length (fab_transactions f1)" using A(1,2) by (metis length_list_update)
    then have here: "slot_ok True bc f1 i" using I(5)[OF i] slot A(3,4) False by (simp add: slot_ok_def pending_def)
    have "progress Rest (k - 1) r' f1 (bc_slots bc ! i)" if "progress Started k r' f (bc_slots bc ! i)" for k r'
      using that slot A(5) by (auto simp: progress_def slot_rank_def)
    then show ?thesis unfolding same using same_slot[OF inv i here keep] by blast
  qed
qed

section \<open>Operations and the invariant\<close>

lemma block_inv_all: "block_inv {1, 0} bc f \<longleftrightarrow> block_inv UNIV bc f"
proof -
  have "i \<in> {1, 0} \<longleftrightarrow> i \<in> UNIV" if "i < NUM_SLOTS" for i using that by (auto simp: NUM_SLOTS_def)
  then show ?thesis unfolding block_inv_def by (intro conj_cong refl all_cong1 imp_cong) simp_all
qed

lemma progress_0: "progress Rest 0 r f s \<Longrightarrow> slot_ok True bc f i \<Longrightarrow> bc_slots bc ! i = s \<Longrightarrow> \<exists>c. s = BCompleted c \<and> answers c r"
  by (cases s) (auto simp: progress_def slot_rank_def slot_ok_def pending_def)

lemma tick_total:
  assumes inv: "block_inv UNIV bc f" and ev: "unat (bc_event_sequence bc) + 2 < 2 ^ 64"
  obtains bc' f' where "block_tick (bc, f) = Some (bc', f')" "unat (bc_event_sequence bc') \<le> unat (bc_event_sequence bc) + 2"
proof -
  have s: "0 < NUM_SLOTS" "1 < NUM_SLOTS" by (simp_all add: NUM_SLOTS_def)
  define b0 where "b0 = bc\<lparr>bc_slots := map wait_slot (bc_slots bc)\<rparr>"
  have i0: "block_inv {} b0 f" unfolding b0_def by (rule block_inv_mono[OF wait_phase[OF inv]]) simp
  obtain b1 f1 where s1: "block_start 0 (b0, f) = Some (b1, f1)" "block_inv {} b1 f1" "bc_event_sequence b1 = bc_event_sequence b0"
    using start_phase[OF i0 s(1)] by metis
  obtain b2 f2 where s2: "block_start 1 (b1, f1) = Some (b2, f2)" "block_inv {} b2 f2" "bc_event_sequence b2 = bc_event_sequence b1"
    using start_phase[OF s1(2) s(2)] by metis
  have e: "unat (bc_event_sequence b2) + 2 < 2 ^ 64" using ev s1(3) s2(3) by (simp add: b0_def)
  obtain b3 f3 where s3: "block_drive 0 (b2, f2) = Some (b3, f3)" "unat (bc_event_sequence b3) \<le> unat (bc_event_sequence b2) + 1"
    using drive_total[OF s2(2) s(1)] e by auto
  have i3: "block_inv {0} b3 f3" using drive_phase[OF s2(2) s(1) s3(1)] by blast
  have e3: "unat (bc_event_sequence b3) + 1 < 2 ^ 64" using s3(2) e by simp
  obtain b4 f4 where s4: "block_drive 1 (b3, f3) = Some (b4, f4)" "unat (bc_event_sequence b4) \<le> unat (bc_event_sequence b3) + 1"
    using drive_total[OF i3 s(2) e3] .
  have "block_tick (bc, f) = Some (b4, f4)" using s1(1) s2(1) s3(1) s4(1) by (simp add: block_tick_def slots_list b0_def)
  moreover have "unat (bc_event_sequence b4) \<le> unat (bc_event_sequence bc) + 2"
    using s1(3) s2(3) s3(2) s4(2) by (simp add: b0_def)
  ultimately show ?thesis by (rule that)
qed

lemma tick_step:
  assumes inv: "block_inv UNIV bc f" and run: "block_tick (bc, f) = Some (bc', f')"
  shows "block_inv UNIV bc' f'" "bc_slot_generations bc' = bc_slot_generations bc"
    "i < NUM_SLOTS \<Longrightarrow> progress Rest k r f (bc_slots bc ! i) \<Longrightarrow> progress Rest (k - 1) r f' (bc_slots bc' ! i)"
proof -
  have s: "0 < NUM_SLOTS" "1 < NUM_SLOTS" by (simp_all add: NUM_SLOTS_def)
  define b0 where "b0 = bc\<lparr>bc_slots := map wait_slot (bc_slots bc)\<rparr>"
  have i0: "block_inv {} b0 f" unfolding b0_def by (rule block_inv_mono[OF wait_phase[OF inv]]) simp
  obtain b1 f1 where s1: "block_start 0 (b0, f) = Some (b1, f1)" "block_inv {} b1 f1" "bc_slot_generations b1 = bc_slot_generations b0"
    "\<And>j st k r. j < NUM_SLOTS \<Longrightarrow> j \<noteq> 0 \<Longrightarrow> progress st k r f (bc_slots b0 ! j) \<Longrightarrow> progress st k r f1 (bc_slots b1 ! j)"
    "\<And>k r. progress Waited k r f (bc_slots b0 ! 0) \<Longrightarrow> progress Started k r f1 (bc_slots b1 ! 0)"
    using start_phase[OF i0 s(1)] by metis
  obtain b2 f2 where s2: "block_start 1 (b1, f1) = Some (b2, f2)" "block_inv {} b2 f2" "bc_slot_generations b2 = bc_slot_generations b1"
    "\<And>j st k r. j < NUM_SLOTS \<Longrightarrow> j \<noteq> 1 \<Longrightarrow> progress st k r f1 (bc_slots b1 ! j) \<Longrightarrow> progress st k r f2 (bc_slots b2 ! j)"
    "\<And>k r. progress Waited k r f1 (bc_slots b1 ! 1) \<Longrightarrow> progress Started k r f2 (bc_slots b2 ! 1)"
    using start_phase[OF s1(2) s(2)] by metis
  obtain b3 f3 where s3: "block_drive 0 (b2, f2) = Some (b3, f3)" and s4: "block_drive 1 (b3, f3) = Some (bc', f')"
    using run s1(1) s2(1) by (auto simp: block_tick_def slots_list b0_def split: option.split_asm)
  note d3 = drive_phase[OF s2(2) s(1) s3]
  note d4 = drive_phase[OF conjunct1[OF d3] s(2) s4]
  show "block_inv UNIV bc' f'" using d4 block_inv_all by blast
  show "bc_slot_generations bc' = bc_slot_generations bc" using d3 d4 s1(3) s2(3) by (simp add: b0_def)
  assume i: "i < NUM_SLOTS" and p: "progress Rest k r f (bc_slots bc ! i)"
  have "n \<noteq> 0" if "bc_slots bc ! i = BWaiting r n d" for r n d
    using block_invD(5)[OF inv i] that by (simp add: slot_ok_def)
  then have "progress Waited k r f (bc_slots b0 ! i)"
    using progress_wait[OF p] block_invD(1)[OF inv] i by (simp add: b0_def)
  moreover consider "i = 0" | "i = 1" using i by (fastforce simp: NUM_SLOTS_def)
  ultimately show "progress Rest (k - 1) r f' (bc_slots bc' ! i)"
    using s s1(4,5) s2(4,5) d3 d4 by cases (metis zero_neq_one)+
qed

lemma delegate_transactions:
  "fab_transactions (snd (block_delegate r n f)) = fab_transactions f"
  by (simp add: block_delegate_def delegate_span_transactions split: option.split)

text \<open>The rest of the machine works on the fabric.\<close>

lemma machine_step:
  assumes inv: "block_inv UNIV bc f" and k: "keeps_txs (own_txs bc) f f'"
  shows "block_inv UNIV bc f'"
    "j < NUM_SLOTS \<Longrightarrow> progress st n r f (bc_slots bc ! j) \<Longrightarrow> progress st n r f' (bc_slots bc ! j)"
proof -
  note I = block_invD[OF inv]
  have tx: "pending f' m \<and> fab_transactions f' ! m = fab_transactions f ! m"
    if "j < NUM_SLOTS" "slot_tx (bc_slots bc ! j) = Some m" for j m
  proof -
    have "pending f m" using I(5)[OF that(1)] that(2) by (cases "bc_slots bc ! j") (simp_all add: slot_ok_def)
    moreover have "m \<in> own_txs bc" using that I(1) by (auto simp: own_txs_def)
    ultimately show ?thesis using keeps_txsD[OF k] by blast
  qed
  have "slot_ok True bc f' j" if j: "j < NUM_SLOTS" for j
  proof (rule slot_ok_frame)
    show "slot_ok True bc f j" using I(5)[OF j] by simp
    show "m < length (fab_transactions f') \<and> fab_transactions f' ! m = fab_transactions f ! m"
      if "slot_tx (bc_slots bc ! j) = Some m" for m using tx[OF j that] by (simp add: pending_def)
  qed simp_all
  then show "block_inv UNIV bc f'" using inv by (simp add: block_inv_def)
  show "progress st n r f' (bc_slots bc ! j)" if "j < NUM_SLOTS" "progress st n r f (bc_slots bc ! j)"
    using that(2) tx[OF that(1)] by (blast intro: progress_frame)
qed

lemma submit_accepted:
  assumes "block_submit bc r f = (Accepted h, bc', f')"
  obtains i d where "position b_is_free (bc_slots bc) = Some i" "br_block_number r < st_num_blocks (bc_storage bc)"
    "block_delegate r (st_block_size (bc_storage bc)) f = (Some d, f')"
    "h = \<lparr>rh_slot = of_nat i, rh_generation = bc_slot_generations bc ! i\<rparr>"
    "bc' = bc\<lparr>bc_slots := (bc_slots bc)[i := BWaiting r (max (bc_latency bc) 1) d]\<rparr>"
  using assms by (auto simp: block_submit_def split: if_split_asm option.split_asm prod.split_asm)

lemma submit_rejected:
  assumes "block_submit bc r f = (res, bc', f')" "\<And>h. res \<noteq> Accepted h"
  shows "bc' = bc" "fab_transactions f' = fab_transactions f"
  using assms delegate_transactions[of r "st_block_size (bc_storage bc)" f]
  by (auto simp: block_submit_def split: if_split_asm option.split_asm prod.split_asm)

lemma accepted_slot:
  assumes inv: "block_inv UNIV bc f" and sub: "block_submit bc r f = (Accepted h, bc', f')"
  obtains i where "i < NUM_SLOTS" "h = \<lparr>rh_slot = of_nat i, rh_generation = bc_slot_generations bc ! i\<rparr>"
    "block_inv UNIV bc' f'" "bc_slot_generations bc' = bc_slot_generations bc"
    "progress Rest (unat (max (bc_latency bc) 1) + 2) r f' (bc_slots bc' ! i)"
    "\<And>j k q. j < NUM_SLOTS \<Longrightarrow> progress Rest k q f (bc_slots bc ! j) \<Longrightarrow> progress Rest k q f' (bc_slots bc' ! j)"
proof -
  obtain i d where S: "position b_is_free (bc_slots bc) = Some i" "br_block_number r < st_num_blocks (bc_storage bc)"
    "block_delegate r (st_block_size (bc_storage bc)) f = (Some d, f')"
    "h = \<lparr>rh_slot = of_nat i, rh_generation = bc_slot_generations bc ! i\<rparr>"
    "bc' = bc\<lparr>bc_slots := (bc_slots bc)[i := BWaiting r (max (bc_latency bc) 1) d]\<rparr>"
    using submit_accepted[OF sub] .
  have "fab_transactions f' = fab_transactions f" using delegate_transactions[of r "st_block_size (bc_storage bc)" f] S(3) by simp
  then have keep: "keeps_txs (own_txs bc) f f'" by (rule keeps_same)
  note M = machine_step[OF inv keep]
  note I = block_invD[OF M(1)]
  have i: "i < NUM_SLOTS" "b_is_free (bc_slots bc ! i)" using position_SomeD[OF S(1)] I(1) by auto
  then have free: "bc_slots bc ! i = BFree" by (cases "bc_slots bc ! i") simp_all
  have n: "max (bc_latency bc) 1 \<noteq> 0" by (auto simp: max_def)
  have ring: "ring_ok b_is_completed (bc_slots bc') (bc_completion_order bc')"
    using block_ring.ring_keep[OF I(4)] I(1) i(1) free by (simp add: S(5))
  have here: "slot_ok (i \<in> UNIV) bc' f' i" using I(1) i(1) n S(2) by (simp add: S(5) slot_ok_def)
  have ok: "others_kept i bc f' f'" using slot_tx_bound[OF I(5)] by (auto simp: others_kept_def)
  note R = replace_slot[where bc' = bc' and s = "BWaiting r (max (bc_latency bc) 1) d" and f' = f', OF M(1) i(1) _ _ _ _ ring here _ ok]
  have inv': "block_inv UNIV bc' f'" by (rule R(1)) (simp_all add: S(5))
  have p1: "progress Rest k q f' (bc_slots bc' ! j)" if "j < NUM_SLOTS" "progress Rest k q f (bc_slots bc ! j)" for j k q
  proof -
    have "j \<noteq> i" using that(2) free by (auto simp: progress_def)
    then show ?thesis using R(2)[OF _ _ _ _ _ _ that(1) _ M(2)[OF that]] by (simp add: S(5))
  qed
  have p2: "progress Rest (unat (max (bc_latency bc) 1) + 2) r f' (bc_slots bc' ! i)"
    using I(1) i(1) by (simp add: S(5) progress_def slot_rank_def)
  show ?thesis by (rule that[OF i(1) S(4) inv' _ p2 p1]) (simp_all add: S(5))
qed

lemma consume_step:
  assumes inv: "block_inv UNIV bc f"
  obtains c bc' where "consume_completion bc = Some (c, bc')" "block_inv UNIV bc' f"
proof (cases "bc_completion_order bc")
  case Nil
  then show ?thesis using that inv by (simp add: consume_completion_def)
next
  case (Cons i order)
  note I = block_invD[OF inv]
  have h: "i < length (bc_slots bc)" "b_is_completed (bc_slots bc ! i)" using block_ring.ring_head I(4) Cons by metis+
  then obtain c where c: "bc_slots bc ! i = BCompleted c" by (cases "bc_slots bc ! i") simp_all
  let ?bc = "bc\<lparr>bc_slots := (bc_slots bc)[i := BFree], bc_completion_order := order,
     bc_slot_generations := (bc_slot_generations bc)[i := bc_slot_generations bc ! i + 1]\<rparr>"
  have r: "consume_completion bc = Some (Some c, ?bc)" using Cons h c by (simp add: consume_completion_def)
  have ring: "ring_ok b_is_completed ((bc_slots bc)[i := BFree]) order" using block_ring.ring_pop I(4) Cons by metis
  have "slot_ok True ?bc f j" if "j < NUM_SLOTS" for j
  proof (cases "j = i")
    case True
    then show ?thesis using h(1) by (simp add: slot_ok_def)
  next
    case False
    have ok: "slot_ok True bc f j" using I(5)[OF that] by simp
    show ?thesis by (rule slot_ok_frame[OF ok]) (use False in simp_all)
  qed
  moreover have "slot_tx (bc_slots ?bc ! n) \<noteq> Some k"
    if "m < NUM_SLOTS" "n < NUM_SLOTS" "m \<noteq> n" "slot_tx (bc_slots ?bc ! m) = Some k" for m n k
    using I(6)[OF that(1-3)] that(4) h(1) by (auto simp: nth_list_update split: if_split_asm)
  ultimately have "block_inv UNIV ?bc f" using I(1-3) ring unfolding block_inv_def by auto
  then show ?thesis using that[OF r] by simp
qed

section \<open>The device in its machine\<close>

inductive block_step :: "block_controller \<times> fabric \<Rightarrow> block_controller \<times> fabric \<Rightarrow> bool" where
  step_submit: "block_submit bc r f = (res, bc', f') \<Longrightarrow> block_step (bc, f) (bc', f')"
| step_tick: "block_tick (bc, f) = Some (bc', f') \<Longrightarrow> block_step (bc, f) (bc', f')"
| step_consume: "consume_completion bc = Some (c, bc') \<Longrightarrow> block_step (bc, f) (bc', f)"
| step_machine: "keeps_txs (own_txs bc) f f' \<Longrightarrow> block_step (bc, f) (bc, f')"

definition block_init :: "block_controller \<times> fabric \<Rightarrow> bool" where
  "block_init s \<longleftrightarrow> (\<exists>storage latency agent f. storage_ok storage \<and> s = (block_new storage latency agent, f))"

lemma block_inv_init: "storage_ok storage \<Longrightarrow> block_inv UNIV (block_new storage latency agent) f"
  using block_ring.ring_new[of NUM_SLOTS] by (simp add: block_inv_def block_new_def slot_ok_def)

lemma submit_step:
  assumes "block_inv UNIV bc f" "block_submit bc r f = (res, bc', f')"
  shows "block_inv UNIV bc' f' \<and> bc_slot_generations bc' = bc_slot_generations bc
    \<and> (\<forall>j k q. j < NUM_SLOTS \<longrightarrow> progress Rest k q f (bc_slots bc ! j) \<longrightarrow> progress Rest k q f' (bc_slots bc' ! j))"
proof (cases "\<exists>h. res = Accepted h")
  case True
  then obtain h where "block_submit bc r f = (Accepted h, bc', f')" using assms(2) by blast
  from accepted_slot[OF assms(1) this] show ?thesis by metis
next
  case False
  have same: "bc' = bc" "keeps_txs (own_txs bc) f f'" using submit_rejected[OF assms(2)] False by (auto intro: keeps_same)
  show ?thesis unfolding same(1) using machine_step[OF assms(1) same(2)] by blast
qed

interpretation block_sys: step_system block_init block_step "\<lambda>(bc, f). block_inv UNIV bc f"
proof unfold_locales
  show "case s of (bc, f) \<Rightarrow> block_inv UNIV bc f" if "block_init s" for s
    using that by (auto simp: block_init_def block_inv_init)
  show "case t of (bc, f) \<Rightarrow> block_inv UNIV bc f" if "block_step s t" "case s of (bc, f) \<Rightarrow> block_inv UNIV bc f" for s t
    using that
  proof (induction rule: block_step.induct)
    case (step_submit bc r f res bc' f')
    then show ?case using submit_step by simp
  next
    case (step_tick bc f bc' f')
    then show ?case using tick_step(1) by simp
  next
    case (step_consume bc c bc' f)
    then show ?case using consume_step by (metis case_prod_conv option.inject prod.inject)
  next
    case (step_machine bc f f')
    then show ?case using machine_step(1) by simp
  qed
qed

definition block_reachable :: "block_controller \<Rightarrow> fabric \<Rightarrow> bool" where
  "block_reachable bc f \<longleftrightarrow> reachable block_init block_step (bc, f)"

lemma block_reachable_inv: "block_reachable bc f \<Longrightarrow> block_inv UNIV bc f"
  using block_sys.invariant_reachable unfolding block_reachable_def by fastforce

text \<open>\<open>n\<close> ticks, with submissions and the rest of the machine in between.\<close>

inductive block_run :: "block_controller \<times> fabric \<Rightarrow> nat \<Rightarrow> block_controller \<times> fabric \<Rightarrow> bool" for s where
  run_refl: "block_run s 0 s"
| run_tick: "block_run s n (bc, f) \<Longrightarrow> block_tick (bc, f) = Some (bc', f') \<Longrightarrow> block_run s (Suc n) (bc', f')"
| run_submit: "block_run s n (bc, f) \<Longrightarrow> block_submit bc r f = (res, bc', f') \<Longrightarrow> block_run s n (bc', f')"
| run_machine: "block_run s n (bc, f) \<Longrightarrow> keeps_txs (own_txs bc) f f' \<Longrightarrow> block_run s n (bc, f')"

lemma run_progress:
  assumes "block_run (bc, f) n t" "block_inv UNIV bc f" "i < NUM_SLOTS" "progress Rest (n + k) r f (bc_slots bc ! i)"
  shows "block_inv UNIV (fst t) (snd t) \<and> bc_slot_generations (fst t) = bc_slot_generations bc
    \<and> progress Rest k r (snd t) (bc_slots (fst t) ! i)"
  using assms
proof (induction arbitrary: k rule: block_run.induct)
  case run_refl
  then show ?case by simp
next
  case (run_tick n bc1 f1 bc' f')
  then have "block_inv UNIV bc1 f1" "bc_slot_generations bc1 = bc_slot_generations bc" "progress Rest (Suc k) r f1 (bc_slots bc1 ! i)"
    using run_tick.IH[of "Suc k"] by simp_all
  then show ?case using tick_step[OF _ run_tick.hyps(2)] run_tick.prems(2) by fastforce
next
  case (run_submit n bc1 f1 q res bc' f')
  then show ?case using submit_step[OF _ run_submit.hyps(2)] by fastforce
next
  case (run_machine n bc1 f1 f')
  then show ?case using machine_step[OF _ run_machine.hyps(2)] by fastforce
qed

section \<open>A single request\<close>

fun block_ticks :: "nat \<Rightarrow> block_controller \<times> fabric \<Rightarrow> (block_controller \<times> fabric) option" where
  "block_ticks 0 s = Some s"
| "block_ticks (Suc n) s = (case block_tick s of None \<Rightarrow> None | Some s' \<Rightarrow> block_ticks n s')"

definition alone :: "nat \<Rightarrow> block_controller \<Rightarrow> bool" where
  "alone i bc \<longleftrightarrow> i < NUM_SLOTS \<and> length (bc_slots bc) = NUM_SLOTS
     \<and> (\<forall>j < NUM_SLOTS. j \<noteq> i \<longrightarrow> slot_request (bc_slots bc ! j) = None)"

definition put_slot :: "block_controller \<Rightarrow> nat \<Rightarrow> block_slot \<Rightarrow> block_controller" where
  "put_slot bc i s = bc\<lparr>bc_slots := (bc_slots bc)[i := s]\<rparr>"

lemma put_slot_sel [simp]:
  "bc_storage (put_slot bc i s) = bc_storage bc" "bc_storage_agent (put_slot bc i s) = bc_storage_agent bc"
  "bc_slot_generations (put_slot bc i s) = bc_slot_generations bc" "bc_event_sequence (put_slot bc i s) = bc_event_sequence bc"
  "bc_completion_order (put_slot bc i s) = bc_completion_order bc" "put_slot (put_slot bc i s) i s' = put_slot bc i s'"
  by (simp_all add: put_slot_def)

lemma alone_put [simp]: "alone i (put_slot bc i s) = alone i bc"
  by (simp add: alone_def put_slot_def)

lemma alone_slot [simp]: "alone i bc \<Longrightarrow> bc_slots (put_slot bc i s) ! i = s"
  by (simp add: alone_def put_slot_def)

lemma inert_slot:
  assumes "slot_request (bc_slots bc ! j) = None"
  shows "wait_slot (bc_slots bc ! j) = bc_slots bc ! j" "block_start j (bc, f) = Some (bc, f)" "block_drive j (bc, f) = Some (bc, f)"
  using assms by (cases "bc_slots bc ! j"; simp add: wait_slot_def block_start_def block_drive_def)+

lemma alone_start: "alone i bc \<Longrightarrow> block_start i (bc, f) = Some (bc', f') \<Longrightarrow> alone i bc'"
  by (auto simp: block_start_def alone_def split: block_slot.split_asm option.split_asm prod.split_asm)

lemma alone_drive: "alone i bc \<Longrightarrow> block_drive i (bc, f) = Some (bc', f') \<Longrightarrow> alone i bc'"
  by (auto simp: block_drive_def block_finish_def alone_def Let_def
      split: block_slot.split_asm option.split_asm if_split_asm)

lemma tick_alone:
  assumes "alone i bc"
  shows "block_tick (bc, f) =
    (case block_start i (put_slot bc i (wait_slot (bc_slots bc ! i)), f) of
       None \<Rightarrow> None | Some s' \<Rightarrow> block_drive i s')"
proof -
  have m: "bc\<lparr>bc_slots := map wait_slot (bc_slots bc)\<rparr> = put_slot bc i (wait_slot (bc_slots bc ! i))"
    using assms inert_slot(1)[of bc]
    by (intro block_controller.equality) (auto simp: put_slot_def alone_def nth_list_update intro!: nth_equalityI)
  define bc0 where "bc0 = put_slot bc i (wait_slot (bc_slots bc ! i))"
  have a0: "alone i bc0" using assms by (simp add: bc0_def)
  have N: "0 < NUM_SLOTS" "1 < NUM_SLOTS" by (simp_all add: NUM_SLOTS_def)
  obtain j where j: "j < NUM_SLOTS" "j \<noteq> i" "[0..<NUM_SLOTS] = [i, j] \<or> [0..<NUM_SLOTS] = [j, i]"
  proof (cases "i = 0")
    case True
    then show ?thesis using that[of 1] N by (simp add: slots_list)
  next
    case False
    then have "i = 1" using assms by (simp add: alone_def NUM_SLOTS_def)
    then show ?thesis using that[of 0] N by (simp add: slots_list)
  qed
  have idle: "block_start j (b, g) = Some (b, g)" "block_drive j (b, g) = Some (b, g)" if "alone i b" for b g
    using that j(1,2) inert_slot(2,3) by (auto simp: alone_def)
  have st: "for_slots block_start [0..<NUM_SLOTS] (bc0, f) = block_start i (bc0, f)"
    using j(3) idle(1)[OF a0] idle(1)[OF alone_start[OF a0]] by (auto split: option.split)
  have dr: "for_slots block_drive [0..<NUM_SLOTS] (b, g) = block_drive i (b, g)" if "alone i b" for b g
    using j(3) idle(2)[OF that] idle(2)[OF alone_drive[OF that]] by (auto split: option.split)
  have "block_tick (bc, f) = (case for_slots block_start [0..<NUM_SLOTS] (bc0, f) of
      None \<Rightarrow> None | Some s' \<Rightarrow> for_slots block_drive [0..<NUM_SLOTS] s')"
    using m by (simp add: block_tick_def bc0_def)
  then show ?thesis unfolding st using dr[OF alone_start[OF a0]] by (auto simp: bc0_def[symmetric] split: option.split)
qed

lemma ticks_add:
  "block_ticks (m + n) s = (case block_ticks m s of None \<Rightarrow> None | Some s' \<Rightarrow> block_ticks n s')"
  by (induction m arbitrary: s) (auto split: option.split)

lemma waiting_tick:
  assumes "alone i bc" "bc_slots bc ! i = BWaiting r n d" "n - 1 \<noteq> 0"
  shows "block_tick (bc, f) = Some (put_slot bc i (BWaiting r (n - 1) d), f)"
  using assms by (simp add: tick_alone wait_slot_def block_start_def block_drive_def)

lemma waiting_ticks:
  assumes "alone i bc" "bc_slots bc ! i = BWaiting r n d" "unat n = Suc m"
  shows "block_ticks m (bc, f) = Some (put_slot bc i (BWaiting r 1 d), f)"
  using assms
proof (induction m arbitrary: bc n)
  case 0
  then have "n = 1" by (simp add: word_unat_eq_iff)
  moreover have "put_slot bc i (bc_slots bc ! i) = bc" by (simp add: put_slot_def)
  ultimately show ?case using 0(2) by simp
next
  case (Suc m)
  have "n \<noteq> 0" using Suc.prems(3) by (auto simp: unat_eq_0)
  then have m: "unat (n - 1) = Suc m" using Suc.prems(3) by (simp add: unat_minus_one)
  then have nz: "n - 1 \<noteq> 0" by (metis Suc_neq_Zero unat_0)
  show ?case using Suc.IH[of "put_slot bc i (BWaiting r (n - 1) d)" "n - 1"] Suc.prems(1) m waiting_tick[OF Suc.prems(1,2) nz]
    by simp
qed

text \<open>The request a slot sends to the fabric.\<close>

definition slot_dma :: "block_controller \<Rightarrow> block_request \<Rightarrow> domain_id \<Rightarrow> memory_request" where
  "slot_dma bc r d = dma_request (bc_storage_agent bc) d (br_target_object r) (br_target_offset r) (st_block_size (bc_storage bc)) Write"

lemma start_ready:
  assumes "bc_slots bc ! i = BDmaReady r d" "storage_ok (bc_storage bc)" "br_block_number r < st_num_blocks (bc_storage bc)"
  shows "block_start i (bc, f) = Some (put_slot bc i (BDmaInFlight r d (length (fab_transactions f))),
    snd (submit f (slot_dma bc r d) (Some (block_bytes (bc_storage bc) (br_block_number r)))))"
  using assms(1) read_block_ok[OF assms(2,3)] by (simp add: block_start_def case_prod_unfold slot_dma_def put_slot_def)

lemma last_waiting_tick:
  assumes "alone i bc" "bc_slots bc ! i = BWaiting r 1 d" "storage_ok (bc_storage bc)" "br_block_number r < st_num_blocks (bc_storage bc)"
  shows "block_tick (bc, f) = block_drive i (put_slot bc i (BDmaInFlight r d (length (fab_transactions f))),
    snd (submit f (slot_dma bc r d) (Some (block_bytes (bc_storage bc) (br_block_number r)))))"
  using assms start_ready[of "put_slot bc i (BDmaReady r d)" i r d f]
  by (simp add: tick_alone wait_slot_def slot_dma_def)

lemma flight_tick:
  assumes "alone i bc" "bc_slots bc ! i = BDmaInFlight r d n"
  shows "block_tick (bc, f) = block_drive i (bc, f)"
proof -
  have "put_slot bc i (bc_slots bc ! i) = bc" by (simp add: put_slot_def)
  then show ?thesis using assms by (simp add: tick_alone wait_slot_def block_start_def)
qed

lemma inert_ticks:
  assumes "alone i bc" "slot_request (bc_slots bc ! i) = None"
  shows "block_ticks m (bc, f) = Some (bc, f)"
proof -
  have "put_slot bc i (bc_slots bc ! i) = bc" by (simp add: put_slot_def)
  then have "block_tick (bc, f) = Some (bc, f)" using assms inert_slot[OF assms(2)] by (simp add: tick_alone)
  then show ?thesis by (induction m) simp_all
qed

text \<open>Three phases take three ticks, or fewer when the transaction faults early.\<close>

lemma drive_flight:
  assumes "alone i bc" "bc_slots bc ! i = BDmaInFlight r d n" "advance f n = Some g"
  shows "block_drive i (bc, f) = (if tx_is_terminal (tx_state (fab_transactions g ! n)) then block_finish i r d n bc g else Some (bc, g))"
  using assms by (simp add: block_drive_def drive_advance)

lemma finish_inert:
  assumes "alone i bc" "block_finish i r d n bc g = Some (bc', f')"
  shows "alone i bc'" "slot_request (bc_slots bc' ! i) = None"
  using assms by (auto simp: block_finish_def alone_def Let_def split: option.split_asm)

lemma three_drives:
  assumes a: "alone i bc" "bc_slots bc ! i = BDmaInFlight r d n"
    and adv: "advance f n = Some g1" "advance g1 n = Some g2" "advance g2 n = Some g3"
    and tm: "tx_is_terminal (tx_state (fab_transactions g3 ! n))" and fin: "block_finish i r d n bc g3 = Some s"
  shows "(case block_drive i (bc, f) of None \<Rightarrow> None | Some s' \<Rightarrow> block_ticks 2 s') = Some s"
proof -
  obtain bc' f' where s: "s = (bc', f')" by fastforce
  have stay: "block_ticks m s = Some s" for m using finish_inert[OF a(1) fin[unfolded s]] inert_ticks s by simp
  have len: "n < length (fab_transactions g1)" "n < length (fab_transactions g2)" using adv(2,3) advance_tx(1) by blast+
  note dr = drive_flight[OF a]
  note tk = flight_tick[OF a]
  show ?thesis
  proof (cases "tx_is_terminal (tx_state (fab_transactions g1 ! n))")
    case True
    then have "g2 = g1" "g3 = g1" using advance_terminal[OF len(1) True] adv(2,3) by simp_all
    then show ?thesis using dr[OF adv(1)] True fin stay by simp
  next
    case F1: False
    then have d1: "block_drive i (bc, f) = Some (bc, g1)" using dr[OF adv(1)] by simp
    show ?thesis
    proof (cases "tx_is_terminal (tx_state (fab_transactions g2 ! n))")
      case True
      then have "g3 = g2" using advance_terminal[OF len(2) True] adv(3) by simp
      then show ?thesis using d1 tk dr[OF adv(2)] True fin stay[of 1] by (simp add: numeral_2_eq_2)
    next
      case False
      then show ?thesis using d1 tk dr[OF adv(2)] dr[OF adv(3)] tm fin by (simp add: numeral_2_eq_2)
    qed
  qed
qed

text \<open>What the fabric makes of the request, in one step.\<close>

lemma finish_status:
  assumes "finish_effect f r data g" "req_kind r = Write"
  shows "tx_is_terminal (tx_state (fab_transactions g ! length (fab_transactions f)))"
    "dma_status g (length (fab_transactions f)) = (case one_shot f r data of Inl reason \<Rightarrow> DmaFault reason | Inr _ \<Rightarrow> Success)"
    "fab_memory g = (case one_shot f r data of Inl _ \<Rightarrow> fab_memory f | Inr (base, end) \<Rightarrow> copy_at base (the data) (fab_memory f))"
  using assms by (auto simp: finish_effect_def fault_effect_def commit_effect_def dma_status_def nth_append split: sum.splits)

lemma single_request:
  assumes al: "alone i bc" "bc_slots bc ! i = BWaiting r n d" "n \<noteq> 0" and st: "storage_ok (bc_storage bc)"
    and b: "br_block_number r < st_num_blocks (bc_storage bc)" and ev: "unat (bc_event_sequence bc) + 1 < 2 ^ 64"
  obtains g bc' where "block_ticks (unat n + 2) (bc, f) = Some (bc', destroy_domain g d)" "alone i bc'"
    "bc_slots bc' ! i = BCompleted \<lparr>bco_handle = \<lparr>rh_slot = of_nat i, rh_generation = bc_slot_generations bc ! i\<rparr>,
       bco_requester = br_requester r, bco_block_number = br_block_number r,
       bco_status = dma_status g (length (fab_transactions f)), bco_delegation_id = br_delegation_id r\<rparr>"
    "finish_effect f (slot_dma bc r d) (Some (block_bytes (bc_storage bc) (br_block_number r))) g"
proof -
  define data where "data = block_bytes (bc_storage bc) (br_block_number r)"
  define idx where "idx = length (fab_transactions f)"
  define f0 where "f0 = snd (submit f (slot_dma bc r d) (Some data))"
  let ?fly = "put_slot bc i (BDmaInFlight r d idx)"
  obtain m where m: "unat n = Suc m" using al(3) by (metis not0_implies_Suc unat_eq_0)
  obtain g3 where g3: "advance3 f0 idx = Some g3" "finish_effect f (slot_dma bc r d) (Some data) g3"
    using three_phases[of f "slot_dma bc r d" "Some data"] by (auto simp: f0_def idx_def)
  then obtain g1 g2 where g: "advance f0 idx = Some g1" "advance g1 idx = Some g2" "advance g2 idx = Some g3"
    by (auto simp: advance3_def split: option.split_asm)
  have tm: "tx_is_terminal (tx_state (fab_transactions g3 ! idx))"
    using finish_status(1)[OF g3(2)] by (simp add: idx_def slot_dma_def dma_request_def)
  have fly: "alone i ?fly" "bc_slots ?fly ! i = BDmaInFlight r d idx" using al(1) by simp_all
  obtain bc' where bc': "block_finish i r d idx ?fly g3 = Some (bc', destroy_domain g3 d)"
    "bc_slots bc' ! i = BCompleted \<lparr>bco_handle = \<lparr>rh_slot = of_nat i, rh_generation = bc_slot_generations bc ! i\<rparr>,
       bco_requester = br_requester r, bco_block_number = br_block_number r,
       bco_status = dma_status g3 idx, bco_delegation_id = br_delegation_id r\<rparr>"
    using ev al(1) by (auto simp: block_finish_def Let_def checked_add_def alone_def put_slot_def)
  have w: "block_ticks m (bc, f) = Some (put_slot bc i (BWaiting r 1 d), f)" using waiting_ticks[OF al(1,2) m] .
  have "block_tick (put_slot bc i (BWaiting r 1 d), f) = block_drive i (?fly, f0)"
    using last_waiting_tick[of i "put_slot bc i (BWaiting r 1 d)" r d f] al(1) st b
    by (simp add: f0_def idx_def data_def slot_dma_def)
  then have "block_ticks (Suc 2) (put_slot bc i (BWaiting r 1 d), f) = Some (bc', destroy_domain g3 d)"
    using three_drives[OF fly g tm bc'(1)] by (simp only: block_ticks.simps)
  then have "block_ticks (m + Suc 2) (bc, f) = Some (bc', destroy_domain g3 d)" unfolding ticks_add w option.case .
  moreover have "m + Suc 2 = unat n + 2" using m by simp
  ultimately have t: "block_ticks (unat n + 2) (bc, f) = Some (bc', destroy_domain g3 d)" by argo
  show ?thesis using that[OF t finish_inert(1)[OF fly(1) bc'(1)]] bc'(2) g3(2) by (simp add: idx_def data_def)
qed

lemma ticks_total:
  assumes "block_inv UNIV bc f" "unat (bc_event_sequence bc) + 2 * n < 2 ^ 64"
  shows "\<exists>t. block_ticks n (bc, f) = Some t"
  using assms
proof (induction n arbitrary: bc f)
  case (Suc n)
  have "unat (bc_event_sequence bc) + 2 < 2 ^ 64" using Suc.prems(2) by simp
  then obtain bc' f' where t: "block_tick (bc, f) = Some (bc', f')" "unat (bc_event_sequence bc') \<le> unat (bc_event_sequence bc) + 2"
    using tick_total[OF Suc.prems(1)] by metis
  show ?case using Suc.IH[OF tick_step(1)[OF Suc.prems(1) t(1)]] t Suc.prems(2) by simp
qed simp

lemma ticks_run: "block_ticks n s = Some t \<Longrightarrow> block_run s n t"
proof (induction n arbitrary: t)
  case 0
  then show ?case by (simp add: run_refl)
next
  case (Suc n)
  obtain t' where "block_ticks n s = Some t'" "block_tick t' = Some t"
    using ticks_add[of n 1 s] Suc.prems by (auto split: option.split_asm)
  then show ?case using Suc.IH run_tick by (metis surj_pair)
qed

section \<open>A worked device\<close>

definition demo_block :: block_controller where
  "demo_block = block_new \<lparr>st_data = [9], st_block_size = 1, st_num_blocks = 1\<rparr> 0 (AgentId 7)"

definition demo_read :: block_request where
  "demo_read = \<lparr>br_block_number = 0, br_requester = \<lparr>rk_slot = 3, rk_generation = 1\<rparr>, br_target_object = ObjectId 0,
     br_target_offset = 1, br_source_domain = DomainId 0, br_source_authority_id = None, br_delegation_id = None\<rparr>"

lemma demo_block_reachable: "block_reachable demo_block f"
  unfolding block_reachable_def
  by (rule reach_init) (force simp: block_init_def demo_block_def storage_ok_def
      intro: exI[of _ "\<lparr>st_data = [9], st_block_size = 1, st_num_blocks = 1\<rparr>"])

lemmas block_eval = demo_block_def demo_read_def block_submit_def block_new_def block_delegate_def replicate_slots
  delegate_dma_span_def find_authorizing_cap_def delegate_into_fresh_domain_def create_domain_def derive_def
  push_capability_def stack_owner_differs_def perm_is_subset_of_def btm_contains_def exec_eval Let_def

lemma demo_submit:
  "\<exists>bc1 f1. block_submit demo_block demo_read demo_fabric = (Accepted \<lparr>rh_slot = 0, rh_generation = 0\<rparr>, bc1, f1)"
  by (simp add: block_eval)

lemma demo_delegate:
  "fst (block_delegate demo_read 1 demo_fabric) = Some (DomainId 1)"
  "one_shot (snd (block_delegate demo_read 1 demo_fabric)) (slot_dma demo_block demo_read (DomainId 1)) (Some [9]) = Inr (2, 3)"
  "fab_memory (snd (block_delegate demo_read 1 demo_fabric)) = [0, 0, 0, 0]"
  by (simp_all add: block_eval slot_dma_def dma_request_def)

section \<open>Claims\<close>

text \<open>
  C22: on every reachable controller the slots are conserved and the completion queue names each
  completed slot once; consuming never panics, and a tick panics only when the counter of
  completed requests has reached its end.
\<close>

theorem block_conservation:
  assumes "block_reachable bc f"
  shows "conservation_ok bc \<and> consume_completion bc \<noteq> None
    \<and> (unat (bc_event_sequence bc) + 2 < 2 ^ 64 \<longrightarrow> block_tick (bc, f) \<noteq> None)"
proof -
  note inv = block_reachable_inv[OF assms]
  note I = block_invD[OF inv]
  have "length (filter b_is_free xs) + length (filter b_is_waiting xs) + length (filter b_is_odma xs)
      + length (filter b_is_completed xs) = length xs" for xs
  proof (induction xs)
    case (Cons x xs)
    then show ?case by (cases x) simp_all
  qed simp
  then have "conservation_ok bc" using I(1,4) block_ring.ring_count[OF I(4)]
    by (auto simp: conservation_ok_def free_slot_count_def completion_count_def ring_ok_def list_all_iff)
  moreover have "consume_completion bc \<noteq> None" using consume_step[OF inv] by (metis option.distinct(1))
  moreover have "block_tick (bc, f) \<noteq> None" if "unat (bc_event_sequence bc) + 2 < 2 ^ 64"
    using tick_total[OF inv that] by (metis option.distinct(1))
  ultimately show ?thesis by blast
qed

theorem block_conservation_witness:
  "conservation_ok demo_block \<and> block_tick (demo_block, demo_fabric) \<noteq> None"
  using block_conservation[OF demo_block_reachable, of demo_fabric] by (simp add: demo_block_def block_new_def)

text \<open>
  C21: every accepted request completes, under its own handle, within its latency plus two ticks,
  whatever other requests are submitted and whatever the rest of the machine does to the fabric
  meanwhile, as long as it leaves the controller's own transactions alone.
\<close>

theorem block_request_completes:
  assumes "block_reachable bc f" "block_submit bc r f = (Accepted h, bc1, f1)"
    and "block_run (bc1, f1) (unat (max (bc_latency bc) 1) + 2) (bc', f')"
  shows "\<exists>c. BCompleted c \<in> set (bc_slots bc') \<and> bco_handle c = h \<and> bco_requester c = br_requester r
    \<and> bco_block_number c = br_block_number r \<and> bco_delegation_id c = br_delegation_id r"
proof -
  obtain i where i: "i < NUM_SLOTS" "h = \<lparr>rh_slot = of_nat i, rh_generation = bc_slot_generations bc ! i\<rparr>"
    "block_inv UNIV bc1 f1" "bc_slot_generations bc1 = bc_slot_generations bc"
    "progress Rest (unat (max (bc_latency bc) 1) + 2) r f1 (bc_slots bc1 ! i)"
    using accepted_slot[OF block_reachable_inv[OF assms(1)] assms(2)] .
  have r: "block_inv UNIV bc' f'" "bc_slot_generations bc' = bc_slot_generations bc1" "progress Rest 0 r f' (bc_slots bc' ! i)"
    using run_progress[OF assms(3) i(3,1), of 0] i(5) by simp_all
  note I = block_invD[OF r(1)]
  have ok: "slot_ok True bc' f' i" using I(5)[OF i(1)] by simp
  obtain c where c: "bc_slots bc' ! i = BCompleted c" "answers c r" using progress_0[OF r(3) ok refl] by blast
  have "bco_handle c = h" using ok c(1) i(2,4) r(2) by (simp add: slot_ok_def)
  then show ?thesis using c I(1) i(1) by (metis answers_def nth_mem)
qed

theorem block_request_completes_witness:
  "\<exists>bc1 f1 bc' f' c. block_submit demo_block demo_read demo_fabric = (Accepted \<lparr>rh_slot = 0, rh_generation = 0\<rparr>, bc1, f1)
     \<and> block_run (bc1, f1) 3 (bc', f') \<and> BCompleted c \<in> set (bc_slots bc') \<and> bco_requester c = br_requester demo_read"
proof -
  obtain bc1 f1 where s: "block_submit demo_block demo_read demo_fabric = (Accepted \<lparr>rh_slot = 0, rh_generation = 0\<rparr>, bc1, f1)"
    using demo_submit by blast
  have lat: "unat (max (bc_latency demo_block) 1) + 2 = 3" by (simp add: demo_block_def block_new_def)
  have "block_inv UNIV bc1 f1" using submit_step[OF block_reachable_inv[OF demo_block_reachable] s] by blast
  moreover have "bc_event_sequence bc1 = 0" by (rule submit_accepted[OF s]) (simp add: demo_block_def block_new_def)
  ultimately obtain bc' f' where "block_ticks 3 (bc1, f1) = Some (bc', f')" using ticks_total[of bc1 f1 3] by auto
  then have r: "block_run (bc1, f1) (unat (max (bc_latency demo_block) 1) + 2) (bc', f')" unfolding lat by (rule ticks_run)
  from block_request_completes[OF demo_block_reachable s r] s r[unfolded lat] show ?thesis by blast
qed

text \<open>
  C20: an idle controller reads exactly one block.  After an accepted request and its latency plus
  two ticks, with nothing else happening, the request has completed; the completion and the memory
  are those of one write of the stored block through the delegated domain: either a fault with the
  fabric's reason and memory as it was, or success and the block's bytes at the buffer's physical
  place.
\<close>

theorem block_read_exact:
  assumes "block_reachable bc f" "\<not> has_autonomous_work bc" "unat (bc_event_sequence bc) + 1 < 2 ^ 64"
    and "block_submit bc r f = (Accepted h, bc1, f1)"
  shows "\<exists>d c bc2 f2. block_ticks (unat (max (bc_latency bc) 1) + 2) (bc1, f1) = Some (bc2, f2)
    \<and> BCompleted c \<in> set (bc_slots bc2) \<and> bco_handle c = h \<and> fst (block_delegate r (st_block_size (bc_storage bc)) f) = Some d
    \<and> (case one_shot f1 (slot_dma bc r d) (Some (block_bytes (bc_storage bc) (br_block_number r))) of
         Inl reason \<Rightarrow> bco_status c = DmaFault reason \<and> fab_memory f2 = fab_memory f1
       | Inr (base, end) \<Rightarrow> bco_status c = Success
           \<and> fab_memory f2 = copy_at base (block_bytes (bc_storage bc) (br_block_number r)) (fab_memory f1))"
proof -
  note I = block_invD[OF block_reachable_inv[OF assms(1)]]
  obtain i d where S: "position b_is_free (bc_slots bc) = Some i" "br_block_number r < st_num_blocks (bc_storage bc)"
    "block_delegate r (st_block_size (bc_storage bc)) f = (Some d, f1)"
    "h = \<lparr>rh_slot = of_nat i, rh_generation = bc_slot_generations bc ! i\<rparr>"
    "bc1 = bc\<lparr>bc_slots := (bc_slots bc)[i := BWaiting r (max (bc_latency bc) 1) d]\<rparr>"
    using submit_accepted[OF assms(4)] .
  have i: "i < NUM_SLOTS" using position_SomeD[OF S(1)] I(1) by simp
  have idle: "slot_request (bc_slots bc ! j) = None" if "j < NUM_SLOTS" for j
    using assms(2) that I(1) nth_mem[of j "bc_slots bc"]
    by (cases "bc_slots bc ! j") (force simp: has_autonomous_work_def list_ex_iff)+
  then have al: "alone i bc1" using i I(1) by (simp add: alone_def S(5))
  have w: "bc_slots bc1 ! i = BWaiting r (max (bc_latency bc) 1) d" using i I(1) by (simp add: S(5))
  have n: "max (bc_latency bc) 1 \<noteq> 0" by (auto simp: max_def)
  have b1: "bc_storage bc1 = bc_storage bc" "bc_event_sequence bc1 = bc_event_sequence bc"
    "bc_slot_generations bc1 = bc_slot_generations bc" "slot_dma bc1 r d = slot_dma bc r d" by (simp_all add: S(5) slot_dma_def)
  obtain g bc2 where G: "block_ticks (unat (max (bc_latency bc) 1) + 2) (bc1, f1) = Some (bc2, destroy_domain g d)" "alone i bc2"
    "bc_slots bc2 ! i = BCompleted \<lparr>bco_handle = h, bco_requester = br_requester r, bco_block_number = br_block_number r,
       bco_status = dma_status g (length (fab_transactions f1)), bco_delegation_id = br_delegation_id r\<rparr>"
    "finish_effect f1 (slot_dma bc r d) (Some (block_bytes (bc_storage bc) (br_block_number r))) g"
    by (rule single_request[OF al w n, of f1]) (use I(3) S(2,4) assms(3) b1 in auto)
  have k: "req_kind (slot_dma bc r d) = Write" by (simp add: slot_dma_def dma_request_def)
  note F = finish_status[OF G(4) k]
  have "BCompleted \<lparr>bco_handle = h, bco_requester = br_requester r, bco_block_number = br_block_number r,
      bco_status = dma_status g (length (fab_transactions f1)), bco_delegation_id = br_delegation_id r\<rparr> \<in> set (bc_slots bc2)"
    using G(2,3) i by (metis alone_def nth_mem)
  moreover have "fab_memory (destroy_domain g d) = fab_memory g" by (simp add: destroy_domain_def)
  ultimately show ?thesis using G(1) S(3) F(2,3) by (fastforce split: sum.split)
qed

theorem block_read_exact_witness:
  "\<exists>bc1 f1 bc2 f2 c. block_submit demo_block demo_read demo_fabric = (Accepted \<lparr>rh_slot = 0, rh_generation = 0\<rparr>, bc1, f1)
     \<and> block_ticks 3 (bc1, f1) = Some (bc2, f2) \<and> BCompleted c \<in> set (bc_slots bc2) \<and> bco_status c = Success
     \<and> fab_memory f2 = [0, 0, 9, 0]"
proof -
  obtain bc1 f1 where s: "block_submit demo_block demo_read demo_fabric = (Accepted \<lparr>rh_slot = 0, rh_generation = 0\<rparr>, bc1, f1)"
    using demo_submit by blast
  have p: "\<not> has_autonomous_work demo_block" "unat (bc_event_sequence demo_block) + 1 < 2 ^ 64"
    "unat (max (bc_latency demo_block) 1) + 2 = 3"
    by (simp_all add: demo_block_def block_new_def has_autonomous_work_def replicate_slots)
  have st: "bc_storage demo_block = \<lparr>st_data = [9], st_block_size = 1, st_num_blocks = 1\<rparr>" "br_block_number demo_read = 0"
    "st_block_size (bc_storage demo_block) = 1" by (simp_all add: demo_block_def block_new_def demo_read_def)
  have d: "block_delegate demo_read 1 demo_fabric = (Some (DomainId 1), f1)"
    using submit_accepted[OF s] demo_delegate unfolding st(3) by (metis fst_conv prod.collapse snd_conv)
  then have "one_shot f1 (slot_dma demo_block demo_read (DomainId 1)) (Some [9]) = Inr (2, 3)" "fab_memory f1 = [0, 0, 0, 0]"
    using demo_delegate by simp_all
  moreover have "block_bytes (bc_storage demo_block) (br_block_number demo_read) = [9]" by (simp add: st block_bytes_def slice_def)
  ultimately show ?thesis using block_read_exact[OF demo_block_reachable p(1,2) s] s d
    unfolding p(3) st(3) by (auto simp: copy_at_def)
qed

end
