(* ===== verification/Results.thy ===== *)
theory Results
  imports Prelude
begin

text \<open>
  The idioms of fallible Rust code on \<open>error + 'a\<close>: the \<open>?\<close> operator, \<open>ok_or\<close>, \<open>map_err\<close>, checked
  indexing of a vector and of a vector of optional rows.  The collection \<open>result_simps\<close> turns a
  successful run into the conjunction of its checks.
\<close>

named_theorems result_simps \<open>a computation that succeeded passed all its checks\<close>

definition question :: "'e + 'a \<Rightarrow> ('a \<Rightarrow> 'e + 'b) \<Rightarrow> 'e + 'b" where
  "question r k = (case r of Inl e \<Rightarrow> Inl e | Inr x \<Rightarrow> k x)"

definition ok_or :: "'a option \<Rightarrow> 'e \<Rightarrow> 'e + 'a" where
  "ok_or r e = (case r of None \<Rightarrow> Inl e | Some x \<Rightarrow> Inr x)"

definition map_err :: "('e \<Rightarrow> 'f) \<Rightarrow> 'e + 'a \<Rightarrow> 'f + 'a" where
  "map_err f r = (case r of Inl e \<Rightarrow> Inl (f e) | Inr x \<Rightarrow> Inr x)"

definition ensure :: "bool \<Rightarrow> 'e \<Rightarrow> 'e + unit" where
  "ensure b e = (if b then Inr () else Inl e)"

definition vec_get :: "'a list \<Rightarrow> nat \<Rightarrow> 'a option" where
  "vec_get xs i = (if i < length xs then Some (xs ! i) else None)"

definition row_at :: "'a option list \<Rightarrow> nat \<Rightarrow> 'a option" where
  "row_at xs i = (if i < length xs then xs ! i else None)"

definition flatten :: "'a option list \<Rightarrow> 'a list" where
  "flatten xs = List.map_filter id xs"

lemma question_simps [simp]: "question (Inl e) k = Inl e" "question (Inr x) k = k x"
  by (simp_all add: question_def)

lemma question_Inr [result_simps]: "question r k = Inr y \<longleftrightarrow> (\<exists>x. r = Inr x \<and> k x = Inr y)"
  by (cases r) auto

lemma ok_or_simps [simp]: "ok_or None e = Inl e" "ok_or (Some x) e = Inr x"
  by (simp_all add: ok_or_def)

lemma ok_or_Inr [result_simps]: "ok_or r e = Inr x \<longleftrightarrow> r = Some x"
  by (cases r) auto

lemma map_err_simps [simp]: "map_err f (Inl e) = Inl (f e)" "map_err f (Inr x) = Inr x"
  by (simp_all add: map_err_def)

lemma map_err_Inr [result_simps]: "map_err f r = Inr x \<longleftrightarrow> r = Inr x"
  by (cases r) auto

lemma ensure_simps [simp]: "ensure True e = Inr ()" "ensure False e = Inl e"
  by (simp_all add: ensure_def)

lemma ensure_Inr [result_simps]: "ensure b e = Inr u \<longleftrightarrow> b"
  by (simp add: ensure_def)

lemma vec_get_Some [result_simps]: "vec_get xs i = Some x \<longleftrightarrow> i < length xs \<and> xs ! i = x"
  by (auto simp: vec_get_def)

lemma row_at_Some: "row_at xs i = Some x \<longleftrightarrow> i < length xs \<and> xs ! i = Some x"
  by (auto simp: row_at_def)

lemma row_at_update [simp]: "row_at (xs[i := v]) j = (if i = j \<and> i < length xs then v else row_at xs j)"
  by (auto simp: row_at_def nth_list_update)

lemma set_flatten: "x \<in> set (flatten xs) \<longleftrightarrow> (\<exists>i. row_at xs i = Some x)"
  by (force simp: flatten_def List.map_filter_def row_at_Some in_set_conv_nth)

lemma flatten_Cons [simp]: "flatten [] = []" "flatten (None # xs) = flatten xs" "flatten (Some x # xs) = x # flatten xs"
  by (simp_all add: flatten_def List.map_filter_def)

lemma flatten_append [simp]: "flatten (xs @ ys) = flatten xs @ flatten ys"
  by (simp add: flatten_def List.map_filter_def)

lemma flatten_replicate [simp]: "flatten (replicate n None) = []"
  by (simp add: flatten_def List.map_filter_def)

lemma row_at_replicate [simp]: "row_at (replicate n None) i = None"
  by (simp add: row_at_def)

text \<open>Rows as a partial map: sums over the occupied rows of a table.\<close>

definition row_sum :: "('a \<Rightarrow> nat) \<Rightarrow> 'a option list \<Rightarrow> nat" where
  "row_sum f xs = sum_list (map f (flatten xs))"

lemma row_sum_simps [simp]: "row_sum f [] = 0" "row_sum f (None # xs) = row_sum f xs"
  "row_sum f (Some x # xs) = f x + row_sum f xs" "row_sum f (replicate n None) = 0"
  by (simp_all add: row_sum_def)

lemma row_sum_split:
  assumes "i < length xs"
  shows "row_sum f xs = row_sum f (take i xs @ drop (Suc i) xs) + (case xs ! i of None \<Rightarrow> 0 | Some x \<Rightarrow> f x)"
proof -
  have "row_sum f (take i xs @ xs ! i # drop (Suc i) xs)
      = row_sum f (take i xs @ drop (Suc i) xs) + (case xs ! i of None \<Rightarrow> 0 | Some x \<Rightarrow> f x)"
    by (cases "xs ! i") (simp_all add: row_sum_def)
  then show ?thesis by (simp only: id_take_nth_drop[OF assms, symmetric])
qed

lemma row_sum_update:
  assumes "i < length xs"
  shows "row_sum f (xs[i := v]) + (case xs ! i of None \<Rightarrow> 0 | Some x \<Rightarrow> f x)
       = row_sum f xs + (case v of None \<Rightarrow> 0 | Some x \<Rightarrow> f x)"
  using row_sum_split[OF assms, of f] row_sum_split[of i "xs[i := v]" f] assms by simp

lemma row_sum_mono:
  assumes "\<And>i x. row_at xs i = Some x \<Longrightarrow> f x \<le> g x"
  shows "row_sum f xs \<le> row_sum g xs"
proof -
  have "f x \<le> g x" if "x \<in> set (flatten xs)" for x using that assms unfolding set_flatten by blast
  then show ?thesis unfolding row_sum_def by (rule sum_list_mono)
qed

lemma row_sum_cong:
  assumes "\<And>i x. row_at xs i = Some x \<Longrightarrow> f x = g x"
  shows "row_sum f xs = row_sum g xs"
  using assms row_sum_mono[of xs f g] row_sum_mono[of xs g f] by (intro antisym) auto

lemma row_sum_member:
  assumes "row_at xs i = Some x" shows "f x \<le> row_sum f xs"
proof -
  have "x \<in> set (flatten xs)" using assms unfolding set_flatten by blast
  then show ?thesis unfolding row_sum_def by (auto intro: member_le_sum_list)
qed

lemma row_sum_zero: "(\<And>i x. row_at xs i = Some x \<Longrightarrow> f x = 0) \<Longrightarrow> row_sum f xs = 0"
  using row_sum_cong[of xs f "\<lambda>_. 0"] by (simp add: row_sum_def)

end
