(* ===== verification/Heap_Ledger.thy ===== *)
theory Heap_Ledger
  imports Scoped_Pointers Results
begin

text \<open>
  The operations of the private heap ledger, \<open>src/src/anka64/scoped_pointers/heap.rs\<close> and its modules:
  owner admission, reservation and abort, closure, publication, cleanup workers with their leases,
  retirement, scrubbing and release, host-storage charges.  The ledger is part of the pointer
  registry and shares its slots with the local pointers.  A prepared plan is a record; the
  assertions of a commit run in every build, and a failed one is the outer \<open>None\<close>.  A row or arena
  index that the source takes without a check is a list index here; the invariant of
  \<open>Heap_Ledger_Inv\<close> puts each of them in range.
\<close>

section \<open>Placement of a reservation\<close>

abbreviation i64_max :: u64 where
  "i64_max \<equiv> 0x7FFFFFFFFFFFFFFF"

definition reservation_key_of :: "heap_reservation \<Rightarrow> reservation_key" where
  "reservation_key_of r = \<lparr>rvk_owner = oa_serial (hv_owner r), rvk_slot = of_nat (hv_slot r) + 1,
     rvk_generation = hv_generation r, rvk_job = hv_job r\<rparr>"

record admission_placement =
  ap_physical :: take_plan
  ap_virtual :: take_plan

record return_placement =
  rp_physical :: return_plan
  rp_virtual :: return_plan

definition admission_extents :: "admission_placement \<Rightarrow> heap_extents" where
  "admission_extents a = \<lparr>he_physical = tk_extent (ap_physical a), he_virtual = tk_extent (ap_virtual a)\<rparr>"

definition prepare_reserve :: "heap_placement \<Rightarrow> heap_reservation \<Rightarrow> u64 \<Rightarrow> u64
    \<Rightarrow> heap_error + admission_placement" where
  "prepare_reserve p r rounded revision =
     question (map_err HPhysicalPlacement
         (manager_prepare_heap_take (hp_physical p) (reservation_key_of r) rounded revision)) (\<lambda>physical.
     question (map_err HVirtualPlacement
         (virtual_prepare_heap_take (hp_virtual_arenas p ! oa_index (hv_owner r)) (reservation_key_of r) rounded revision))
       (\<lambda>virtual_plan. Inr \<lparr>ap_physical = physical, ap_virtual = virtual_plan\<rparr>))"

definition commit_reserve :: "heap_placement \<Rightarrow> owner_account \<Rightarrow> admission_placement \<Rightarrow> heap_placement option" where
  "commit_reserve p owner plan =
     Option.bind (manager_commit_heap_take (hp_physical p) (ap_physical plan)) (\<lambda>physical.
     Option.bind (virtual_commit_heap_take (hp_virtual_arenas p ! oa_index owner) (ap_virtual plan)) (\<lambda>arena.
       Some (p\<lparr>hp_physical := physical, hp_virtual_arenas := (hp_virtual_arenas p)[oa_index owner := arena]\<rparr>)))"

definition prepare_cancel :: "heap_placement \<Rightarrow> heap_reservation \<Rightarrow> heap_extents \<Rightarrow> u64
    \<Rightarrow> heap_error + return_placement" where
  "prepare_cancel p r e revision =
     question (map_err HPhysicalPlacement
         (manager_prepare_heap_return (hp_physical p) (reservation_key_of r) (he_physical e) revision)) (\<lambda>physical.
     question (map_err HVirtualPlacement
         (virtual_prepare_heap_return (hp_virtual_arenas p ! oa_index (hv_owner r)) (reservation_key_of r)
            (he_virtual e) revision))
       (\<lambda>virtual_plan. Inr \<lparr>rp_physical = physical, rp_virtual = virtual_plan\<rparr>))"

definition commit_cancel :: "heap_placement \<Rightarrow> owner_account \<Rightarrow> return_placement \<Rightarrow> heap_placement option" where
  "commit_cancel p owner plan =
     Option.bind (manager_commit_heap_return (hp_physical p) (rp_physical plan)) (\<lambda>physical.
     Option.bind (virtual_commit_heap_return (hp_virtual_arenas p ! oa_index owner) (rp_virtual plan)) (\<lambda>arena.
       Some (p\<lparr>hp_physical := physical, hp_virtual_arenas := (hp_virtual_arenas p)[oa_index owner := arena]\<rparr>)))"

definition bind_arena :: "heap_placement option \<Rightarrow> nat \<Rightarrow> u64 option \<Rightarrow> heap_placement option option" where
  "bind_arena placement index owner =
     (case placement of
        None \<Rightarrow> Some None
      | Some p \<Rightarrow>
          map_option (\<lambda>arena. Some (p\<lparr>hp_virtual_arenas := (hp_virtual_arenas p)[index := arena]\<rparr>))
            (bind_owner (hp_virtual_arenas p ! index) owner))"

definition check_arena :: "heap_placement option \<Rightarrow> nat \<Rightarrow> u64 option \<Rightarrow> heap_error + unit" where
  "check_arena placement index owner =
     (case placement of
        None \<Rightarrow> Inr ()
      | Some p \<Rightarrow> map_err HVirtualPlacement (check_binding (hp_virtual_arenas p ! index) owner))"

section \<open>Owner accounts\<close>

definition ledger_update :: "(heap_ledger \<Rightarrow> heap_ledger) \<Rightarrow> scoped_pointers \<Rightarrow> scoped_pointers" where
  "ledger_update f sp = sp\<lparr>sps_heap := heap_ledger_advance (f (sps_heap sp))\<rparr>"

definition account_of :: "scoped_pointers \<Rightarrow> owner_account \<Rightarrow> heap_error + account" where
  "account_of sp token =
     ok_or (case row_at (hl_accounts (sps_heap sp)) (oa_index token) of
              None \<Rightarrow> None
            | Some a \<Rightarrow> if acc_token a = token then Some a else None) HOwner"

definition account_reserved_bytes :: "scoped_pointers \<Rightarrow> owner_account \<Rightarrow> heap_error + u64" where
  "account_reserved_bytes sp token = question (account_of sp token) (\<lambda>a. Inr (acc_reserved a))"

definition total_reserved_bytes :: "scoped_pointers \<Rightarrow> u64" where
  "total_reserved_bytes sp = hl_fixed_bytes (sps_heap sp) + hl_reserved_bytes (sps_heap sp)"

definition admit_plan :: "scoped_pointers \<Rightarrow> allocation_owner \<Rightarrow> heap_error + owner_account" where
  "admit_plan sp owner =
     (let h = sps_heap sp in
      question (ensure (ao_context owner \<noteq> 0) HOwner) (\<lambda>_.
      question (ensure (\<not> list_ex (\<lambda>a. ao_process (acc_owner a) = ao_process owner) (flatten (hl_accounts h))) HOwner) (\<lambda>_.
      question (ensure (hl_revision h \<noteq> u64_max \<and> hl_next_owner h \<noteq> u64_max) (HCapacity Identity)) (\<lambda>_.
      question (ok_or (position (\<lambda>r. r = None) (hl_accounts h)) (HCapacity Owners)) (\<lambda>index.
      question (check_arena (hl_placement h) index None) (\<lambda>_.
        Inr \<lparr>oa_index = index, oa_serial = hl_next_owner h\<rparr>))))))"

definition admit_owner :: "scoped_pointers \<Rightarrow> allocation_owner \<Rightarrow> u64
    \<Rightarrow> ((heap_error + owner_account) \<times> scoped_pointers) option" where
  "admit_owner sp owner limit =
     (case admit_plan sp owner of
        Inl e \<Rightarrow> Some (Inl e, sp)
      | Inr token \<Rightarrow>
         (case bind_arena (hl_placement (sps_heap sp)) (oa_index token) (Some (oa_serial token)) of
            None \<Rightarrow> None
          | Some placement \<Rightarrow>
              Some (Inr token, ledger_update (\<lambda>h. h\<lparr>hl_placement := placement,
                hl_accounts := (hl_accounts h)[oa_index token := Some \<lparr>acc_token = token, acc_owner = owner,
                  acc_closed = False, acc_limit = limit, acc_reserved = 0\<rparr>],
                hl_next_owner := hl_next_owner h + 1\<rparr>) sp)))"

definition account_charge :: "owner_account \<Rightarrow> (u64 \<Rightarrow> u64) \<Rightarrow> heap_ledger \<Rightarrow> heap_ledger" where
  "account_charge owner f h =
     h\<lparr>hl_accounts := (hl_accounts h)[oa_index owner :=
         map_option (\<lambda>a. a\<lparr>acc_reserved := f (acc_reserved a)\<rparr>) (hl_accounts h ! oa_index owner)],
       hl_reserved_bytes := f (hl_reserved_bytes h)\<rparr>"

section \<open>Reservation and abort\<close>

definition reserve_plan :: "scoped_pointers \<Rightarrow> owner_account \<Rightarrow> u64 \<Rightarrow> u64
    \<Rightarrow> heap_error + (heap_reservation \<times> heap_record \<times> admission_placement option)" where
  "reserve_plan sp owner logical expected_revision =
     (let h = sps_heap sp in
      question (account_of sp owner) (\<lambda>a.
      question (ensure (\<not> acc_closed a) HClosed) (\<lambda>_.
      question (ensure (logical \<noteq> 0 \<and> logical \<le> i64_max) HSize) (\<lambda>_.
      question (map_err (\<lambda>_. HSize) (page_ceil logical)) (\<lambda>rounded.
      question (ensure (expected_revision = hl_revision h) HStaleRevision) (\<lambda>_.
      question (ensure (hl_revision h \<noteq> u64_max \<and> hl_next_job h \<noteq> u64_max) (HCapacity Identity)) (\<lambda>_.
      question (ensure (rounded \<le> acc_limit a - acc_reserved a) (HCapacity OwnerBytes)) (\<lambda>_.
      question (ensure (rounded \<le> hl_limit h - total_reserved_bytes sp) (HCapacity GlobalBytes)) (\<lambda>_.
      question (ok_or (free_slot sp) (HCapacity Slots)) (\<lambda>slot.
      question (ok_or (position (\<lambda>r. r = None) (hl_cleanup h)) (HCapacity Cleanup)) (\<lambda>cleanup.
        let reservation = \<lparr>hv_slot = slot, hv_generation = ps_generation (sps_slots sp ! slot) + 1,
              hv_job = hl_next_job h, hv_owner = owner\<rparr> in
      question (case hl_placement h of
                  None \<Rightarrow> Inr None
                | Some p \<Rightarrow> question (prepare_reserve p reservation rounded (hl_revision h)) (\<lambda>plan. Inr (Some plan))) (\<lambda>plan.
        Inr (reservation,
          \<lparr>hr_owner = owner, hr_logical = logical, hr_rounded = rounded, hr_cleanup = cleanup, hr_published = False,
           hr_writable = True, hr_ever_attached = False, hr_extents = map_option admission_extents plan\<rparr>,
          plan)))))))))))))"

definition commit_placement :: "heap_placement option \<Rightarrow> (heap_placement \<Rightarrow> 'p \<Rightarrow> heap_placement option) \<Rightarrow> 'p option
    \<Rightarrow> heap_placement option option" where
  "commit_placement placement commit plan =
     (case plan of
        None \<Rightarrow> Some placement
      | Some pl \<Rightarrow> Option.bind placement (\<lambda>p. map_option Some (commit p pl)))"

definition reserve_effect :: "scoped_pointers \<Rightarrow> heap_reservation \<Rightarrow> heap_record \<Rightarrow> heap_placement option \<Rightarrow> scoped_pointers" where
  "reserve_effect sp r rec placement =
     ledger_update (\<lambda>h. (account_charge (hv_owner r) (\<lambda>n. n + hr_rounded rec) h)\<lparr>hl_placement := placement,
         hl_cleanup := (hl_cleanup h)[hr_cleanup rec := Some \<lparr>cr_reservation = r, cr_queued = False,
           cr_lease = LEASE_EMPTY, cr_version = 0, cr_sequence = 0, cr_progress = ScrubPending\<rparr>],
         hl_next_job := hl_next_job h + 1\<rparr>)
       (sp\<lparr>sps_slots := (sps_slots sp)[hv_slot r :=
             \<lparr>ps_generation = hv_generation r, ps_state = SReserved, ps_record = RHeap rec\<rparr>],
           sps_active_slots_end := max (sps_active_slots_end sp) (hv_slot r + 1)\<rparr>)"

definition reserve_heap :: "scoped_pointers \<Rightarrow> owner_account \<Rightarrow> u64 \<Rightarrow> u64
    \<Rightarrow> ((heap_error + heap_reservation) \<times> scoped_pointers) option" where
  "reserve_heap sp owner logical expected_revision =
     (case reserve_plan sp owner logical expected_revision of
        Inl e \<Rightarrow> Some (Inl e, sp)
      | Inr (r, rec, plan) \<Rightarrow>
         (case commit_placement (hl_placement (sps_heap sp)) (\<lambda>p pl. commit_reserve p owner pl) plan of
            None \<Rightarrow> None
          | Some placement \<Rightarrow> Some (Inr r, reserve_effect sp r rec placement)))"

definition slot_reserved_state :: "slot_state \<Rightarrow> bool" where
  "slot_reserved_state s \<longleftrightarrow> s = SReserved \<or> s = SLive \<or> s = SClosing \<or> s = SRetired"

definition heap_slot_record :: "pslot \<Rightarrow> heap_record option" where
  "heap_slot_record s = (case ps_record s of RHeap r \<Rightarrow> Some r | _ \<Rightarrow> None)"

definition reservation_record :: "scoped_pointers \<Rightarrow> heap_reservation \<Rightarrow> heap_error + heap_record" where
  "reservation_record sp r =
     question (account_of sp (hv_owner r)) (\<lambda>_.
     question (ok_or (vec_get (sps_slots sp) (hv_slot r)) HStaleReservation) (\<lambda>slot.
     question (ensure (ps_generation slot = hv_generation r \<and> slot_reserved_state (ps_state slot)) HStaleReservation) (\<lambda>_.
     question (ok_or (heap_slot_record slot) HStaleReservation) (\<lambda>rec.
     question (ensure (hr_owner rec = hv_owner r
         \<and> (case row_at (hl_cleanup (sps_heap sp)) (hr_cleanup rec) of
              None \<Rightarrow> False | Some job \<Rightarrow> cr_reservation job = r)) HStaleReservation) (\<lambda>_.
       Inr rec)))))"

definition reserved_extents :: "scoped_pointers \<Rightarrow> heap_reservation \<Rightarrow> heap_error + heap_extents" where
  "reserved_extents sp r =
     question (reservation_record sp r) (\<lambda>rec.
     question (ok_or (hr_extents rec) HConfiguration) (\<lambda>e.
     question (ok_or (hl_placement (sps_heap sp)) HConfiguration) (\<lambda>p.
     question (ensure (manager_reservation_extent (hp_physical p) (reservation_key_of r) = Some (he_physical e)
         \<and> virtual_reservation_extent (hp_virtual_arenas p ! oa_index (hv_owner r)) (reservation_key_of r)
           = Some (he_virtual e)) HStaleReservation) (\<lambda>_.
       Inr e))))"

definition abort_plan :: "scoped_pointers \<Rightarrow> heap_reservation \<Rightarrow> heap_error + (heap_record \<times> return_placement option)" where
  "abort_plan sp r =
     (let h = sps_heap sp in
      question (reservation_record sp r) (\<lambda>rec.
      question (ensure (\<not> hr_published rec \<and> \<not> hr_ever_attached rec
          \<and> (ps_state (sps_slots sp ! hv_slot r) = SReserved \<or> ps_state (sps_slots sp ! hv_slot r) = SClosing)) HBusy) (\<lambda>_.
      question (account_of sp (hr_owner rec)) (\<lambda>a.
      question (ensure (hr_rounded rec \<le> acc_reserved a \<and> acc_reserved a \<le> hl_reserved_bytes h) HConfiguration) (\<lambda>_.
        case (hl_placement h, hr_extents rec) of
          (None, None) \<Rightarrow> Inr (rec, None)
        | (Some p, Some e) \<Rightarrow>
            question (ensure (ext_size (he_physical e) = hr_rounded rec \<and> ext_size (he_virtual e) = hr_rounded rec)
              HStaleReservation) (\<lambda>_.
            question (prepare_cancel p r e (hl_revision h)) (\<lambda>plan. Inr (rec, Some plan)))
        | _ \<Rightarrow> Inl HConfiguration)))))"

text \<open>The last steps of an abort and of a release: the charge, the job, the record and the slot go.\<close>

definition discharge_effect :: "scoped_pointers \<Rightarrow> heap_reservation \<Rightarrow> heap_record \<Rightarrow> heap_placement option \<Rightarrow> scoped_pointers" where
  "discharge_effect sp r rec placement =
     ledger_update (\<lambda>h. (account_charge (hr_owner rec) (\<lambda>n. n - hr_rounded rec) h)\<lparr>hl_placement := placement,
         hl_cleanup := (hl_cleanup h)[hr_cleanup rec := None]\<rparr>)
       (trim_active_slots (sp\<lparr>sps_slots := (sps_slots sp)[hv_slot r :=
          slot_release ((sps_slots sp ! hv_slot r)\<lparr>ps_record := REmpty\<rparr>)]\<rparr>))"

definition abort_heap :: "scoped_pointers \<Rightarrow> heap_reservation \<Rightarrow> ((heap_error + unit) \<times> scoped_pointers) option" where
  "abort_heap sp r =
     (case abort_plan sp r of
        Inl e \<Rightarrow> Some (Inl e, sp)
      | Inr (rec, plan) \<Rightarrow>
         (case commit_placement (hl_placement (sps_heap sp)) (\<lambda>p pl. commit_cancel p (hr_owner rec) pl) plan of
            None \<Rightarrow> None
          | Some placement \<Rightarrow> Some (Inr (), discharge_effect sp r rec placement)))"

section \<open>Closure and owner release\<close>

definition set_slot_state :: "nat \<Rightarrow> slot_state \<Rightarrow> scoped_pointers \<Rightarrow> scoped_pointers" where
  "set_slot_state i st sp = sp\<lparr>sps_slots := (sps_slots sp)[i := (sps_slots sp ! i)\<lparr>ps_state := st\<rparr>]\<rparr>"

definition update_job :: "nat \<Rightarrow> (cleanup_record \<Rightarrow> cleanup_record) \<Rightarrow> heap_ledger \<Rightarrow> heap_ledger" where
  "update_job c f h = h\<lparr>hl_cleanup := (hl_cleanup h)[c := map_option f (hl_cleanup h ! c)]\<rparr>"

definition close_plan :: "scoped_pointers \<Rightarrow> owner_account \<Rightarrow> scoped_pointer \<Rightarrow> heap_error + heap_record" where
  "close_plan sp owner p =
     question (account_of sp owner) (\<lambda>a.
     question (ensure (\<not> acc_closed a) HClosed) (\<lambda>_.
     question (ok_or (vec_get (sps_slots sp) (sp_slot p)) HInvalidFree) (\<lambda>slot.
     question (ensure (sp_position p = 0 \<and> ps_generation slot = sp_generation p \<and> ps_state slot = SLive) HInvalidFree) (\<lambda>_.
     question (ok_or (heap_slot_record slot) HInvalidFree) (\<lambda>rec.
     question (ensure (hr_owner rec = owner \<and> hr_published rec) HInvalidFree) (\<lambda>_.
       Inr rec))))))"

definition close_heap :: "scoped_pointers \<Rightarrow> owner_account \<Rightarrow> scoped_pointer
    \<Rightarrow> ((heap_error + unit) \<times> scoped_pointers) option" where
  "close_heap sp owner p =
     (case close_plan sp owner p of
        Inl e \<Rightarrow> Some (Inl e, sp)
      | Inr rec \<Rightarrow>
         (case row_at (hl_cleanup (sps_heap sp)) (hr_cleanup rec) of
            None \<Rightarrow> None
          | Some _ \<Rightarrow>
              Some (Inr (), ledger_update (update_job (hr_cleanup rec) (\<lambda>j. j\<lparr>cr_queued := True\<rparr>))
                (set_slot_state (sp_slot p) SClosing sp))))"

definition close_slot_of :: "owner_account \<Rightarrow> pslot \<Rightarrow> pslot" where
  "close_slot_of owner s =
     (case ps_record s of
        RHeap rec \<Rightarrow>
          if hr_owner rec = owner \<and> (ps_state s = SReserved \<or> ps_state s = SLive) then s\<lparr>ps_state := SClosing\<rparr> else s
      | _ \<Rightarrow> s)"

definition queue_job_of :: "owner_account \<Rightarrow> cleanup_record option \<Rightarrow> cleanup_record option" where
  "queue_job_of owner j =
     map_option (\<lambda>job. if hv_owner (cr_reservation job) = owner then job\<lparr>cr_queued := True\<rparr> else job) j"

definition close_owner :: "scoped_pointers \<Rightarrow> owner_account \<Rightarrow> (heap_error + nat) \<times> scoped_pointers" where
  "close_owner sp owner =
     (case account_of sp owner of
        Inl e \<Rightarrow> (Inl e, sp)
      | Inr a \<Rightarrow>
          if acc_closed a then (Inr 0, sp)
          else
            (Inr (length (filter (\<lambda>job. hv_owner (cr_reservation job) = owner \<and> \<not> cr_queued job)
                    (flatten (hl_cleanup (sps_heap sp))))),
             ledger_update (\<lambda>h. h\<lparr>
                 hl_accounts := (hl_accounts h)[oa_index owner := Some (a\<lparr>acc_closed := True\<rparr>)],
                 hl_cleanup := map (queue_job_of owner) (hl_cleanup h)\<rparr>)
               (sp\<lparr>sps_slots := map (close_slot_of owner) (sps_slots sp)\<rparr>)))"

definition release_owner :: "scoped_pointers \<Rightarrow> owner_account \<Rightarrow> ((heap_error + unit) \<times> scoped_pointers) option" where
  "release_owner sp owner =
     (let h = sps_heap sp in
      case question (account_of sp owner) (\<lambda>a.
           question (ensure (acc_closed a \<and> acc_reserved a = 0
               \<and> \<not> list_ex (\<lambda>j. hv_owner (cr_reservation j) = owner) (flatten (hl_cleanup h))) HBusy) (\<lambda>_.
           check_arena (hl_placement h) (oa_index owner) (Some (oa_serial owner)))) of
        Inl e \<Rightarrow> Some (Inl e, sp)
      | Inr _ \<Rightarrow>
         (case bind_arena (hl_placement h) (oa_index owner) None of
            None \<Rightarrow> None
          | Some placement \<Rightarrow>
              Some (Inr (), ledger_update (\<lambda>h. h\<lparr>hl_placement := placement,
                hl_accounts := (hl_accounts h)[oa_index owner := None]\<rparr>) sp)))"

section \<open>Attachment, initialization and publication\<close>

text \<open>What every later step rechecks of a record, its extents and its charges.\<close>

definition custody_consistent :: "scoped_pointers \<Rightarrow> account \<Rightarrow> heap_record \<Rightarrow> heap_extents \<Rightarrow> heap_error + unit" where
  "custody_consistent sp a rec e =
     question (ensure (hr_logical rec \<noteq> 0 \<and> hr_logical rec \<le> i64_max) HConfiguration) (\<lambda>_.
     question (map_err (\<lambda>_. HSize) (page_ceil (hr_logical rec))) (\<lambda>rounded.
       ensure (rounded = hr_rounded rec \<and> ext_size (he_physical e) = hr_rounded rec
         \<and> ext_size (he_virtual e) = hr_rounded rec \<and> hr_rounded rec \<le> acc_reserved a
         \<and> acc_reserved a \<le> hl_reserved_bytes (sps_heap sp)) HConfiguration))"

record heap_attachment_plan =
  hap_reservation :: heap_reservation
  hap_owner :: allocation_owner
  hap_logical :: u64
  hap_extents :: heap_extents
  hap_revision :: u64

definition hap_pointer :: "heap_attachment_plan \<Rightarrow> scoped_pointer" where
  "hap_pointer plan = \<lparr>sp_slot = hv_slot (hap_reservation plan), sp_generation = hv_generation (hap_reservation plan),
     sp_position = 0\<rparr>"

text \<open>Charging storage owned by the encompassing fabric, at construction only.\<close>

definition charge_heap_fabric_storage :: "scoped_pointers \<Rightarrow> u64 \<Rightarrow> (heap_error + unit) \<times> scoped_pointers" where
  "charge_heap_fabric_storage sp additional =
     (let h = sps_heap sp in
      if hl_revision h \<noteq> 0 \<or> sps_active_slots_end sp \<noteq> 0 \<or> sps_active_scopes_end sp \<noteq> 0 \<or> hl_reserved_bytes h \<noteq> 0
         \<or> flatten (hl_accounts h) \<noteq> [] \<or> flatten (hl_cleanup h) \<noteq> [] \<or> flatten (hl_workers h) \<noteq> []
      then (Inl HBusy, sp)
      else if additional > hl_limit h - total_reserved_bytes sp then (Inl (HCapacity GlobalBytes), sp)
      else (Inr (), sp\<lparr>sps_heap := h\<lparr>hl_fixed_bytes := hl_fixed_bytes h + additional\<rparr>\<rparr>))"

definition prepare_heap_private :: "scoped_pointers \<Rightarrow> heap_reservation \<Rightarrow> allocation_owner \<Rightarrow> u64 \<Rightarrow> bool
    \<Rightarrow> heap_error + heap_attachment_plan" where
  "prepare_heap_private sp r current_owner expected_revision attached =
     (let h = sps_heap sp in
      question (account_of sp (hv_owner r)) (\<lambda>a.
      question (ensure (acc_owner a = current_owner) HOwner) (\<lambda>_.
      question (ensure (\<not> acc_closed a) HClosed) (\<lambda>_.
      question (ensure (expected_revision = hl_revision h) HStaleRevision) (\<lambda>_.
      question (ensure (hl_revision h \<noteq> u64_max) (HCapacity Identity)) (\<lambda>_.
      question (reservation_record sp r) (\<lambda>rec.
      question (ensure (ps_state (sps_slots sp ! hv_slot r) = SReserved \<and> hr_ever_attached rec = attached
          \<and> \<not> hr_published rec
          \<and> (case hl_cleanup h ! hr_cleanup rec of None \<Rightarrow> False | Some job \<Rightarrow> \<not> cr_queued job)) HBusy) (\<lambda>_.
      question (reserved_extents sp r) (\<lambda>e.
      question (custody_consistent sp a rec e) (\<lambda>_.
        Inr \<lparr>hap_reservation = r, hap_owner = acc_owner a, hap_logical = hr_logical rec, hap_extents = e,
             hap_revision = hl_revision h\<rparr>))))))))))"

definition prepare_heap_attachment :: "scoped_pointers \<Rightarrow> heap_reservation \<Rightarrow> allocation_owner \<Rightarrow> u64
    \<Rightarrow> heap_error + heap_attachment_plan" where
  "prepare_heap_attachment sp r current_owner expected = prepare_heap_private sp r current_owner expected False"

definition prepare_heap_initialization :: "scoped_pointers \<Rightarrow> heap_reservation \<Rightarrow> allocation_owner \<Rightarrow> u64
    \<Rightarrow> heap_error + heap_attachment_plan" where
  "prepare_heap_initialization sp r current_owner expected = prepare_heap_private sp r current_owner expected True"

definition set_slot_record :: "nat \<Rightarrow> slot_record \<Rightarrow> scoped_pointers \<Rightarrow> scoped_pointers" where
  "set_slot_record i rec sp = sp\<lparr>sps_slots := (sps_slots sp)[i := (sps_slots sp ! i)\<lparr>ps_record := rec\<rparr>]\<rparr>"

definition commit_heap_attachment :: "scoped_pointers \<Rightarrow> heap_attachment_plan \<Rightarrow> scoped_pointers option" where
  "commit_heap_attachment sp plan =
     (if hap_revision plan \<noteq> hl_revision (sps_heap sp) then None
      else case heap_slot_record (sps_slots sp ! hv_slot (hap_reservation plan)) of
        None \<Rightarrow> None
      | Some rec \<Rightarrow>
          Some (ledger_update id
            (set_slot_record (hv_slot (hap_reservation plan)) (RHeap (rec\<lparr>hr_ever_attached := True\<rparr>)) sp)))"

definition commit_heap_initialization :: "scoped_pointers \<Rightarrow> heap_attachment_plan \<Rightarrow> scoped_pointers option" where
  "commit_heap_initialization sp plan =
     (if hap_revision plan \<noteq> hl_revision (sps_heap sp) then None else Some (ledger_update id sp))"

definition commit_heap_image_publication :: "scoped_pointers \<Rightarrow> heap_attachment_plan \<Rightarrow> bool
    \<Rightarrow> (scoped_pointer \<times> scoped_pointers) option" where
  "commit_heap_image_publication sp plan writable =
     (let i = hv_slot (hap_reservation plan); slot = sps_slots sp ! i in
      if hap_revision plan \<noteq> hl_revision (sps_heap sp) \<or> ps_state slot \<noteq> SReserved
         \<or> ps_generation slot \<noteq> hv_generation (hap_reservation plan) then None
      else case heap_slot_record slot of
        None \<Rightarrow> None
      | Some rec \<Rightarrow>
          if \<not> hr_ever_attached rec \<or> hr_published rec then None
          else Some (hap_pointer plan,
            ledger_update id (set_slot_state i SLive
              (set_slot_record i (RHeap (rec\<lparr>hr_published := True, hr_writable := writable\<rparr>)) sp))))"

definition commit_heap_publication :: "scoped_pointers \<Rightarrow> heap_attachment_plan \<Rightarrow> (scoped_pointer \<times> scoped_pointers) option" where
  "commit_heap_publication sp plan = commit_heap_image_publication sp plan True"

section \<open>Closing an attached lifetime\<close>

datatype heap_close_outcome = CloseClosed | AlreadyClosing | AlreadyRetired

record heap_closure_plan =
  hcp_reservation :: heap_reservation
  hcp_owner :: allocation_owner
  hcp_logical :: u64
  hcp_writable :: bool
  hcp_extents :: heap_extents
  hcp_cleanup :: nat
  hcp_stage :: slot_state
  hcp_revision :: u64

definition hcp_rights :: "heap_closure_plan \<Rightarrow> permissions" where
  "hcp_rights plan = (if hcp_writable plan then RW else READ)"

definition hcp_is_retired :: "heap_closure_plan \<Rightarrow> bool" where
  "hcp_is_retired plan \<longleftrightarrow> hcp_stage plan = SRetired"

definition pending_state :: "slot_state \<Rightarrow> bool" where
  "pending_state s \<longleftrightarrow> s = SClosing \<or> s = SRetired"

definition progress_valid :: "slot_state \<Rightarrow> heap_record \<Rightarrow> cleanup_record \<Rightarrow> bool" where
  "progress_valid stage rec job =
     (case cr_progress job of
        ScrubPending \<Rightarrow> True
      | Scrubbing done \<Rightarrow> stage = SRetired \<and> done < hr_rounded rec \<and> done mod 16 = 0
      | ScrubClean \<Rightarrow> stage = SRetired \<and> cr_version job \<noteq> 0 \<and> cr_sequence job \<noteq> 0)"

definition prepare_attached_heap_closure :: "scoped_pointers \<Rightarrow> heap_reservation \<Rightarrow> allocation_owner
    \<Rightarrow> heap_error + heap_closure_plan" where
  "prepare_attached_heap_closure sp r owner =
     (let h = sps_heap sp; stage = ps_state (sps_slots sp ! hv_slot r) in
      question (account_of sp (hv_owner r)) (\<lambda>a.
      question (ensure (acc_owner a = owner) HOwner) (\<lambda>_.
      question (reservation_record sp r) (\<lambda>rec.
      question (ensure (hr_ever_attached rec) HBusy) (\<lambda>_.
      question (ok_or (hl_cleanup h ! hr_cleanup rec) HStaleReservation) (\<lambda>job.
      question (ensure (cr_queued job = pending_state stage \<and> (acc_closed a \<longrightarrow> pending_state stage)
          \<and> \<not> (stage = SReserved \<and> hr_published rec) \<and> \<not> (stage = SLive \<and> \<not> hr_published rec)) HConfiguration) (\<lambda>_.
      question (ensure (progress_valid stage rec job) HConfiguration) (\<lambda>_.
      question (reserved_extents sp r) (\<lambda>e.
      question (custody_consistent sp a rec e) (\<lambda>_.
        Inr \<lparr>hcp_reservation = r, hcp_owner = owner, hcp_logical = hr_logical rec, hcp_writable = hr_writable rec,
             hcp_extents = e, hcp_cleanup = hr_cleanup rec, hcp_stage = stage, hcp_revision = hl_revision h\<rparr>))))))))))"

definition commit_attached_heap_closure :: "scoped_pointers \<Rightarrow> heap_closure_plan
    \<Rightarrow> (heap_close_outcome \<times> scoped_pointers) option" where
  "commit_attached_heap_closure sp plan =
     (let i = hv_slot (hcp_reservation plan); slot = sps_slots sp ! i in
      if hcp_revision plan \<noteq> hl_revision (sps_heap sp) then None
      else case row_at (hl_cleanup (sps_heap sp)) (hcp_cleanup plan) of
        None \<Rightarrow> None
      | Some job \<Rightarrow>
          if ps_generation slot \<noteq> hv_generation (hcp_reservation plan) \<or> ps_state slot \<noteq> hcp_stage plan
             \<or> cr_reservation job \<noteq> hcp_reservation plan \<or> cr_queued job \<noteq> pending_state (hcp_stage plan) then None
          else if hcp_stage plan = SRetired then Some (AlreadyRetired, sp)
          else if hcp_stage plan = SClosing then Some (AlreadyClosing, sp)
          else Some (CloseClosed, ledger_update (update_job (hcp_cleanup plan) (\<lambda>j. j\<lparr>cr_queued := True\<rparr>))
                      (set_slot_state i SClosing sp)))"

section \<open>Cleanup workers\<close>

definition worker_of :: "scoped_pointers \<Rightarrow> cleanup_worker \<Rightarrow> heap_error + worker_record" where
  "worker_of sp handle =
     question (ok_or (checked_sub (cw_row handle) 1) HWorker) (\<lambda>index.
       ok_or (case row_at (hl_workers (sps_heap sp)) (unat index) of
                None \<Rightarrow> None
              | Some r \<Rightarrow> if cw_serial handle \<noteq> 0 \<and> wr_handle r = handle then Some r else None) HWorker)"

definition current_worker :: "scoped_pointers \<Rightarrow> cleanup_worker \<Rightarrow> cleanup_worker_identity \<Rightarrow> heap_error + unit" where
  "current_worker sp handle identity =
     question (worker_of sp handle) (\<lambda>row.
       ensure (wr_state row = WorkerActive \<and> cwi_context identity \<noteq> 0 \<and> wr_identity row = identity) HWorker)"

definition enroll_cleanup_worker_record :: "scoped_pointers \<Rightarrow> cleanup_worker_identity \<Rightarrow> u64
    \<Rightarrow> (heap_error + cleanup_worker) \<times> scoped_pointers" where
  "enroll_cleanup_worker_record sp identity expected =
     (let h = sps_heap sp in
      case question (ensure (expected = hl_revision h \<and> expected \<noteq> u64_max) HStaleRevision) (\<lambda>_.
           question (ensure (cwi_context identity \<noteq> 0
               \<and> \<not> list_ex (\<lambda>r. cwi_process (wr_identity r) = cwi_process identity) (flatten (hl_workers h))) HWorker) (\<lambda>_.
           question (ensure (hl_next_worker h \<noteq> 0 \<and> hl_next_worker h \<noteq> u64_max) (HCapacity Identity)) (\<lambda>_.
             ok_or (position (\<lambda>r. r = None) (hl_workers h)) (HCapacity Workers)))) of
        Inl e \<Rightarrow> (Inl e, sp)
      | Inr index \<Rightarrow>
          let handle = \<lparr>cw_row = of_nat index + 1, cw_serial = hl_next_worker h\<rparr> in
          (Inr handle, ledger_update (\<lambda>h. h\<lparr>
             hl_workers := (hl_workers h)[index := Some \<lparr>wr_handle = handle, wr_identity = identity,
               wr_state = WorkerActive\<rparr>],
             hl_next_worker := hl_next_worker h + 1\<rparr>) sp))"

record heap_worker_claim_plan =
  wcp_closure :: heap_closure_plan
  wcp_cleanup :: nat
  wcp_prior :: job_lease
  wcp_lease :: cleanup_lease
  wcp_revision :: u64

definition unowned_epoch :: "job_lease \<Rightarrow> u64 option" where
  "unowned_epoch l = (case l of Unowned epoch \<Rightarrow> Some epoch | _ \<Rightarrow> None)"

definition prepare_heap_worker_claim :: "scoped_pointers \<Rightarrow> cleanup_worker \<Rightarrow> cleanup_worker_identity
    \<Rightarrow> heap_reservation \<Rightarrow> allocation_owner \<Rightarrow> u64 \<Rightarrow> heap_error + heap_worker_claim_plan" where
  "prepare_heap_worker_claim sp worker identity r owner expected =
     (let h = sps_heap sp in
      question (ensure (expected = hl_revision h \<and> expected \<noteq> u64_max) HStaleRevision) (\<lambda>_.
      question (current_worker sp worker identity) (\<lambda>_.
      question (prepare_attached_heap_closure sp r owner) (\<lambda>closure.
      question (reservation_record sp r) (\<lambda>rec.
      question (ok_or (hl_cleanup h ! hr_cleanup rec) HStaleReservation) (\<lambda>job.
      question (ensure (pending_state (ps_state (sps_slots sp ! hv_slot r)) \<and> cr_queued job
          \<and> cr_progress job = ScrubPending) HBusy) (\<lambda>_.
      question (ok_or (unowned_epoch (cr_lease job)) HLease) (\<lambda>epoch.
      question (ok_or (checked_add epoch 1) (HCapacity Identity)) (\<lambda>epoch'.
        Inr \<lparr>wcp_closure = closure, wcp_cleanup = hr_cleanup rec, wcp_prior = cr_lease job,
             wcp_lease = \<lparr>cls_reservation = r, cls_worker = worker, cls_epoch = epoch'\<rparr>,
             wcp_revision = expected\<rparr>)))))))))"

definition commit_heap_worker_claim :: "scoped_pointers \<Rightarrow> heap_worker_claim_plan
    \<Rightarrow> (cleanup_lease \<times> scoped_pointers) option" where
  "commit_heap_worker_claim sp plan =
     (if hl_revision (sps_heap sp) \<noteq> wcp_revision plan then None
      else case row_at (hl_cleanup (sps_heap sp)) (wcp_cleanup plan) of
        None \<Rightarrow> None
      | Some job \<Rightarrow>
          if cr_reservation job \<noteq> cls_reservation (wcp_lease plan) \<or> \<not> cr_queued job \<or> cr_lease job \<noteq> wcp_prior plan
          then None
          else Some (wcp_lease plan, ledger_update (update_job (wcp_cleanup plan)
            (\<lambda>j. j\<lparr>cr_lease := Held (cls_epoch (wcp_lease plan)) (cls_worker (wcp_lease plan))\<rparr>)) sp))"

definition prepare_heap_worker_lease :: "scoped_pointers \<Rightarrow> cleanup_lease \<Rightarrow> cleanup_worker_identity
    \<Rightarrow> allocation_owner \<Rightarrow> heap_error + heap_closure_plan" where
  "prepare_heap_worker_lease sp lease identity owner =
     (let r = cls_reservation lease in
      question (current_worker sp (cls_worker lease) identity) (\<lambda>_.
      question (prepare_attached_heap_closure sp r owner) (\<lambda>plan.
      question (reservation_record sp r) (\<lambda>rec.
      question (ok_or (hl_cleanup (sps_heap sp) ! hr_cleanup rec) HStaleReservation) (\<lambda>job.
      question (ensure (pending_state (ps_state (sps_slots sp ! hv_slot r)) \<and> cr_queued job \<and> cls_epoch lease \<noteq> 0
          \<and> cr_lease job = Held (cls_epoch lease) (cls_worker lease)) HLease) (\<lambda>_.
        Inr plan))))))"

definition fence_cleanup_worker_record :: "scoped_pointers \<Rightarrow> cleanup_worker \<Rightarrow> (heap_error + unit) \<times> scoped_pointers" where
  "fence_cleanup_worker_record sp worker =
     (case question (worker_of sp worker) (\<lambda>r. question (ensure (wr_state r = WorkerActive) HWorker) (\<lambda>_. Inr r)) of
        Inl e \<Rightarrow> (Inl e, sp)
      | Inr r \<Rightarrow>
          (Inr (), ledger_update (\<lambda>h. h\<lparr>hl_workers :=
             (hl_workers h)[unat (cw_row worker) - 1 := Some (r\<lparr>wr_state := WorkerFenced\<rparr>)]\<rparr>) sp))"

definition remove_cleanup_worker_record :: "scoped_pointers \<Rightarrow> cleanup_worker \<Rightarrow> (heap_error + unit) \<times> scoped_pointers" where
  "remove_cleanup_worker_record sp worker =
     (case question (worker_of sp worker) (\<lambda>r.
           question (ensure (wr_state r = WorkerFenced) HWorker) (\<lambda>_.
             ensure (\<not> list_ex (\<lambda>job. lease_refers_to (cr_lease job) worker) (flatten (hl_cleanup (sps_heap sp)))) HBusy)) of
        Inl e \<Rightarrow> (Inl e, sp)
      | Inr _ \<Rightarrow>
          (Inr (), ledger_update (\<lambda>h. h\<lparr>hl_workers := (hl_workers h)[unat (cw_row worker) - 1 := None]\<rparr>) sp))"

section \<open>Revocation and recovery of a lease\<close>

record heap_worker_recovery_plan =
  wrp_closure :: heap_closure_plan
  wrp_cleanup :: nat
  wrp_prior :: cleanup_record
  wrp_next_lease :: job_lease
  wrp_next_version :: u64
  wrp_revision :: u64

definition prepare_worker_transition :: "scoped_pointers \<Rightarrow> cleanup_lease \<Rightarrow> allocation_owner \<Rightarrow> bool
    \<Rightarrow> heap_error + heap_worker_recovery_plan" where
  "prepare_worker_transition sp lease owner recover =
     (let r = cls_reservation lease in
      question (worker_of sp (cls_worker lease)) (\<lambda>worker.
      question (prepare_attached_heap_closure sp r owner) (\<lambda>closure.
      question (reservation_record sp r) (\<lambda>rec.
      question (ok_or (hl_cleanup (sps_heap sp) ! hr_cleanup rec) HStaleReservation) (\<lambda>job.
      question (ensure (pending_state (ps_state (sps_slots sp ! hv_slot r)) \<and> cr_queued job) HBusy) (\<lambda>_.
      question (ensure (cls_epoch lease \<noteq> 0
          \<and> cr_lease job = (if recover then Revoking else Held) (cls_epoch lease) (cls_worker lease)) HLease) (\<lambda>_.
      question (if recover
                then question (ensure (wr_state worker = WorkerFenced) HWorker) (\<lambda>_.
                     question (ok_or (checked_add (cr_version job) 1) (HCapacity Identity)) (\<lambda>version.
                       Inr (Unowned (cls_epoch lease), version)))
                else Inr (Revoking (cls_epoch lease) (cls_worker lease), cr_version job)) (\<lambda>(next_lease, next_version).
        Inr \<lparr>wrp_closure = closure, wrp_cleanup = hr_cleanup rec, wrp_prior = job, wrp_next_lease = next_lease,
             wrp_next_version = next_version, wrp_revision = hl_revision (sps_heap sp)\<rparr>))))))))"

definition prepare_heap_worker_revoke :: "scoped_pointers \<Rightarrow> cleanup_lease \<Rightarrow> allocation_owner
    \<Rightarrow> heap_error + heap_worker_recovery_plan" where
  "prepare_heap_worker_revoke sp lease owner = prepare_worker_transition sp lease owner False"

definition prepare_heap_worker_recovery :: "scoped_pointers \<Rightarrow> cleanup_lease \<Rightarrow> allocation_owner
    \<Rightarrow> heap_error + heap_worker_recovery_plan" where
  "prepare_heap_worker_recovery sp lease owner = prepare_worker_transition sp lease owner True"

definition commit_heap_worker_recovery :: "scoped_pointers \<Rightarrow> heap_worker_recovery_plan \<Rightarrow> scoped_pointers option" where
  "commit_heap_worker_recovery sp plan =
     (if hl_revision (sps_heap sp) \<noteq> wrp_revision plan
         \<or> row_at (hl_cleanup (sps_heap sp)) (wrp_cleanup plan) \<noteq> Some (wrp_prior plan) then None
      else Some (ledger_update (update_job (wrp_cleanup plan)
        (\<lambda>j. j\<lparr>cr_lease := wrp_next_lease plan, cr_version := wrp_next_version plan,
             cr_progress := (case wrp_next_lease plan of Unowned _ \<Rightarrow> ScrubPending | _ \<Rightarrow> cr_progress j)\<rparr>)) sp))"

section \<open>Retirement\<close>

record heap_retirement_plan =
  hrp_closure :: heap_closure_plan
  hrp_lease :: cleanup_lease
  hrp_cleanup :: nat
  hrp_revision :: u64

definition prepare_heap_retirement :: "scoped_pointers \<Rightarrow> cleanup_lease \<Rightarrow> cleanup_worker_identity \<Rightarrow> allocation_owner
    \<Rightarrow> heap_error + heap_retirement_plan" where
  "prepare_heap_retirement sp lease identity owner =
     question (prepare_heap_worker_lease sp lease identity owner) (\<lambda>closure.
     question (ensure (\<not> hcp_is_retired closure) HLease) (\<lambda>_.
     question (reservation_record sp (cls_reservation lease)) (\<lambda>rec.
       Inr \<lparr>hrp_closure = closure, hrp_lease = lease, hrp_cleanup = hr_cleanup rec,
            hrp_revision = hl_revision (sps_heap sp)\<rparr>)))"

definition local_backing_references :: "scoped_pointers \<Rightarrow> object_id \<Rightarrow> bool" where
  "local_backing_references sp ob \<longleftrightarrow>
     list_ex (\<lambda>s. case ps_record s of
                    RLocal a \<Rightarrow> (case la_backing a of None \<Rightarrow> False | Some b \<Rightarrow> pb_object b = ob)
                  | _ \<Rightarrow> False) (sps_slots sp)"

definition commit_heap_retirement :: "scoped_pointers \<Rightarrow> heap_retirement_plan \<Rightarrow> scoped_pointers option" where
  "commit_heap_retirement sp plan =
     (let lease = hrp_lease plan; i = hv_slot (cls_reservation lease); slot = sps_slots sp ! i in
      if hl_revision (sps_heap sp) \<noteq> hrp_revision plan then None
      else case row_at (hl_cleanup (sps_heap sp)) (hrp_cleanup plan) of
        None \<Rightarrow> None
      | Some job \<Rightarrow>
          if cr_reservation job \<noteq> cls_reservation lease \<or> \<not> cr_queued job
             \<or> cr_lease job \<noteq> Held (cls_epoch lease) (cls_worker lease)
             \<or> ps_generation slot \<noteq> hv_generation (cls_reservation lease) \<or> ps_state slot \<noteq> SClosing then None
          else Some (ledger_update id (set_slot_state i SRetired sp)))"

section \<open>Scrubbing and release\<close>

record heap_cleanup_status =
  hcs_lease :: cleanup_lease
  hcs_job :: cleanup_record

definition status_done :: "heap_cleanup_status \<Rightarrow> u64 \<Rightarrow> u64" where
  "status_done s rounded =
     (case cr_progress (hcs_job s) of ScrubPending \<Rightarrow> 0 | Scrubbing done \<Rightarrow> done | ScrubClean \<Rightarrow> rounded)"

definition status_is_clean :: "heap_cleanup_status \<Rightarrow> bool" where
  "status_is_clean s \<longleftrightarrow> cr_progress (hcs_job s) = ScrubClean"

record heap_cleanup_plan =
  cup_closure :: heap_closure_plan
  cup_lease :: cleanup_lease
  cup_cleanup :: nat
  cup_prior :: cleanup_record
  cup_next :: cleanup_record
  cup_revision :: u64

definition cup_before :: "heap_cleanup_plan \<Rightarrow> heap_cleanup_status" where
  "cup_before plan = \<lparr>hcs_lease = cup_lease plan, hcs_job = cup_prior plan\<rparr>"

record heap_release_plan =
  hlp_cleanup :: heap_cleanup_plan
  hlp_placement :: return_placement
  hlp_rounded :: u64
  hlp_account_reserved :: u64

definition prepare_retired_cleanup :: "scoped_pointers \<Rightarrow> cleanup_lease \<Rightarrow> cleanup_worker_identity \<Rightarrow> allocation_owner
    \<Rightarrow> heap_cleanup_status option \<Rightarrow> heap_error + heap_cleanup_plan" where
  "prepare_retired_cleanup sp lease identity owner expected =
     question (prepare_heap_worker_lease sp lease identity owner) (\<lambda>closure.
     question (ensure (hcp_is_retired closure) HBusy) (\<lambda>_.
     question (reservation_record sp (cls_reservation lease)) (\<lambda>rec.
     question (ok_or (hl_cleanup (sps_heap sp) ! hr_cleanup rec) HStaleReservation) (\<lambda>prior.
     question (ensure (case expected of None \<Rightarrow> True | Some s \<Rightarrow> s = \<lparr>hcs_lease = lease, hcs_job = prior\<rparr>) HStaleCleanup) (\<lambda>_.
       Inr \<lparr>cup_closure = closure, cup_lease = lease, cup_cleanup = hr_cleanup rec, cup_prior = prior,
            cup_next = prior, cup_revision = hl_revision (sps_heap sp)\<rparr>)))))"

definition prepare_heap_scrub_begin :: "scoped_pointers \<Rightarrow> cleanup_lease \<Rightarrow> cleanup_worker_identity \<Rightarrow> allocation_owner
    \<Rightarrow> heap_error + heap_cleanup_plan" where
  "prepare_heap_scrub_begin sp lease identity owner =
     question (prepare_retired_cleanup sp lease identity owner None) (\<lambda>plan.
     question (ensure (cr_progress (cup_prior plan) = ScrubPending) HBusy) (\<lambda>_.
       Inr (plan\<lparr>cup_next := (cup_next plan)\<lparr>cr_progress := Scrubbing 0\<rparr>\<rparr>)))"

definition scrubbing_done :: "heap_scrub_progress \<Rightarrow> u64 option" where
  "scrubbing_done p = (case p of Scrubbing done \<Rightarrow> Some done | _ \<Rightarrow> None)"

definition prepare_heap_scrub_chunk :: "scoped_pointers \<Rightarrow> heap_cleanup_status \<Rightarrow> cleanup_worker_identity
    \<Rightarrow> allocation_owner \<Rightarrow> u64 \<Rightarrow> heap_error + heap_cleanup_plan" where
  "prepare_heap_scrub_chunk sp status identity owner amount =
     question (prepare_retired_cleanup sp (hcs_lease status) identity owner (Some status)) (\<lambda>plan.
     question (ok_or (scrubbing_done (cr_progress (cup_prior plan))) HBusy) (\<lambda>done.
       let rounded = ext_size (he_physical (hcp_extents (cup_closure plan))) in
     question (ensure (amount \<noteq> 0 \<and> amount \<le> 4096 \<and> amount mod 16 = 0 \<and> amount \<le> rounded - done) HSize) (\<lambda>_.
     question (ok_or (checked_add (cr_version (cup_prior plan)) 1) (HCapacity Identity)) (\<lambda>version.
     question (ok_or (checked_add (cr_sequence (cup_prior plan)) 1) (HCapacity Identity)) (\<lambda>sequence.
       Inr (plan\<lparr>cup_next := (cup_next plan)\<lparr>cr_version := version, cr_sequence := sequence,
         cr_progress := (if done + amount = rounded then ScrubClean else Scrubbing (done + amount))\<rparr>\<rparr>))))))"

definition check_cleanup_commit :: "scoped_pointers \<Rightarrow> heap_cleanup_plan \<Rightarrow> bool" where
  "check_cleanup_commit sp plan \<longleftrightarrow>
     hl_revision (sps_heap sp) = cup_revision plan
     \<and> row_at (hl_cleanup (sps_heap sp)) (cup_cleanup plan) = Some (cup_prior plan)
     \<and> (let slot = sps_slots sp ! hv_slot (cls_reservation (cup_lease plan)) in
        ps_state slot = SRetired \<and> ps_generation slot = hv_generation (cls_reservation (cup_lease plan)))"

definition commit_heap_scrub :: "scoped_pointers \<Rightarrow> heap_cleanup_plan \<Rightarrow> (heap_cleanup_status \<times> scoped_pointers) option" where
  "commit_heap_scrub sp plan =
     (if \<not> check_cleanup_commit sp plan then None
      else Some (\<lparr>hcs_lease = cup_lease plan, hcs_job = cup_next plan\<rparr>,
        ledger_update (\<lambda>h. h\<lparr>hl_cleanup := (hl_cleanup h)[cup_cleanup plan := Some (cup_next plan)]\<rparr>) sp))"

definition prepare_heap_release :: "scoped_pointers \<Rightarrow> heap_cleanup_status \<Rightarrow> cleanup_worker_identity \<Rightarrow> allocation_owner
    \<Rightarrow> heap_error + heap_release_plan" where
  "prepare_heap_release sp status identity owner =
     question (prepare_retired_cleanup sp (hcs_lease status) identity owner (Some status)) (\<lambda>cleanup.
     question (ensure (status_is_clean status) HBusy) (\<lambda>_.
       let r = hcp_reservation (cup_closure cleanup) in
     question (reservation_record sp r) (\<lambda>rec.
     question (account_of sp (hv_owner r)) (\<lambda>a.
     question (ok_or (hl_placement (sps_heap sp)) HConfiguration) (\<lambda>p.
     question (prepare_cancel p r (hcp_extents (cup_closure cleanup)) (cup_revision cleanup)) (\<lambda>placement.
       Inr \<lparr>hlp_cleanup = cleanup, hlp_placement = placement, hlp_rounded = hr_rounded rec,
            hlp_account_reserved = acc_reserved a\<rparr>))))))"

definition commit_heap_release :: "scoped_pointers \<Rightarrow> heap_release_plan \<Rightarrow> scoped_pointers option" where
  "commit_heap_release sp plan =
     (let cleanup = hlp_cleanup plan; r = hcp_reservation (cup_closure cleanup); h = sps_heap sp in
      if \<not> check_cleanup_commit sp cleanup then None
      else case row_at (hl_accounts h) (oa_index (hv_owner r)) of
        None \<Rightarrow> None
      | Some a \<Rightarrow>
          if acc_reserved a \<noteq> hlp_account_reserved plan then None
          else case hl_placement h of
            None \<Rightarrow> None
          | Some p \<Rightarrow>
             (case commit_cancel p (hv_owner r) (hlp_placement plan) of
                None \<Rightarrow> None
              | Some p' \<Rightarrow>
                  Some (ledger_update (\<lambda>h. (account_charge (hv_owner r) (\<lambda>n. n - hlp_rounded plan) h)\<lparr>
                      hl_placement := Some p', hl_cleanup := (hl_cleanup h)[cup_cleanup cleanup := None]\<rparr>)
                    (trim_active_slots (sp\<lparr>sps_slots := (sps_slots sp)[hv_slot r :=
                       slot_release ((sps_slots sp ! hv_slot r)\<lparr>ps_record := REmpty\<rparr>)]\<rparr>)))))"

section \<open>Pointers into a published allocation\<close>

record heap_pointer_plan =
  hpp_reservation :: heap_reservation
  hpp_owner :: allocation_owner
  hpp_logical :: u64
  hpp_writable :: bool
  hpp_extents :: heap_extents
  hpp_position :: u64

definition hpp_rights :: "heap_pointer_plan \<Rightarrow> permissions" where
  "hpp_rights plan = (if hpp_writable plan then RW else READ)"

definition is_heap_pointer :: "scoped_pointers \<Rightarrow> scoped_pointer \<Rightarrow> bool" where
  "is_heap_pointer sp p \<longleftrightarrow>
     (case vec_get (sps_slots sp) (sp_slot p) of None \<Rightarrow> False | Some s \<Rightarrow> heap_slot_record s \<noteq> None)"

definition prepare_heap_pointer :: "scoped_pointers \<Rightarrow> scoped_pointer \<Rightarrow> allocation_owner \<Rightarrow> heap_error + heap_pointer_plan" where
  "prepare_heap_pointer sp p current_owner =
     question (ok_or (vec_get (sps_slots sp) (sp_slot p)) (HPointer PStale)) (\<lambda>slot.
     question (ensure (ps_generation slot = sp_generation p \<and> ps_state slot = SLive) (HPointer PStale)) (\<lambda>_.
     question (ok_or (heap_slot_record slot) (HPointer PStale)) (\<lambda>rec.
     question (account_of sp (hr_owner rec)) (\<lambda>a.
     question (ensure (acc_owner a = current_owner) HOwner) (\<lambda>_.
     question (ensure (\<not> acc_closed a) HClosed) (\<lambda>_.
     question (ensure (hr_ever_attached rec \<and> hr_published rec) (HPointer PStale)) (\<lambda>_.
     question (ok_or (row_at (hl_cleanup (sps_heap sp)) (hr_cleanup rec)) HStaleReservation) (\<lambda>job.
       let r = cr_reservation job in
     question (ensure (\<not> cr_queued job \<and> hv_slot r = sp_slot p \<and> hv_generation r = sp_generation p
         \<and> hv_owner r = hr_owner rec) HStaleReservation) (\<lambda>_.
     question (reserved_extents sp r) (\<lambda>e.
     question (custody_consistent sp a rec e) (\<lambda>_.
     question (ensure (sp_position p \<le> hr_logical rec) (HPointer PBounds)) (\<lambda>_.
       Inr \<lparr>hpp_reservation = r, hpp_owner = acc_owner a, hpp_logical = hr_logical rec, hpp_writable = hr_writable rec,
            hpp_extents = e, hpp_position = sp_position p\<rparr>))))))))))))"

definition heap_account :: "scoped_pointers \<Rightarrow> allocation_owner \<Rightarrow> owner_account option" where
  "heap_account sp owner = map_option acc_token (find (\<lambda>a. acc_owner a = owner) (flatten (hl_accounts (sps_heap sp))))"

record heap_job =
  hj_reservation :: heap_reservation
  hj_owner :: allocation_owner
  hj_retired :: bool
  hj_lease :: "cleanup_lease option"
  hj_progress :: "heap_cleanup_status option"

definition heap_job_at :: "scoped_pointers \<Rightarrow> nat \<Rightarrow> heap_job option" where
  "heap_job_at sp index =
     Option.bind (row_at (hl_cleanup (sps_heap sp)) index) (\<lambda>job.
       if \<not> cr_queued job then None
       else case account_of sp (hv_owner (cr_reservation job)) of
         Inl _ \<Rightarrow> None
       | Inr a \<Rightarrow>
          (case cr_lease job of
             Revoking _ _ \<Rightarrow> None
           | l \<Rightarrow>
               let lease = (case l of Held epoch worker \<Rightarrow>
                     Some \<lparr>cls_reservation = cr_reservation job, cls_worker = worker, cls_epoch = epoch\<rparr> | _ \<Rightarrow> None)
               in Some \<lparr>hj_reservation = cr_reservation job, hj_owner = acc_owner a,
                    hj_retired = (ps_state (sps_slots sp ! hv_slot (cr_reservation job)) = SRetired),
                    hj_lease = lease,
                    hj_progress = Option.bind lease (\<lambda>ls. case cr_progress job of
                       ScrubPending \<Rightarrow> None | _ \<Rightarrow> Some \<lparr>hcs_lease = ls, hcs_job = job\<rparr>)\<rparr>))"

definition heap_free_reservation :: "scoped_pointers \<Rightarrow> scoped_pointer \<Rightarrow> allocation_owner \<Rightarrow> heap_error + heap_reservation" where
  "heap_free_reservation sp p owner =
     question (ensure (sp_position p = 0) HInvalidFree) (\<lambda>_.
     question (prepare_heap_pointer sp p owner) (\<lambda>plan. Inr (hpp_reservation plan)))"

definition add_heap_pointer :: "scoped_pointers \<Rightarrow> scoped_pointer \<Rightarrow> allocation_owner \<Rightarrow> int \<Rightarrow> heap_error + scoped_pointer" where
  "add_heap_pointer sp p owner delta =
     question (prepare_heap_pointer sp p owner) (\<lambda>plan.
     question (ok_or (case checked_add_signed (sp_position p) delta of
                        None \<Rightarrow> None | Some pos \<Rightarrow> if pos \<le> hpp_logical plan then Some pos else None)
                (HPointer PBounds)) (\<lambda>pos.
       Inr (p\<lparr>sp_position := pos\<rparr>)))"

fun release_closed_from :: "nat list \<Rightarrow> scoped_pointers \<Rightarrow> scoped_pointers option" where
  "release_closed_from [] sp = Some sp"
| "release_closed_from (i # is) sp =
     (case hl_accounts (sps_heap sp) ! i of
        None \<Rightarrow> release_closed_from is sp
      | Some a \<Rightarrow>
          if acc_closed a \<and> acc_reserved a = 0
          then (case release_owner sp (acc_token a) of None \<Rightarrow> None | Some (_, sp') \<Rightarrow> release_closed_from is sp')
          else release_closed_from is sp)"

definition release_closed_heap_accounts :: "scoped_pointers \<Rightarrow> scoped_pointers option" where
  "release_closed_heap_accounts sp = release_closed_from [0..<length (hl_accounts (sps_heap sp))] sp"

section \<open>Host storage\<close>

definition reserve_host_storage :: "scoped_pointers \<Rightarrow> owner_account \<Rightarrow> u64 \<Rightarrow> u64
    \<Rightarrow> (heap_error + host_storage_reservation) \<times> scoped_pointers" where
  "reserve_host_storage sp owner logical expected_revision =
     (let h = sps_heap sp in
      case question (account_of sp owner) (\<lambda>a.
           question (ensure (\<not> acc_closed a) HClosed) (\<lambda>_.
           question (ensure (logical \<noteq> 0 \<and> logical \<le> i64_max) HSize) (\<lambda>_.
           question (map_err (\<lambda>_. HSize) (page_ceil logical)) (\<lambda>rounded.
           question (ensure (expected_revision = hl_revision h) HStaleRevision) (\<lambda>_.
           question (ensure (hl_revision h \<noteq> u64_max \<and> hl_next_job h \<noteq> u64_max) (HCapacity Identity)) (\<lambda>_.
           question (ensure (case checked_sub (acc_limit a) (acc_reserved a) of None \<Rightarrow> False | Some n \<Rightarrow> rounded \<le> n)
             (HCapacity OwnerBytes)) (\<lambda>_.
           question (ensure (case checked_sub (hl_limit h) (total_reserved_bytes sp) of None \<Rightarrow> False | Some n \<Rightarrow> rounded \<le> n)
             (HCapacity GlobalBytes)) (\<lambda>_.
           question (ok_or (position (\<lambda>r. r = None) (hl_host_storage h)) (HCapacity HostStorage)) (\<lambda>row.
             Inr (row, rounded)))))))))) of
        Inl e \<Rightarrow> (Inl e, sp)
      | Inr (row, rounded) \<Rightarrow>
          let token = \<lparr>hsv_row = row, hsv_identity = hl_next_job h, hsv_account = owner\<rparr> in
          (Inr token, ledger_update (\<lambda>h. (account_charge owner (\<lambda>n. n + rounded) h)\<lparr>
             hl_host_storage := (hl_host_storage h)[row := Some \<lparr>hsr_token = token, hsr_logical = logical,
               hsr_rounded = rounded\<rparr>],
             hl_next_job := hl_next_job h + 1\<rparr>) sp))"

definition host_storage_record_of :: "scoped_pointers \<Rightarrow> host_storage_reservation \<Rightarrow> heap_error + host_storage_record" where
  "host_storage_record_of sp token =
     question (account_of sp (hsv_account token)) (\<lambda>_.
       ok_or (case row_at (hl_host_storage (sps_heap sp)) (hsv_row token) of
                None \<Rightarrow> None | Some r \<Rightarrow> if hsr_token r = token then Some r else None) HStaleReservation)"

definition check_host_storage :: "scoped_pointers \<Rightarrow> host_storage_reservation \<Rightarrow> allocation_owner \<Rightarrow> u64 \<Rightarrow> heap_error + u64" where
  "check_host_storage sp token owner expected_revision =
     question (account_of sp (hsv_account token)) (\<lambda>a.
     question (ensure (acc_owner a = owner) HOwner) (\<lambda>_.
     question (ensure (\<not> acc_closed a) HClosed) (\<lambda>_.
     question (ensure (expected_revision = hl_revision (sps_heap sp)) HStaleRevision) (\<lambda>_.
     question (host_storage_record_of sp token) (\<lambda>r. Inr (hsr_logical r))))))"

definition release_host_storage :: "scoped_pointers \<Rightarrow> host_storage_reservation \<Rightarrow> (heap_error + unit) \<times> scoped_pointers" where
  "release_host_storage sp token =
     (case question (host_storage_record_of sp token) (\<lambda>r.
           question (account_of sp (hsv_account token)) (\<lambda>a.
           question (ensure (hsr_rounded r \<le> acc_reserved a \<and> acc_reserved a \<le> hl_reserved_bytes (sps_heap sp))
             HConfiguration) (\<lambda>_. Inr r))) of
        Inl e \<Rightarrow> (Inl e, sp)
      | Inr r \<Rightarrow>
          (Inr (), ledger_update (\<lambda>h. (account_charge (hsv_account token) (\<lambda>n. n - hsr_rounded r) h)\<lparr>
             hl_host_storage := (hl_host_storage h)[hsv_row token := None]\<rparr>) sp))"

section \<open>Work admissions\<close>

definition commit_heap_work_cleanup_revision :: "scoped_pointers \<Rightarrow> u64 \<Rightarrow> scoped_pointers option" where
  "commit_heap_work_cleanup_revision sp plan =
     (if hl_revision (sps_heap sp) \<noteq> plan then None else Some (ledger_update id sp))"

definition prepare_retained_heap_work :: "scoped_pointers \<Rightarrow> heap_reservation \<Rightarrow> allocation_owner \<Rightarrow> heap_error + heap_closure_plan" where
  "prepare_retained_heap_work sp r owner =
     question (prepare_attached_heap_closure sp r owner) (\<lambda>plan.
     question (reservation_record sp r) (\<lambda>rec.
     question (ensure (hr_published rec
         \<and> (ps_state (sps_slots sp ! hv_slot r) = SLive \<or> ps_state (sps_slots sp ! hv_slot r) = SClosing)) HStaleWork) (\<lambda>_.
       Inr plan)))"

definition prepare_heap_work_revision :: "scoped_pointers \<Rightarrow> u64 \<Rightarrow> heap_error + u64" where
  "prepare_heap_work_revision sp expected =
     question (ensure (expected = hl_revision (sps_heap sp) \<and> expected \<noteq> u64_max) HStaleRevision) (\<lambda>_. Inr expected)"

definition commit_heap_work_revision :: "scoped_pointers \<Rightarrow> u64 \<Rightarrow> scoped_pointers option" where
  "commit_heap_work_revision sp plan =
     (if hl_revision (sps_heap sp) \<noteq> plan \<or> plan = u64_max then None else Some (ledger_update id sp))"

section \<open>Construction\<close>

record heap_placement_limits =
  hpl_physical_pool :: extent
  hpl_physical_claims :: nat
  hpl_virtual_window :: extent
  hpl_per_owner_claims :: nat

definition heap_placement_minimum :: "type_sizes \<Rightarrow> heap_placement_limits \<Rightarrow> nat \<Rightarrow> heap_error + u64" where
  "heap_placement_minimum sz l owners =
     question (map_err HPhysicalPlacement (minimum_bytes (ts_claim sz) (ts_extent sz) (hpl_physical_claims l))) (\<lambda>physical.
     question (map_err HVirtualPlacement
         (virtual_minimum_reservation_bytes (ts_claim sz) (ts_extent sz) (hpl_virtual_window l) (hpl_per_owner_claims l)))
       (\<lambda>virtual_bytes.
       let n = (ts_layout sz + unat virtual_bytes) * owners + unat physical + ts_placement_scratch sz in
       if n < 2 ^ 64 \<and> ts_layout sz + unat virtual_bytes < 2 ^ 64 then Inr (of_nat n) else Inl HConfiguration))"

text \<open>
  The arenas are built one by one; every one of them is the same \<open>reusable\<close> layout.  The outer
  \<open>None\<close> is the failed \<open>expect\<close> on the window's end.
\<close>

definition heap_placement_new :: "type_sizes \<Rightarrow> heap_placement_limits \<Rightarrow> nat \<Rightarrow> (heap_error + heap_placement) option" where
  "heap_placement_new sz l owners =
     (case map_err HPhysicalPlacement (manager_bounded (ts_claim sz) (ts_extent sz) (hpl_physical_pool l) (hpl_physical_claims l)) of
        Inl e \<Rightarrow> Some (Inl e)
      | Inr physical \<Rightarrow>
          if owners = 0 then Some (Inr \<lparr>hp_physical = physical, hp_virtual_arenas = []\<rparr>)
          else map_option (\<lambda>r. question (map_err HVirtualPlacement r)
                 (\<lambda>arena. Inr \<lparr>hp_physical = physical, hp_virtual_arenas = replicate owners arena\<rparr>))
               (reusable (ts_claim sz) (ts_extent sz) (hpl_virtual_window l) (hpl_per_owner_claims l)))"

text \<open>With exact capacities the retained bytes are the minimum.\<close>

definition with_heap_placement :: "type_sizes \<Rightarrow> registry_limits \<Rightarrow> heap_placement_limits
    \<Rightarrow> (heap_error + scoped_pointers) option" where
  "with_heap_placement sz limits pl =
     (case question (with_limits sz limits) (\<lambda>sp.
           question (heap_placement_minimum sz pl (rl_owners limits)) (\<lambda>minimum.
           question (ensure (minimum \<le> rl_global_bytes limits - hl_fixed_bytes (sps_heap sp)) (HCapacity GlobalBytes)) (\<lambda>_.
             Inr (sp, minimum)))) of
        Inl e \<Rightarrow> Some (Inl e)
      | Inr (sp, additional) \<Rightarrow>
          map_option (\<lambda>r. question r (\<lambda>p.
             Inr (sp\<lparr>sps_heap := (sps_heap sp)\<lparr>hl_fixed_bytes := hl_fixed_bytes (sps_heap sp) + additional,
               hl_placement := Some p\<rparr>\<rparr>))) (heap_placement_new sz pl (rl_owners limits)))"

definition with_heap_placement_and_workers :: "type_sizes \<Rightarrow> registry_limits \<Rightarrow> heap_placement_limits \<Rightarrow> nat
    \<Rightarrow> (heap_error + scoped_pointers) option" where
  "with_heap_placement_and_workers sz limits pl capacity =
     (if capacity > unat u32_max then Some (Inl HConfiguration)
      else map_option (\<lambda>r. question r (\<lambda>sp.
          question (table_bytes (ts_worker sz) capacity) (\<lambda>retained.
          question (ensure (retained \<le> rl_global_bytes limits - hl_fixed_bytes (sps_heap sp)) (HCapacity GlobalBytes)) (\<lambda>_.
            Inr (sp\<lparr>sps_heap := (sps_heap sp)\<lparr>hl_fixed_bytes := hl_fixed_bytes (sps_heap sp) + retained,
              hl_workers := replicate capacity None\<rparr>\<rparr>)))))
        (with_heap_placement sz limits pl))"

end
