(* ===== verification/Heap_Managers.thy ===== *)
theory Heap_Managers
  imports Placement_Managers
begin

text \<open>
  The contract between the heap ledger and a placement manager: a reservation is taken in two
  phases, a held one can always be returned, and the extents of two keys never overlap.  The locale
  \<open>reservation_manager\<close> states it once; the physical manager and the per-owner virtual arena of
  \<open>src/src/anka64/placement.rs\<close> both satisfy it in their bounded profile.
\<close>

section \<open>The claims table as a map from keys to extents\<close>

definition bounded_ok :: "extent \<Rightarrow> claims \<Rightarrow> extent list \<Rightarrow> bool" where
  "bounded_ok pool c free \<longleftrightarrow> pool_inv pool free (row_extent (c, free)) \<and> claims_wf (c, free)"

lemma find_rows: "find P (List.map_filter id rows) = Some r \<Longrightarrow> Some r \<in> set rows \<and> P r"
  by (induction rows) (auto simp: List.map_filter_simps split: option.splits if_splits)

lemma claims_extent_Some:
  assumes "keys_distinct (cl_rows c)"
  shows "claims_extent c k = Some e \<longleftrightarrow> (\<exists>i < length (cl_rows c). cl_rows c ! i = Some \<lparr>clm_key = k, clm_extent = e\<rparr>)"
proof
  assume "claims_extent c k = Some e"
  then obtain r where r: "find (\<lambda>r. clm_key r = k) (List.map_filter id (cl_rows c)) = Some r" "clm_extent r = e"
    by (auto simp: claims_extent_def)
  then have "Some r \<in> set (cl_rows c)" "r = \<lparr>clm_key = k, clm_extent = e\<rparr>" using find_rows[OF r(1)] by auto
  then show "\<exists>i < length (cl_rows c). cl_rows c ! i = Some \<lparr>clm_key = k, clm_extent = e\<rparr>"
    by (metis in_set_conv_nth)
next
  assume "\<exists>i < length (cl_rows c). cl_rows c ! i = Some \<lparr>clm_key = k, clm_extent = e\<rparr>"
  then obtain i where i: "i < length (cl_rows c)" "cl_rows c ! i = Some \<lparr>clm_key = k, clm_extent = e\<rparr>" by blast
  have "claims_extent c k \<noteq> None" using claims_extent_None[of c k i] i by fastforce
  then obtain r where r: "find (\<lambda>r. clm_key r = k) (List.map_filter id (cl_rows c)) = Some r"
    by (auto simp: claims_extent_def)
  then have "Some r \<in> set (cl_rows c)" "clm_key r = k" using find_rows[OF r] by auto
  then obtain j where "j < length (cl_rows c)" "cl_rows c ! j = Some r" by (metis in_set_conv_nth)
  then have "r = \<lparr>clm_key = k, clm_extent = e\<rparr>"
    using assms i \<open>clm_key r = k\<close> unfolding keys_distinct_def by (metis claim.select_convs(1) option.inject)
  then show "claims_extent c k = Some e" using r by (simp add: claims_extent_def)
qed

lemma bounded_take:
  assumes "bounded_ok pool c free" "prepare_take c free k n rvn = Inr plan" "claims_take c free plan = (c', free')"
  shows "bounded_ok pool c' free' \<and> claims_extent c' = (claims_extent c)(k \<mapsto> tk_extent plan)
    \<and> claims_extent c k = None \<and> page_ceil n = Inr (ext_size (tk_extent plan))"
proof -
  note p = prepare_take_Inr[OF assms(2)]
  have ok: "pool_inv pool free (row_extent (c, free))" "claims_wf (c, free)" using assms(1) by (auto simp: bounded_ok_def)
  have wf': "claims_wf (c', free')" using claims_wf_step[OF step_take[OF assms(2)] ok(2)] assms(3) by simp
  have "free_wf free" using ok(1) by (simp add: pool_inv_def)
  from pool_inv_take[OF ok(1) take_is_take[OF assms(2) this]]
  have inv': "pool_inv pool free' (row_extent (c', free'))" using assms(3) by simp
  have rows: "cl_rows c' = (cl_rows c)[tk_claim plan := Some \<lparr>clm_key = k, clm_extent = tk_extent plan\<rparr>]"
    using assms(3) p by (auto simp: claims_take_def)
  have kd: "keys_distinct (cl_rows c)" "keys_distinct (cl_rows c')" using ok(2) wf' by (auto simp: claims_wf_def)
  have "claims_extent c' x = ((claims_extent c)(k \<mapsto> tk_extent plan)) x" for x
  proof (cases "x = k")
    case True
    have "claims_extent c' k = Some (tk_extent plan)"
      unfolding claims_extent_Some[OF kd(2)] using p by (intro exI[of _ "tk_claim plan"]) (simp add: rows)
    with True show ?thesis by simp
  next
    case False
    have "cl_rows c' ! i = Some \<lparr>clm_key = x, clm_extent = e\<rparr> \<longleftrightarrow> cl_rows c ! i = Some \<lparr>clm_key = x, clm_extent = e\<rparr>" for i e
      using p False by (cases "i = tk_claim plan") (auto simp: rows)
    then have "claims_extent c' x = Some e \<longleftrightarrow> claims_extent c x = Some e" for e
      unfolding claims_extent_Some[OF kd(2)] claims_extent_Some[OF kd(1)] by (simp add: rows)
    then show ?thesis using False by (metis fun_upd_other not_Some_eq)
  qed
  then show ?thesis using inv' wf' p by (auto simp: bounded_ok_def)
qed

lemma bounded_return_ready:
  assumes "bounded_ok pool c free" "claims_extent c k = Some e"
  shows "\<exists>plan. prepare_return c free pool k e rvn = Inr plan"
proof -
  have ok: "pool_inv pool free (row_extent (c, free))" "claims_wf (c, free)" using assms(1) by (auto simp: bounded_ok_def)
  then have "keys_distinct (cl_rows c)" by (simp add: claims_wf_def)
  from assms(2)[unfolded claims_extent_Some[OF this]]
  obtain i where "i < length (cl_rows c)" "cl_rows c ! i = Some \<lparr>clm_key = k, clm_extent = e\<rparr>" by blast
  then show ?thesis using return_succeeds[of pool "(c, free)" i "\<lparr>clm_key = k, clm_extent = e\<rparr>" rvn] ok by simp
qed

lemma bounded_return:
  assumes "bounded_ok pool c free" "prepare_return c free pool k e rvn = Inr plan" "give_back c free plan = (c', free')"
  shows "bounded_ok pool c' free' \<and> claims_extent c' = (claims_extent c)(k := None) \<and> claims_extent c k = Some e"
proof -
  note p = prepare_return_Inr[OF assms(2)]
  have ok: "pool_inv pool free (row_extent (c, free))" "claims_wf (c, free)" using assms(1) by (auto simp: bounded_ok_def)
  have wf': "claims_wf (c', free')" using claims_wf_step[OF step_return[OF assms(2)] ok(2)] assms(3) by simp
  have held: "row_extent (c, free) (rt_claim plan) = Some e" using prepare_return_held[OF assms(2)] .
  have dj: "free_wf free" "ext_set e \<inter> free_set free = {}" using ok(1) held unfolding pool_inv_def by blast+
  from pool_inv_give[OF ok(1) return_is_give[OF assms(2) dj]]
  have inv': "pool_inv pool free' (row_extent (c', free'))" using assms(3) by simp
  have rows: "cl_rows c' = (cl_rows c)[rt_claim plan := None]" using assms(3) by (auto simp: give_back_def)
  have kd: "keys_distinct (cl_rows c)" "keys_distinct (cl_rows c')" using ok(2) wf' by (auto simp: claims_wf_def)
  have k: "claims_extent c k = Some e" unfolding claims_extent_Some[OF kd(1)] using p by blast
  have only: "i = rt_claim plan" if "i < length (cl_rows c)" "cl_rows c ! i = Some r" "clm_key r = k" for i r
    using kd(1) p that unfolding keys_distinct_def by (metis claim.select_convs(1))
  have "claims_extent c' x = ((claims_extent c)(k := None)) x" for x
  proof (cases "x = k")
    case True
    have "cl_rows c' ! i \<noteq> Some \<lparr>clm_key = k, clm_extent = e'\<rparr>" if "i < length (cl_rows c)" for i e'
      using only[OF that] that by (cases "i = rt_claim plan") (auto simp: rows)
    then have "claims_extent c' k \<noteq> Some e'" for e'
      unfolding claims_extent_Some[OF kd(2)] by (simp add: rows)
    with True show ?thesis by (cases "claims_extent c' x") auto
  next
    case False
    have "cl_rows c' ! i = Some \<lparr>clm_key = x, clm_extent = e'\<rparr> \<longleftrightarrow> cl_rows c ! i = Some \<lparr>clm_key = x, clm_extent = e'\<rparr>" for i e'
      using p False by (cases "i = rt_claim plan") (auto simp: rows)
    then have "claims_extent c' x = Some e' \<longleftrightarrow> claims_extent c x = Some e'" for e'
      unfolding claims_extent_Some[OF kd(2)] claims_extent_Some[OF kd(1)] by (simp add: rows)
    then show ?thesis using False by (metis fun_upd_other not_Some_eq)
  qed
  then show ?thesis using inv' wf' k by (auto simp: bounded_ok_def)
qed

lemma bounded_apart:
  assumes "bounded_ok pool c free" "claims_extent c k = Some e" "claims_extent c k' = Some e'" "k \<noteq> k'"
  shows "ext_set e \<inter> ext_set e' = {} \<and> ext_set e \<subseteq> ext_set pool \<and> valid_extent e"
proof -
  have ok: "pool_inv pool free (row_extent (c, free))" "keys_distinct (cl_rows c)"
    using assms(1) by (auto simp: bounded_ok_def claims_wf_def)
  from assms(2,3)[unfolded claims_extent_Some[OF ok(2)]] obtain i j where
    i: "i < length (cl_rows c)" "cl_rows c ! i = Some \<lparr>clm_key = k, clm_extent = e\<rparr>"
    and j: "j < length (cl_rows c)" "cl_rows c ! j = Some \<lparr>clm_key = k', clm_extent = e'\<rparr>" by blast
  then have "i \<noteq> j" "row_extent (c, free) i = Some e" "row_extent (c, free) j = Some e'"
    using assms(4) by (auto simp: row_extent_def)
  then show ?thesis using pool_inv_no_overlap[OF ok(1)] held_in_pool[OF ok(1)] by blast
qed

lemma bounded_inside:
  assumes "bounded_ok pool c free" "claims_extent c k = Some e"
  shows "valid_extent e \<and> ext_set e \<subseteq> ext_set pool \<and> unat (ext_base pool) \<le> unat (ext_base e)
    \<and> ext_limit e \<le> ext_limit pool"
proof -
  have ok: "pool_inv pool free (row_extent (c, free))" "keys_distinct (cl_rows c)"
    using assms(1) by (auto simp: bounded_ok_def claims_wf_def)
  from assms(2)[unfolded claims_extent_Some[OF ok(2)]] obtain i where
    "i < length (cl_rows c)" "cl_rows c ! i = Some \<lparr>clm_key = k, clm_extent = e\<rparr>" by blast
  then have "row_extent (c, free) i = Some e" by (auto simp: row_extent_def)
  from held_in_pool[OF ok(1) this] show ?thesis by (auto simp: ext_set_def)
qed

lemma bounded_empty:
  assumes "bounded_ok pool c free" "\<And>k. claims_extent c k = None"
  shows "cl_held c = 0 \<and> free = [pool]"
proof -
  have ok: "pool_inv pool free (row_extent (c, free))" "claims_wf (c, free)" using assms(1) by (auto simp: bounded_ok_def)
  then have kd: "keys_distinct (cl_rows c)" by (simp add: claims_wf_def)
  have none: "cl_rows c ! i = None" if "i < length (cl_rows c)" for i
  proof (cases "cl_rows c ! i")
    case (Some r)
    then have "claims_extent c (clm_key r) \<noteq> None" using claims_extent_None[of c "clm_key r" i r] that by blast
    then show ?thesis using assms(2) by simp
  qed simp
  then have "row_extent (c, free) = (\<lambda>_. None)" by (auto simp: row_extent_def fun_eq_iff)
  then have "free_set free = ext_set pool" "free_wf free" "valid_extent pool" using ok(1) by (auto simp: pool_inv_def ran_def)
  then have "free = [pool]" by (intro free_wf_unique) (auto simp: free_wf_def)
  moreover have "filter (\<lambda>r. r \<noteq> None) (cl_rows c) = []"
    using none by (auto simp: filter_empty_conv in_set_conv_nth)
  ultimately show ?thesis using ok(2) by (simp add: claims_wf_def)
qed

lemma bounded_new:
  assumes "claims_new claim_elem extent_elem k pool = Inr (c, free)"
  shows "bounded_ok pool c free \<and> (\<forall>key. claims_extent c key = None)"
proof -
  have c: "c = \<lparr>cl_rows = replicate k None, cl_held = 0, cl_free_capacity = k + 2\<rparr>" "free = [pool]" "valid_extent pool"
    using claims_new_Inr[OF assms] by auto
  have "row_extent (c, free) = (\<lambda>_. None)" by (auto simp: row_extent_def c fun_eq_iff)
  then have "pool_inv pool free (row_extent (c, free))" using pool_inv_start[OF c(3)] c(2) by simp
  then show ?thesis
    by (auto simp: bounded_ok_def claims_wf_def keys_distinct_def c(1) claims_extent_def List.map_filter_def)
qed

section \<open>The contract\<close>

locale reservation_manager =
  fixes ok :: "'m \<Rightarrow> bool" and extent_of :: "'m \<Rightarrow> reservation_key \<Rightarrow> extent option"
    and prep_take :: "'m \<Rightarrow> reservation_key \<Rightarrow> u64 \<Rightarrow> u64 \<Rightarrow> placement_error + take_plan"
    and commit_take :: "'m \<Rightarrow> take_plan \<Rightarrow> 'm option"
    and prep_return :: "'m \<Rightarrow> reservation_key \<Rightarrow> extent \<Rightarrow> u64 \<Rightarrow> placement_error + return_plan"
    and commit_return :: "'m \<Rightarrow> return_plan \<Rightarrow> 'm option"
  assumes takes: "ok m \<Longrightarrow> prep_take m k n rvn = Inr plan \<Longrightarrow>
      \<exists>m'. commit_take m plan = Some m' \<and> ok m' \<and> extent_of m' = (extent_of m)(k \<mapsto> tk_extent plan)
        \<and> extent_of m k = None \<and> page_ceil n = Inr (ext_size (tk_extent plan))"
    and return_ready: "ok m \<Longrightarrow> extent_of m k = Some e \<Longrightarrow> \<exists>rplan. prep_return m k e rvn = Inr rplan"
    and returns: "ok m \<Longrightarrow> prep_return m k e rvn = Inr rplan \<Longrightarrow>
      \<exists>m'. commit_return m rplan = Some m' \<and> ok m' \<and> extent_of m' = (extent_of m)(k := None) \<and> extent_of m k = Some e"
    and apart: "ok m \<Longrightarrow> extent_of m k = Some e \<Longrightarrow> extent_of m k' = Some e' \<Longrightarrow> k \<noteq> k' \<Longrightarrow> ext_set e \<inter> ext_set e' = {}"
begin

lemma taken_returnable:
  assumes "ok m" "prep_take m k n rvn = Inr plan" "commit_take m plan = Some m'"
  shows "\<exists>rplan m''. prep_return m' k (tk_extent plan) rvn' = Inr rplan \<and> commit_return m' rplan = Some m'' \<and> ok m''
    \<and> extent_of m'' = extent_of m"
proof -
  from takes[OF assms(1,2)] assms(3) have m': "ok m'" "extent_of m' = (extent_of m)(k \<mapsto> tk_extent plan)"
    "extent_of m k = None" by auto
  then obtain rplan where r: "prep_return m' k (tk_extent plan) rvn' = Inr rplan" using return_ready[of m' k] by fastforce
  from returns[OF m'(1) r] m'(2,3) r show ?thesis by (auto simp: fun_upd_idem)
qed

lemma take_keeps: "ok m \<Longrightarrow> prep_take m k n rvn = Inr plan \<Longrightarrow> commit_take m plan = Some m' \<Longrightarrow> k' \<noteq> k
    \<Longrightarrow> extent_of m' k' = extent_of m k'"
  using takes by fastforce

end

section \<open>The two managers\<close>

definition manager_ok :: "placement_manager \<Rightarrow> bool" where
  "manager_ok m \<longleftrightarrow> (case pm_bounded m of None \<Rightarrow> False | Some c \<Rightarrow> bounded_ok (pm_pool m) c (pm_free m))"

interpretation physical: reservation_manager manager_ok manager_reservation_extent manager_prepare_heap_take
  manager_commit_heap_take manager_prepare_heap_return manager_commit_heap_return
proof unfold_locales
  fix m k n rvn plan
  assume ok: "manager_ok m" and p: "manager_prepare_heap_take m k n rvn = Inr plan"
  then obtain c where c: "pm_bounded m = Some c" "bounded_ok (pm_pool m) c (pm_free m)"
    by (auto simp: manager_ok_def split: option.splits)
  obtain c' f' where t: "claims_take c (pm_free m) plan = (c', f')" by fastforce
  have "prepare_take c (pm_free m) k n rvn = Inr plan" using p c(1) by (simp add: manager_prepare_heap_take_def)
  from bounded_take[OF c(2) this t] show "\<exists>m'. manager_commit_heap_take m plan = Some m' \<and> manager_ok m'
    \<and> manager_reservation_extent m' = (manager_reservation_extent m)(k \<mapsto> tk_extent plan)
    \<and> manager_reservation_extent m k = None \<and> page_ceil n = Inr (ext_size (tk_extent plan))"
    by (auto simp: manager_commit_heap_take_def manager_ok_def manager_reservation_extent_def c(1) t fun_eq_iff)
next
  fix m k e rvn assume "manager_ok m" "manager_reservation_extent m k = Some e"
  then show "\<exists>plan. manager_prepare_heap_return m k e rvn = Inr plan"
    using bounded_return_ready by (auto simp: manager_ok_def manager_reservation_extent_def
        manager_prepare_heap_return_def split: option.splits)
next
  fix m k e rvn plan
  assume ok: "manager_ok m" and p: "manager_prepare_heap_return m k e rvn = Inr plan"
  then obtain c where c: "pm_bounded m = Some c" "bounded_ok (pm_pool m) c (pm_free m)"
    by (auto simp: manager_ok_def split: option.splits)
  obtain c' f' where t: "give_back c (pm_free m) plan = (c', f')" by fastforce
  have "prepare_return c (pm_free m) (pm_pool m) k e rvn = Inr plan"
    using p c(1) by (simp add: manager_prepare_heap_return_def)
  from bounded_return[OF c(2) this t] show "\<exists>m'. manager_commit_heap_return m plan = Some m' \<and> manager_ok m'
    \<and> manager_reservation_extent m' = (manager_reservation_extent m)(k := None) \<and> manager_reservation_extent m k = Some e"
    by (auto simp: manager_commit_heap_return_def manager_ok_def manager_reservation_extent_def c(1) t fun_eq_iff)
next
  fix m k e k' e' assume "manager_ok m" "manager_reservation_extent m k = Some e"
    "manager_reservation_extent m k' = Some e'" "k \<noteq> k'"
  then show "ext_set e \<inter> ext_set e' = {}"
    using bounded_apart by (auto simp: manager_ok_def manager_reservation_extent_def split: option.splits)
qed

definition arena_ok :: "virtual_layout \<Rightarrow> bool" where
  "arena_ok v \<longleftrightarrow> (case vl_reusable v of
      None \<Rightarrow> False
    | Some a \<Rightarrow> bounded_ok (window v) (va_claims a) (va_free a)
        \<and> (\<forall>k e. claims_extent (va_claims a) k = Some e \<longrightarrow> va_owner a = Some (rvk_owner k)))"

definition arena_owner :: "virtual_layout \<Rightarrow> u64 option" where
  "arena_owner v = Option.bind (vl_reusable v) va_owner"

lemma virtual_extent_claims:
  "arena_ok v \<Longrightarrow> vl_reusable v = Some a \<Longrightarrow> virtual_reservation_extent v k = claims_extent (va_claims a) k"
  by (cases "claims_extent (va_claims a) k") (auto simp: arena_ok_def virtual_reservation_extent_def)

lemma arena_okD: "arena_ok v \<Longrightarrow> \<exists>a. vl_reusable v = Some a \<and> bounded_ok (window v) (va_claims a) (va_free a)
    \<and> (\<forall>k e. claims_extent (va_claims a) k = Some e \<longrightarrow> va_owner a = Some (rvk_owner k))"
  by (auto simp: arena_ok_def split: option.splits)

lemma window_reusable [simp]: "window (v\<lparr>vl_reusable := a\<rparr>) = window v"
  by (simp add: window_def)

interpretation virtual_arenas: reservation_manager arena_ok virtual_reservation_extent virtual_prepare_heap_take
  virtual_commit_heap_take virtual_prepare_heap_return virtual_commit_heap_return
proof unfold_locales
  fix v k n rvn plan
  assume ok: "arena_ok v" and p: "virtual_prepare_heap_take v k n rvn = Inr plan"
  obtain a where a: "vl_reusable v = Some a" "bounded_ok (window v) (va_claims a) (va_free a)"
    "\<forall>k e. claims_extent (va_claims a) k = Some e \<longrightarrow> va_owner a = Some (rvk_owner k)" using arena_okD[OF ok] by blast
  obtain c' f' where t: "claims_take (va_claims a) (va_free a) plan = (c', f')" by fastforce
  have o: "va_owner a = Some (rvk_owner k)" "prepare_take (va_claims a) (va_free a) k n rvn = Inr plan"
    using p a(1) by (auto simp: virtual_prepare_heap_take_def split: if_splits)
  let ?v = "v\<lparr>vl_reusable := Some (a\<lparr>va_claims := c', va_free := f'\<rparr>)\<rparr>"
  note b = bounded_take[OF a(2) o(2) t]
  have ok': "arena_ok ?v" using b a(3) o(1) by (auto simp: arena_ok_def)
  have "virtual_reservation_extent ?v = (virtual_reservation_extent v)(k \<mapsto> tk_extent plan)"
    using b virtual_extent_claims[OF ok a(1)] virtual_extent_claims[OF ok', of "a\<lparr>va_claims := c', va_free := f'\<rparr>"]
    by (auto simp: fun_eq_iff)
  then show "\<exists>v'. virtual_commit_heap_take v plan = Some v' \<and> arena_ok v'
    \<and> virtual_reservation_extent v' = (virtual_reservation_extent v)(k \<mapsto> tk_extent plan)
    \<and> virtual_reservation_extent v k = None \<and> page_ceil n = Inr (ext_size (tk_extent plan))"
    using b ok' virtual_extent_claims[OF ok a(1)] by (simp add: virtual_commit_heap_take_def a(1) t)
next
  fix v k e rvn assume ok: "arena_ok v" and e: "virtual_reservation_extent v k = Some e"
  obtain a where a: "vl_reusable v = Some a" "bounded_ok (window v) (va_claims a) (va_free a)" using arena_okD[OF ok] by blast
  have "va_owner a = Some (rvk_owner k)" using e a(1) by (auto simp: virtual_reservation_extent_def split: if_splits)
  then show "\<exists>plan. virtual_prepare_heap_return v k e rvn = Inr plan"
    using bounded_return_ready[OF a(2)] e virtual_extent_claims[OF ok a(1)]
    by (simp add: virtual_prepare_heap_return_def a(1))
next
  fix v k e rvn plan
  assume ok: "arena_ok v" and p: "virtual_prepare_heap_return v k e rvn = Inr plan"
  obtain a where a: "vl_reusable v = Some a" "bounded_ok (window v) (va_claims a) (va_free a)"
    "\<forall>k e. claims_extent (va_claims a) k = Some e \<longrightarrow> va_owner a = Some (rvk_owner k)" using arena_okD[OF ok] by blast
  obtain c' f' where t: "give_back (va_claims a) (va_free a) plan = (c', f')" by fastforce
  have o: "prepare_return (va_claims a) (va_free a) (window v) k e rvn = Inr plan"
    using p a(1) by (auto simp: virtual_prepare_heap_return_def split: if_splits)
  let ?v = "v\<lparr>vl_reusable := Some (a\<lparr>va_claims := c', va_free := f'\<rparr>)\<rparr>"
  note b = bounded_return[OF a(2) o t]
  have ok': "arena_ok ?v" using b a(3) by (auto simp: arena_ok_def split: if_splits)
  have "virtual_reservation_extent ?v = (virtual_reservation_extent v)(k := None)"
    using b virtual_extent_claims[OF ok a(1)] virtual_extent_claims[OF ok', of "a\<lparr>va_claims := c', va_free := f'\<rparr>"]
    by (auto simp: fun_eq_iff)
  then show "\<exists>v'. virtual_commit_heap_return v plan = Some v' \<and> arena_ok v'
    \<and> virtual_reservation_extent v' = (virtual_reservation_extent v)(k := None) \<and> virtual_reservation_extent v k = Some e"
    using b ok' virtual_extent_claims[OF ok a(1)] by (simp add: virtual_commit_heap_return_def a(1) t)
next
  fix v k e k' e' assume ok: "arena_ok v" and e: "virtual_reservation_extent v k = Some e"
    "virtual_reservation_extent v k' = Some e'" "k \<noteq> k'"
  obtain a where a: "vl_reusable v = Some a" "bounded_ok (window v) (va_claims a) (va_free a)" using arena_okD[OF ok] by blast
  show "ext_set e \<inter> ext_set e' = {}"
    using bounded_apart[OF a(2), of k e k' e'] e virtual_extent_claims[OF ok a(1)] by simp
qed

lemma arena_owner_take: "virtual_commit_heap_take v plan = Some v' \<Longrightarrow> arena_owner v' = arena_owner v"
  by (auto simp: virtual_commit_heap_take_def arena_owner_def split: option.splits prod.splits)

lemma arena_owner_return: "virtual_commit_heap_return v plan = Some v' \<Longrightarrow> arena_owner v' = arena_owner v"
  by (auto simp: virtual_commit_heap_return_def arena_owner_def split: option.splits prod.splits)

lemma arena_bind:
  assumes "arena_ok v" "\<And>k. virtual_reservation_extent v k = None"
  shows "\<exists>v'. bind_owner v o' = Some v' \<and> arena_ok v' \<and> arena_owner v' = o' \<and> (\<forall>k. virtual_reservation_extent v' k = None)
    \<and> check_binding v (arena_owner v) = Inr ()"
proof -
  obtain a where a: "vl_reusable v = Some a" "bounded_ok (window v) (va_claims a) (va_free a)" using arena_okD[OF assms(1)] by blast
  have none: "claims_extent (va_claims a) k = None" for k using virtual_extent_claims[OF assms(1) a(1)] assms(2) by simp
  from bounded_empty[OF a(2) none] show ?thesis
    using a none by (simp add: bind_owner_def arena_ok_def arena_owner_def virtual_reservation_extent_def check_binding_def
        claims_count_def)
qed

lemma manager_bounded_new:
  assumes "manager_bounded claim_elem extent_elem pool k = Inr m"
  shows "manager_ok m \<and> pm_pool m = pool \<and> (\<forall>key. manager_reservation_extent m key = None)"
  using assms bounded_new by (fastforce simp: manager_bounded_def manager_ok_def manager_reservation_extent_def split: sum.splits)

lemma reusable_new:
  assumes "reusable claim_elem extent_elem pool k = Some (Inr v)"
  shows "arena_ok v \<and> arena_owner v = None \<and> window v = pool \<and> (\<forall>key. virtual_reservation_extent v key = None)"
proof -
  from assms obtain c free limit where r: "claims_new claim_elem extent_elem k pool = Inr (c, free)"
    "ext_end pool = Some limit"
    "v = \<lparr>vl_layout_start = ext_base pool, vl_next = ext_base pool, vl_limit = limit,
        vl_regions = [], vl_reusable = Some \<lparr>va_free = free, va_claims = c, va_owner = None\<rparr>\<rparr>"
    by (auto simp: reusable_def split: sum.splits option.splits)
  have "window v = mk_extent (ext_base pool) (ext_size pool)"
    using r(2) by (auto simp: window_def r(3) ext_end_def dest: checked_add_SomeD)
  then have w: "window v = pool" by (cases pool) (simp add: mk_extent_def)
  from bounded_new[OF r(1)] w show ?thesis
    by (simp add: arena_ok_def r(3) arena_owner_def virtual_reservation_extent_def)
qed

end
