(* ===== verification/Heap_Ledger_Inv.thy ===== *)
theory Heap_Ledger_Inv
  imports Heap_Ledger Heap_Managers
begin

text \<open>
  The invariant of the heap ledger and its preservation.  The registry is read through three partial
  maps: \<open>lifetimes\<close>, the identity of the allocation in each slot, \<open>job_res\<close>, the reservation of each
  cleanup row, and \<open>tokens\<close>, the account of each owner row.  The invariant says that lifetimes and
  cleanup rows are in bijection, that every charge is the sum of what it pays for and within its
  limit, that both placement managers hold exactly the extents of the lifetimes, and that slot
  state, flags, queue bit, lease and scrub progress of an allocation agree.
\<close>

section \<open>Views\<close>

record lifetime =
  lt_generation :: u32
  lt_owner :: owner_account
  lt_logical :: u64
  lt_rounded :: u64
  lt_cleanup :: nat
  lt_extents :: "heap_extents option"

definition record_lifetime :: "u32 \<Rightarrow> heap_record \<Rightarrow> lifetime" where
  "record_lifetime g rec = \<lparr>lt_generation = g, lt_owner = hr_owner rec, lt_logical = hr_logical rec,
     lt_rounded = hr_rounded rec, lt_cleanup = hr_cleanup rec, lt_extents = hr_extents rec\<rparr>"

definition lifetime_of :: "pslot \<Rightarrow> lifetime option" where
  "lifetime_of s = map_option (record_lifetime (ps_generation s)) (heap_slot_record s)"

definition lifetimes :: "scoped_pointers \<Rightarrow> nat \<Rightarrow> lifetime option" where
  "lifetimes sp i = (if i < length (sps_slots sp) then lifetime_of (sps_slots sp ! i) else None)"

definition job_res :: "heap_ledger \<Rightarrow> nat \<Rightarrow> heap_reservation option" where
  "job_res h c = map_option cr_reservation (row_at (hl_cleanup h) c)"

definition tokens :: "heap_ledger \<Rightarrow> nat \<Rightarrow> owner_account option" where
  "tokens h i = map_option acc_token (row_at (hl_accounts h) i)"

section \<open>The invariant\<close>

definition identity_ok :: "nat \<Rightarrow> (nat \<Rightarrow> lifetime option) \<Rightarrow> (nat \<Rightarrow> heap_reservation option)
    \<Rightarrow> (nat \<Rightarrow> owner_account option) \<Rightarrow> u64 \<Rightarrow> u64 \<Rightarrow> bool" where
  "identity_ok n L J T next_owner next_job \<longleftrightarrow>
     n \<le> unat u32_max \<and> next_owner \<noteq> 0 \<and> next_job \<noteq> 0
     \<and> (\<forall>i t. T i = Some t \<longrightarrow> oa_index t = i \<and> oa_serial t \<noteq> 0 \<and> oa_serial t < next_owner)
     \<and> (\<forall>c r. J c = Some r \<longrightarrow> hv_generation r \<noteq> 0 \<and> hv_job r \<noteq> 0 \<and> hv_job r < next_job
          \<and> T (oa_index (hv_owner r)) = Some (hv_owner r)
          \<and> (\<exists>l. L (hv_slot r) = Some l \<and> lt_cleanup l = c \<and> lt_generation l = hv_generation r \<and> lt_owner l = hv_owner r))
     \<and> (\<forall>c c' r r'. J c = Some r \<and> J c' = Some r' \<and> hv_job r = hv_job r' \<longrightarrow> c = c')
     \<and> (\<forall>i l. L i = Some l \<longrightarrow> i < n \<and> lt_logical l \<noteq> 0 \<and> lt_logical l \<le> i64_max
          \<and> page_ceil (lt_logical l) = Inr (lt_rounded l)
          \<and> (\<exists>r. J (lt_cleanup l) = Some r \<and> hv_slot r = i))"

definition owned :: "owner_account \<Rightarrow> lifetime option \<Rightarrow> nat" where
  "owned t l = (case l of None \<Rightarrow> 0 | Some l \<Rightarrow> if lt_owner l = t then unat (lt_rounded l) else 0)"

definition hosted :: "owner_account \<Rightarrow> host_storage_record \<Rightarrow> nat" where
  "hosted t s = (if hsv_account (hsr_token s) = t then unat (hsr_rounded s) else 0)"

text \<open>What an account pays for: its lifetimes and its host storage.\<close>

definition usage :: "nat \<Rightarrow> (nat \<Rightarrow> lifetime option) \<Rightarrow> host_storage_record option list \<Rightarrow> owner_account \<Rightarrow> nat" where
  "usage n L S t = (\<Sum>i<n. owned t (L i)) + row_sum (hosted t) S"

definition charges_ok :: "nat \<Rightarrow> (nat \<Rightarrow> lifetime option) \<Rightarrow> heap_ledger \<Rightarrow> bool" where
  "charges_ok n L h \<longleftrightarrow>
     (\<forall>i a. row_at (hl_accounts h) i = Some a \<longrightarrow>
        unat (acc_reserved a) = usage n L (hl_host_storage h) (acc_token a) \<and> acc_reserved a \<le> acc_limit a)
     \<and> unat (hl_reserved_bytes h) = row_sum (\<lambda>a. unat (acc_reserved a)) (hl_accounts h)
     \<and> unat (hl_fixed_bytes h) + unat (hl_reserved_bytes h) \<le> unat (hl_limit h)
     \<and> (\<forall>i s. row_at (hl_host_storage h) i = Some s \<longrightarrow> hsv_row (hsr_token s) = i \<and> hsr_rounded s \<noteq> 0
          \<and> tokens h (oa_index (hsv_account (hsr_token s))) = Some (hsv_account (hsr_token s)))"

definition extents_held :: "heap_placement \<Rightarrow> (nat \<Rightarrow> lifetime option) \<Rightarrow> heap_reservation \<Rightarrow> bool" where
  "extents_held p L r \<longleftrightarrow> (\<exists>l e. L (hv_slot r) = Some l \<and> lt_extents l = Some e
     \<and> ext_size (he_physical e) = lt_rounded l \<and> ext_size (he_virtual e) = lt_rounded l
     \<and> manager_reservation_extent (hp_physical p) (reservation_key_of r) = Some (he_physical e)
     \<and> virtual_reservation_extent (hp_virtual_arenas p ! oa_index (hv_owner r)) (reservation_key_of r) = Some (he_virtual e))"

definition placed_ok :: "(nat \<Rightarrow> lifetime option) \<Rightarrow> (nat \<Rightarrow> heap_reservation option) \<Rightarrow> (nat \<Rightarrow> owner_account option)
    \<Rightarrow> nat \<Rightarrow> heap_placement option \<Rightarrow> bool" where
  "placed_ok L J T owners placement \<longleftrightarrow>
     (case placement of
        None \<Rightarrow> (\<forall>i l. L i = Some l \<longrightarrow> lt_extents l = None)
      | Some p \<Rightarrow> manager_ok (hp_physical p) \<and> length (hp_virtual_arenas p) = owners
          \<and> (\<forall>i < owners. arena_ok (hp_virtual_arenas p ! i)
               \<and> arena_owner (hp_virtual_arenas p ! i) = map_option oa_serial (T i))
          \<and> (\<forall>c r. J c = Some r \<longrightarrow> extents_held p L r)
          \<and> (\<forall>k e. manager_reservation_extent (hp_physical p) k = Some e \<longrightarrow> (\<exists>c r. J c = Some r \<and> reservation_key_of r = k))
          \<and> (\<forall>i k e. i < owners \<and> virtual_reservation_extent (hp_virtual_arenas p ! i) k = Some e
               \<longrightarrow> (\<exists>c r. J c = Some r \<and> reservation_key_of r = k \<and> oa_index (hv_owner r) = i)))"

definition lease_stage :: "slot_state \<Rightarrow> heap_record \<Rightarrow> cleanup_record \<Rightarrow> bool" where
  "lease_stage st rec job =
     (case cr_lease job of
        Unowned e \<Rightarrow> cr_progress job = ScrubPending
      | Held e w \<Rightarrow> e \<noteq> 0 \<and> pending_state st \<and> hr_ever_attached rec
      | Revoking e w \<Rightarrow> e \<noteq> 0 \<and> pending_state st \<and> hr_ever_attached rec)"

definition stage_ok :: "slot_state \<Rightarrow> heap_record \<Rightarrow> cleanup_record \<Rightarrow> bool \<Rightarrow> bool" where
  "stage_ok st rec job closed \<longleftrightarrow>
     slot_reserved_state st \<and> cr_queued job = pending_state st \<and> (closed \<longrightarrow> pending_state st)
     \<and> (st = SReserved \<longrightarrow> \<not> hr_published rec) \<and> (st = SLive \<longrightarrow> hr_published rec)
     \<and> (hr_published rec \<longrightarrow> hr_ever_attached rec) \<and> (st = SRetired \<longrightarrow> hr_ever_attached rec)
     \<and> progress_valid st rec job \<and> lease_stage st rec job"

definition stages_ok :: "scoped_pointers \<Rightarrow> bool" where
  "stages_ok sp \<longleftrightarrow>
     (\<forall>c job rec a. row_at (hl_cleanup (sps_heap sp)) c = Some job
        \<and> heap_slot_record (sps_slots sp ! hv_slot (cr_reservation job)) = Some rec
        \<and> row_at (hl_accounts (sps_heap sp)) (oa_index (hv_owner (cr_reservation job))) = Some a
        \<longrightarrow> stage_ok (ps_state (sps_slots sp ! hv_slot (cr_reservation job))) rec job (acc_closed a))"

definition workers_ok :: "heap_ledger \<Rightarrow> bool" where
  "workers_ok h \<longleftrightarrow> length (hl_workers h) \<le> unat u32_max \<and> hl_next_worker h \<noteq> 0
     \<and> (\<forall>i w. row_at (hl_workers h) i = Some w \<longrightarrow> cw_row (wr_handle w) = of_nat i + 1 \<and> cw_serial (wr_handle w) \<noteq> 0
          \<and> cw_serial (wr_handle w) < hl_next_worker h)
     \<and> (\<forall>c job w. row_at (hl_cleanup h) c = Some job \<and> lease_refers_to (cr_lease job) w \<longrightarrow>
          (\<exists>i row. row_at (hl_workers h) i = Some row \<and> wr_handle row = w))"

definition heap_inv :: "scoped_pointers \<Rightarrow> bool" where
  "heap_inv sp \<longleftrightarrow> (let h = sps_heap sp; n = length (sps_slots sp) in
     sp_wf sp \<and> identity_ok n (lifetimes sp) (job_res h) (tokens h) (hl_next_owner h) (hl_next_job h)
     \<and> charges_ok n (lifetimes sp) h
     \<and> placed_ok (lifetimes sp) (job_res h) (tokens h) (length (hl_accounts h)) (hl_placement h)
     \<and> stages_ok sp \<and> workers_ok h)"

lemma heap_invD:
  assumes "heap_inv sp"
  shows "sp_wf sp"
    and "identity_ok (length (sps_slots sp)) (lifetimes sp) (job_res (sps_heap sp)) (tokens (sps_heap sp))
      (hl_next_owner (sps_heap sp)) (hl_next_job (sps_heap sp))"
    and "charges_ok (length (sps_slots sp)) (lifetimes sp) (sps_heap sp)"
    and "placed_ok (lifetimes sp) (job_res (sps_heap sp)) (tokens (sps_heap sp)) (length (hl_accounts (sps_heap sp)))
      (hl_placement (sps_heap sp))"
    and "stages_ok sp" and "workers_ok (sps_heap sp)"
  using assms unfolding heap_inv_def Let_def by blast+

lemma heap_invI:
  assumes "sp_wf sp"
    and "identity_ok (length (sps_slots sp)) (lifetimes sp) (job_res (sps_heap sp)) (tokens (sps_heap sp))
      (hl_next_owner (sps_heap sp)) (hl_next_job (sps_heap sp))"
    and "charges_ok (length (sps_slots sp)) (lifetimes sp) (sps_heap sp)"
    and "placed_ok (lifetimes sp) (job_res (sps_heap sp)) (tokens (sps_heap sp)) (length (hl_accounts (sps_heap sp)))
      (hl_placement (sps_heap sp))"
    and "stages_ok sp" and "workers_ok (sps_heap sp)"
  shows "heap_inv sp"
  using assms unfolding heap_inv_def Let_def by blast

section \<open>The initial registry\<close>

lemma lifetimes_empty [simp]: "lifetimes (empty_registry l fixed) = (\<lambda>_. None)"
  by (auto simp: lifetimes_def empty_registry_def lifetime_of_def heap_slot_record_def SLOT_EMPTY_def fun_eq_iff)

lemma heap_inv_empty:
  assumes "with_limits sz l = Inr sp"
  shows "heap_inv sp"
proof -
  from assms obtain fixed where sp: "sp = empty_registry l fixed" "fixed \<le> rl_global_bytes l" "rl_slots l \<le> unat u32_max"
    by (auto simp: with_limits_def split: sum.splits if_splits)
  let ?h = "sps_heap sp"
  have j: "job_res ?h = (\<lambda>_. None)" "tokens ?h = (\<lambda>_. None)"
    by (auto simp: job_res_def tokens_def sp(1) empty_registry_def fun_eq_iff)
  show ?thesis
  proof (rule heap_invI)
    show "sp_wf sp" by (simp add: sp(1) sp_wf_new)
    show "identity_ok (length (sps_slots sp)) (lifetimes sp) (job_res ?h) (tokens ?h) (hl_next_owner ?h) (hl_next_job ?h)"
      unfolding j using sp(3) by (simp add: identity_ok_def sp(1)) (simp add: empty_registry_def)
    show "charges_ok (length (sps_slots sp)) (lifetimes sp) ?h"
      using sp(2) by (simp add: charges_ok_def sp(1) empty_registry_def word_le_nat_alt)
    show "placed_ok (lifetimes sp) (job_res ?h) (tokens ?h) (length (hl_accounts ?h)) (hl_placement ?h)"
      by (simp add: placed_ok_def sp(1)) (simp add: empty_registry_def)
    show "stages_ok sp" by (simp add: stages_ok_def sp(1) empty_registry_def)
    show "workers_ok ?h" by (simp add: workers_ok_def sp(1) empty_registry_def row_at_def)
  qed
qed

lemma heap_inv_placement:
  assumes "with_heap_placement sz limits pl = Some (Inr sp)"
  shows "heap_inv sp \<and> hl_workers (sps_heap sp) = [] \<and> hl_reserved_bytes (sps_heap sp) = 0
    \<and> hl_limit (sps_heap sp) = rl_global_bytes limits \<and> (\<forall>c. row_at (hl_cleanup (sps_heap sp)) c = None)"
proof -
  from assms obtain sp0 m p where s: "with_limits sz limits = Inr sp0"
    "m \<le> rl_global_bytes limits - hl_fixed_bytes (sps_heap sp0)"
    "heap_placement_new sz pl (rl_owners limits) = Some (Inr p)"
    "sp = sp0\<lparr>sps_heap := (sps_heap sp0)\<lparr>hl_fixed_bytes := hl_fixed_bytes (sps_heap sp0) + m, hl_placement := Some p\<rparr>\<rparr>"
    by (auto simp: with_heap_placement_def result_simps split: sum.splits)
  from s(1) obtain fixed where sp0: "sp0 = empty_registry limits fixed" "fixed \<le> rl_global_bytes limits"
    by (auto simp: with_limits_def split: sum.splits if_splits)
  note inv = heap_inv_empty[OF s(1)]
  have pp: "manager_ok (hp_physical p) \<and> (\<forall>k. manager_reservation_extent (hp_physical p) k = None)
      \<and> length (hp_virtual_arenas p) = rl_owners limits
      \<and> (\<forall>i < rl_owners limits. arena_ok (hp_virtual_arenas p ! i) \<and> arena_owner (hp_virtual_arenas p ! i) = None
          \<and> (\<forall>k. virtual_reservation_extent (hp_virtual_arenas p ! i) k = None))"
    using s(3) manager_bounded_new reusable_new
    by (fastforce simp: heap_placement_new_def result_simps split: sum.splits if_splits)
  have fix0: "hl_fixed_bytes (sps_heap sp0) = fixed" by (simp add: sp0(1) empty_registry_def)
  have h: "hl_accounts (sps_heap sp) = replicate (rl_owners limits) None" "hl_reserved_bytes (sps_heap sp) = 0"
    "hl_fixed_bytes (sps_heap sp) = fixed + m" "hl_limit (sps_heap sp) = rl_global_bytes limits"
    "hl_host_storage (sps_heap sp) = replicate (rl_cleanup limits) None"
    "hl_cleanup (sps_heap sp) = replicate (rl_cleanup limits) None" "hl_workers (sps_heap sp) = []"
    by (simp_all add: s(4) sp0(1) empty_registry_def)
  have fixed: "unat (fixed + m) \<le> unat (rl_global_bytes limits)"
    using s(2) sp0(2) unfolding fix0 by (simp add: word_le_nat_alt unat_sub_if' unat_word_ariths)
  have L: "lifetimes sp = (\<lambda>_. None)" by (simp add: s(4) sp0(1) lifetimes_def fun_eq_iff)
     (simp add: empty_registry_def lifetime_of_def heap_slot_record_def SLOT_EMPTY_def)
  show ?thesis
  proof (intro conjI heap_invI)
    show "sp_wf sp" using heap_invD(1)[OF inv] by (simp add: s(4) sp_wf_def)
    have "tokens (sps_heap sp) = tokens (sps_heap sp0)" "job_res (sps_heap sp) = job_res (sps_heap sp0)"
      "lifetimes sp = lifetimes sp0"
      by (simp_all add: s(4) tokens_def job_res_def lifetimes_def fun_eq_iff)
    then show "identity_ok (length (sps_slots sp)) (lifetimes sp) (job_res (sps_heap sp)) (tokens (sps_heap sp))
        (hl_next_owner (sps_heap sp)) (hl_next_job (sps_heap sp))"
      using heap_invD(2)[OF inv] by (simp add: s(4))
    show "charges_ok (length (sps_slots sp)) (lifetimes sp) (sps_heap sp)"
      using fixed by (simp add: charges_ok_def h)
    show "placed_ok (lifetimes sp) (job_res (sps_heap sp)) (tokens (sps_heap sp)) (length (hl_accounts (sps_heap sp)))
      (hl_placement (sps_heap sp))"
      using pp by (simp add: placed_ok_def s(4)) (simp add: sp0(1) empty_registry_def job_res_def tokens_def)
    show "stages_ok sp" by (simp add: stages_ok_def h)
    show "workers_ok (sps_heap sp)" by (simp add: workers_ok_def h) (simp add: s(4) sp0(1) empty_registry_def row_at_def)
  qed (simp_all add: h)
qed

lemma heap_inv_workers_new:
  assumes "with_heap_placement_and_workers sz limits pl capacity = Some (Inr sp)"
  shows "heap_inv sp"
proof -
  from assms obtain sp0 m where s: "with_heap_placement sz limits pl = Some (Inr sp0)" "capacity \<le> unat u32_max"
    "m \<le> rl_global_bytes limits - hl_fixed_bytes (sps_heap sp0)"
    "sp = sp0\<lparr>sps_heap := (sps_heap sp0)\<lparr>hl_fixed_bytes := hl_fixed_bytes (sps_heap sp0) + m,
       hl_workers := replicate capacity None\<rparr>\<rparr>"
    by (auto simp: with_heap_placement_and_workers_def result_simps split: if_splits)
  note inv = heap_inv_placement[OF s(1)]
  have same: "tokens (sps_heap sp) = tokens (sps_heap sp0)" "job_res (sps_heap sp) = job_res (sps_heap sp0)"
      "lifetimes sp = lifetimes sp0" "sps_slots sp = sps_slots sp0"
    by (simp_all add: s(4) tokens_def job_res_def lifetimes_def fun_eq_iff)
  have c: "charges_ok (length (sps_slots sp0)) (lifetimes sp0) (sps_heap sp0)" using inv heap_invD(3) by blast
  then have "unat (hl_fixed_bytes (sps_heap sp0)) \<le> unat (rl_global_bytes limits)"
    using inv by (simp add: charges_ok_def)
  then have fixed: "unat (hl_fixed_bytes (sps_heap sp0) + m) \<le> unat (rl_global_bytes limits)"
    using s(3) by (simp add: word_le_nat_alt unat_sub_if' unat_word_ariths)
  show ?thesis
  proof (rule heap_invI)
    show "sp_wf sp" using heap_invD(1)[of sp0] inv by (simp add: s(4) sp_wf_def)
    show "identity_ok (length (sps_slots sp)) (lifetimes sp) (job_res (sps_heap sp)) (tokens (sps_heap sp))
        (hl_next_owner (sps_heap sp)) (hl_next_job (sps_heap sp))"
      using heap_invD(2)[of sp0] inv unfolding same by (simp add: s(4))
    show "charges_ok (length (sps_slots sp)) (lifetimes sp) (sps_heap sp)"
      using c inv fixed unfolding same by (simp add: charges_ok_def s(4) tokens_def)
    show "placed_ok (lifetimes sp) (job_res (sps_heap sp)) (tokens (sps_heap sp)) (length (hl_accounts (sps_heap sp)))
      (hl_placement (sps_heap sp))"
      using heap_invD(4)[of sp0] inv unfolding same by (simp add: s(4))
    show "stages_ok sp" using inv by (simp add: stages_ok_def s(4))
    show "workers_ok (sps_heap sp)" using heap_invD(6)[of sp0] inv s(2) by (simp add: workers_ok_def s(4))
  qed
qed

section \<open>What a cleanup row guarantees\<close>

lemma account_of_Inr: "account_of sp t = Inr a \<longleftrightarrow> row_at (hl_accounts (sps_heap sp)) (oa_index t) = Some a \<and> acc_token a = t"
  by (auto simp: account_of_def result_simps split: option.splits if_splits)

lemma reservation_record_Inr:
  "reservation_record sp r = Inr rec \<longleftrightarrow>
     (\<exists>a. account_of sp (hv_owner r) = Inr a) \<and> hv_slot r < length (sps_slots sp)
     \<and> ps_generation (sps_slots sp ! hv_slot r) = hv_generation r
     \<and> slot_reserved_state (ps_state (sps_slots sp ! hv_slot r))
     \<and> heap_slot_record (sps_slots sp ! hv_slot r) = Some rec \<and> hr_owner rec = hv_owner r
     \<and> (\<exists>job. row_at (hl_cleanup (sps_heap sp)) (hr_cleanup rec) = Some job \<and> cr_reservation job = r)"
  by (auto simp: reservation_record_def result_simps split: option.splits)

lemma job_view:
  assumes inv: "heap_inv sp" and job: "row_at (hl_cleanup (sps_heap sp)) c = Some job"
  obtains rec a where "reservation_record sp (cr_reservation job) = Inr rec" "hr_cleanup rec = c"
    "account_of sp (hv_owner (cr_reservation job)) = Inr a"
    "stage_ok (ps_state (sps_slots sp ! hv_slot (cr_reservation job))) rec job (acc_closed a)"
    "hr_logical rec \<noteq> 0" "hr_logical rec \<le> i64_max" "page_ceil (hr_logical rec) = Inr (hr_rounded rec)"
    "hv_job (cr_reservation job) < hl_next_job (sps_heap sp)"
proof -
  let ?r = "cr_reservation job" and ?h = "sps_heap sp"
  note i = heap_invD(2)[OF inv, unfolded identity_ok_def]
  have J: "job_res ?h c = Some ?r" using job by (simp add: job_res_def)
  from i J have t: "tokens ?h (oa_index (hv_owner ?r)) = Some (hv_owner ?r)" "hv_job ?r < hl_next_job ?h" by blast+
  from i J obtain l where l: "lifetimes sp (hv_slot ?r) = Some l" "lt_cleanup l = c" "lt_generation l = hv_generation ?r"
    "lt_owner l = hv_owner ?r" by blast
  from l(1) i have lg: "lt_logical l \<noteq> 0" "lt_logical l \<le> i64_max" "page_ceil (lt_logical l) = Inr (lt_rounded l)" by blast+
  from l(1) obtain rec where rec: "hv_slot ?r < length (sps_slots sp)" "heap_slot_record (sps_slots sp ! hv_slot ?r) = Some rec"
    "l = record_lifetime (ps_generation (sps_slots sp ! hv_slot ?r)) rec"
    by (auto simp: lifetimes_def lifetime_of_def split: if_splits)
  from t(1) obtain a where a: "account_of sp (hv_owner ?r) = Inr a"
    by (auto simp: tokens_def account_of_Inr)
  have st: "stage_ok (ps_state (sps_slots sp ! hv_slot ?r)) rec job (acc_closed a)"
    using heap_invD(5)[OF inv] job rec(2) a unfolding stages_ok_def account_of_Inr by blast
  have "reservation_record sp ?r = Inr rec"
    unfolding reservation_record_Inr
    using a rec l job st by (auto simp: record_lifetime_def stage_ok_def)
  with that[of rec a] a st lg l rec t show thesis by (simp add: record_lifetime_def)
qed

lemma job_charge:
  assumes inv: "heap_inv sp" and "reservation_record sp r = Inr rec" "account_of sp (hv_owner r) = Inr a"
  shows "hr_rounded rec \<le> acc_reserved a \<and> acc_reserved a \<le> hl_reserved_bytes (sps_heap sp)"
proof -
  note r = assms(2)[unfolded reservation_record_Inr] and a = assms(3)[unfolded account_of_Inr]
  note ch = heap_invD(3)[OF inv, unfolded charges_ok_def]
  have l: "lifetimes sp (hv_slot r) = Some (record_lifetime (hv_generation r) rec)"
    using r by (simp add: lifetimes_def lifetime_of_def)
  have "owned (acc_token a) (lifetimes sp (hv_slot r)) \<le> (\<Sum>i<length (sps_slots sp). owned (acc_token a) (lifetimes sp i))"
    using r by (intro member_le_sum) auto
  then have "unat (hr_rounded rec) \<le> usage (length (sps_slots sp)) (lifetimes sp) (hl_host_storage (sps_heap sp)) (acc_token a)"
    using r a by (simp add: usage_def l owned_def record_lifetime_def)
  moreover have "unat (acc_reserved a) \<le> row_sum (\<lambda>a. unat (acc_reserved a)) (hl_accounts (sps_heap sp))"
    using a by (auto intro: row_sum_member[where f = "\<lambda>a. unat (acc_reserved a)"])
  moreover have "unat (acc_reserved a)
      = usage (length (sps_slots sp)) (lifetimes sp) (hl_host_storage (sps_heap sp)) (acc_token a)" using ch a by blast
  ultimately show ?thesis using ch by (simp add: word_le_nat_alt)
qed

lemma job_extents:
  assumes inv: "heap_inv sp" and "reservation_record sp r = Inr rec" "hl_placement (sps_heap sp) = Some p"
  obtains e where "reserved_extents sp r = Inr e" "hr_extents rec = Some e"
    "ext_size (he_physical e) = hr_rounded rec" "ext_size (he_virtual e) = hr_rounded rec"
    "manager_reservation_extent (hp_physical p) (reservation_key_of r) = Some (he_physical e)"
    "virtual_reservation_extent (hp_virtual_arenas p ! oa_index (hv_owner r)) (reservation_key_of r) = Some (he_virtual e)"
proof -
  note r = assms(2)[unfolded reservation_record_Inr]
  have "job_res (sps_heap sp) (hr_cleanup rec) = Some r" using r by (auto simp: job_res_def)
  then have "extents_held p (lifetimes sp) r" using heap_invD(4)[OF inv] by (simp add: placed_ok_def assms(3))
  then obtain l e where e: "lifetimes sp (hv_slot r) = Some l" "lt_extents l = Some e"
    "ext_size (he_physical e) = lt_rounded l" "ext_size (he_virtual e) = lt_rounded l"
    "manager_reservation_extent (hp_physical p) (reservation_key_of r) = Some (he_physical e)"
    "virtual_reservation_extent (hp_virtual_arenas p ! oa_index (hv_owner r)) (reservation_key_of r) = Some (he_virtual e)"
    unfolding extents_held_def by blast
  have l: "l = record_lifetime (hv_generation r) rec" using e(1) r by (auto simp: lifetimes_def lifetime_of_def)
  with e assms(2,3) have "reserved_extents sp r = Inr e" by (simp add: reserved_extents_def record_lifetime_def)
  with that[of e] e l show thesis by (simp add: record_lifetime_def)
qed

text \<open>Closing an attached allocation is never refused to its owner.\<close>

lemma closure_ready:
  assumes inv: "heap_inv sp" and rec: "reservation_record sp r = Inr rec" and a: "account_of sp (hv_owner r) = Inr a"
    and "hr_ever_attached rec" "hl_placement (sps_heap sp) = Some p"
  obtains e where "reserved_extents sp r = Inr e" "hr_extents rec = Some e" "ext_size (he_physical e) = hr_rounded rec"
    "prepare_attached_heap_closure sp r (acc_owner a) =
      Inr \<lparr>hcp_reservation = r, hcp_owner = acc_owner a, hcp_logical = hr_logical rec, hcp_writable = hr_writable rec,
           hcp_extents = e, hcp_cleanup = hr_cleanup rec, hcp_stage = ps_state (sps_slots sp ! hv_slot r),
           hcp_revision = hl_revision (sps_heap sp)\<rparr>"
proof -
  note r = rec[unfolded reservation_record_Inr]
  then obtain job where job: "row_at (hl_cleanup (sps_heap sp)) (hr_cleanup rec) = Some job" "cr_reservation job = r" by blast
  from inv job(1) obtain rec' a' where v: "reservation_record sp r = Inr rec'" "account_of sp (hv_owner r) = Inr a'"
    "stage_ok (ps_state (sps_slots sp ! hv_slot r)) rec' job (acc_closed a')"
    "hr_logical rec' \<noteq> 0" "hr_logical rec' \<le> i64_max" "page_ceil (hr_logical rec') = Inr (hr_rounded rec')"
    by (rule job_view) (use job(2) in auto)
  with rec a have eq: "rec' = rec" "a' = a" by simp_all
  from inv rec assms(5) obtain e where e: "reserved_extents sp r = Inr e" "hr_extents rec = Some e"
    "ext_size (he_physical e) = hr_rounded rec" "ext_size (he_virtual e) = hr_rounded rec" by (rule job_extents)
  have cust: "custody_consistent sp a rec e = Inr ()"
    using v(4-6) eq e(3,4) job_charge[OF inv rec a] by (simp add: custody_consistent_def)
  have nth: "hl_cleanup (sps_heap sp) ! hr_cleanup rec = Some job" using job(1) by (simp add: row_at_Some)
  have "prepare_attached_heap_closure sp r (acc_owner a) =
      Inr \<lparr>hcp_reservation = r, hcp_owner = acc_owner a, hcp_logical = hr_logical rec, hcp_writable = hr_writable rec,
           hcp_extents = e, hcp_cleanup = hr_cleanup rec, hcp_stage = ps_state (sps_slots sp ! hv_slot r),
           hcp_revision = hl_revision (sps_heap sp)\<rparr>"
    using v(3) assms(4) a rec e(1) cust eq nth
    by (simp add: prepare_attached_heap_closure_def Let_def stage_ok_def)
  with that[of e] e show thesis by blast
qed

section \<open>Frames\<close>

lemma heap_inv_same_heap:
  assumes inv: "heap_inv sp" and wf: "sp_wf sp'" and len: "length (sps_slots sp') = length (sps_slots sp)"
    and same: "\<And>i. i < length (sps_slots sp) \<Longrightarrow>
      heap_slot_record (sps_slots sp ! i) \<noteq> None \<or> heap_slot_record (sps_slots sp' ! i) \<noteq> None \<Longrightarrow>
      sps_slots sp' ! i = sps_slots sp ! i"
    and h: "sps_heap sp' = (sps_heap sp)\<lparr>hl_revision := rv\<rparr>"
  shows "heap_inv sp'"
proof -
  have L: "lifetimes sp' = lifetimes sp"
  proof
    fix i
    show "lifetimes sp' i = lifetimes sp i"
      using same[of i] len by (cases "heap_slot_record (sps_slots sp ! i)"; cases "heap_slot_record (sps_slots sp' ! i)")
        (auto simp: lifetimes_def lifetime_of_def)
  qed
  have v: "job_res (sps_heap sp') = job_res (sps_heap sp)" "tokens (sps_heap sp') = tokens (sps_heap sp)"
    by (simp_all add: h job_res_def tokens_def fun_eq_iff)
  have "stages_ok sp'"
    unfolding stages_ok_def
  proof (intro allI impI, elim conjE)
    fix c job rec a
    assume job: "row_at (hl_cleanup (sps_heap sp')) c = Some job"
      and rec: "heap_slot_record (sps_slots sp' ! hv_slot (cr_reservation job)) = Some rec"
      and a: "row_at (hl_accounts (sps_heap sp')) (oa_index (hv_owner (cr_reservation job))) = Some a"
    have job': "row_at (hl_cleanup (sps_heap sp)) c = Some job" using job h by simp
    from inv job' obtain rec0 where "hv_slot (cr_reservation job) < length (sps_slots sp)"
      by (rule job_view) (auto simp: reservation_record_Inr)
    from same[OF this] rec have "sps_slots sp' ! hv_slot (cr_reservation job) = sps_slots sp ! hv_slot (cr_reservation job)" by simp
    then show "stage_ok (ps_state (sps_slots sp' ! hv_slot (cr_reservation job))) rec job (acc_closed a)"
      using heap_invD(5)[OF inv] job' rec a h unfolding stages_ok_def by auto
  qed
  moreover have "charges_ok (length (sps_slots sp')) (lifetimes sp') (sps_heap sp')"
    using heap_invD(3)[OF inv] unfolding L len by (simp add: charges_ok_def h tokens_def)
  moreover have "workers_ok (sps_heap sp')" using heap_invD(6)[OF inv] by (simp add: workers_ok_def h)
  ultimately show ?thesis
    using heap_invD[OF inv] wf L v len by (intro heap_invI) (simp_all add: h)
qed

text \<open>
  Moving one allocation to another stage: its slot state, the flags of its record and its cleanup
  row change, its identity does not.
\<close>

definition restage :: "scoped_pointers \<Rightarrow> nat \<Rightarrow> slot_state \<Rightarrow> heap_record \<Rightarrow> cleanup_record \<Rightarrow> scoped_pointers" where
  "restage sp c st rec job =
     (let i = hv_slot (cr_reservation job) in
      ledger_update (\<lambda>h. h\<lparr>hl_cleanup := (hl_cleanup h)[c := Some job]\<rparr>)
        (sp\<lparr>sps_slots := (sps_slots sp)[i := (sps_slots sp ! i)\<lparr>ps_state := st, ps_record := RHeap rec\<rparr>]\<rparr>))"

lemma sp_wf_slot_update:
  assumes "sp_wf sp" "i < length (sps_slots sp)" "slot_trimmable s \<or> i < sps_active_slots_end sp"
  shows "sp_wf (sp\<lparr>sps_slots := (sps_slots sp)[i := s]\<rparr>)"
  using assms unfolding sp_wf_def by (auto simp: nth_list_update)

lemma sp_wf_ledger [simp]: "sp_wf (sp\<lparr>sps_heap := h\<rparr>) = sp_wf sp" "sp_wf (ledger_update f sp) = sp_wf sp"
  by (simp_all add: sp_wf_def ledger_update_def)

lemma active_slot:
  assumes "sp_wf sp" "i < length (sps_slots sp)" "\<not> slot_trimmable (sps_slots sp ! i)"
  shows "i < sps_active_slots_end sp"
  using assms unfolding sp_wf_def by (metis not_less)

lemma heap_inv_restage:
  assumes inv: "heap_inv sp" and job: "row_at (hl_cleanup (sps_heap sp)) c = Some job"
    and rec: "reservation_record sp (cr_reservation job) = Inr rec" and a: "account_of sp (hv_owner (cr_reservation job)) = Inr a"
    and job': "cr_reservation job' = cr_reservation job"
    and rec': "record_lifetime g rec' = record_lifetime g rec"
    and st: "stage_ok st rec' job' (acc_closed a)"
    and w: "\<And>w. lease_refers_to (cr_lease job') w \<Longrightarrow> \<not> lease_refers_to (cr_lease job) w \<Longrightarrow>
      \<exists>i row. row_at (hl_workers (sps_heap sp)) i = Some row \<and> wr_handle row = w"
  shows "heap_inv (restage sp c st rec' job')"
proof -
  let ?r = "cr_reservation job" and ?sp = "restage sp c st rec' job'" and ?i = "hv_slot (cr_reservation job)"
  note r = rec[unfolded reservation_record_Inr]
  have sl: "sps_slots ?sp = (sps_slots sp)[?i := (sps_slots sp ! ?i)\<lparr>ps_state := st, ps_record := RHeap rec'\<rparr>]"
    by (simp add: restage_def ledger_update_def Let_def job')
  have h: "sps_heap ?sp = heap_ledger_advance ((sps_heap sp)\<lparr>hl_cleanup := (hl_cleanup (sps_heap sp))[c := Some job']\<rparr>)"
    by (simp add: restage_def ledger_update_def Let_def)
  have clt: "c < length (hl_cleanup (sps_heap sp))" using job by (simp add: row_at_Some)
  have L: "lifetimes ?sp = lifetimes sp"
    using r rec' by (auto simp: fun_eq_iff lifetimes_def sl lifetime_of_def heap_slot_record_def record_lifetime_def nth_list_update)
  have J: "job_res (sps_heap ?sp) = job_res (sps_heap sp)" using job job' clt by (auto simp: fun_eq_iff job_res_def h)
  have T: "tokens (sps_heap ?sp) = tokens (sps_heap sp)" by (simp add: fun_eq_iff tokens_def h)
  have act: "?i < sps_active_slots_end sp"
    using r heap_invD(1)[OF inv] by (intro active_slot) (auto simp: slot_reserved_state_def slot_trimmable_def)
  have wf: "sp_wf ?sp" unfolding restage_def Let_def job' sp_wf_ledger
    using heap_invD(1)[OF inv] r act by (intro sp_wf_slot_update) auto
  have stages: "stages_ok ?sp"
    unfolding stages_ok_def
  proof (intro allI impI, elim conjE)
    fix d j rc b
    assume j: "row_at (hl_cleanup (sps_heap ?sp)) d = Some j"
      and rc: "heap_slot_record (sps_slots ?sp ! hv_slot (cr_reservation j)) = Some rc"
      and b: "row_at (hl_accounts (sps_heap ?sp)) (oa_index (hv_owner (cr_reservation j))) = Some b"
    show "stage_ok (ps_state (sps_slots ?sp ! hv_slot (cr_reservation j))) rc j (acc_closed b)"
    proof (cases "d = c")
      case True
      then have "j = job'" using j clt by (simp add: h)
      moreover have "sps_slots ?sp ! ?i = (sps_slots sp ! ?i)\<lparr>ps_state := st, ps_record := RHeap rec'\<rparr>" using r by (simp add: sl)
      moreover from calculation have "rc = rec'" using rc job' by (auto simp: heap_slot_record_def)
      moreover have "b = a" using b a job' \<open>j = job'\<close> by (simp add: h account_of_Inr)
      ultimately show ?thesis using st job' by simp
    next
      case False
      then have j': "row_at (hl_cleanup (sps_heap sp)) d = Some j" using j by (simp add: h)
      from inv j' obtain rcj where v: "reservation_record sp (cr_reservation j) = Inr rcj" "hr_cleanup rcj = d" by (rule job_view)
      have "hr_cleanup rec = c" using inv job by (rule job_view) (use rec in auto)
      moreover have "heap_slot_record (sps_slots sp ! hv_slot (cr_reservation j)) = Some rcj"
        "heap_slot_record (sps_slots sp ! ?i) = Some rec" using v(1)[unfolded reservation_record_Inr] r by blast+
      ultimately have "hv_slot (cr_reservation j) \<noteq> ?i" using v(2) False by force
      then have "sps_slots ?sp ! hv_slot (cr_reservation j) = sps_slots sp ! hv_slot (cr_reservation j)" by (simp add: sl)
      then show ?thesis using heap_invD(5)[OF inv] j' rc b unfolding stages_ok_def by (auto simp: h)
    qed
  qed
  have wk: "workers_ok (sps_heap ?sp)"
    using heap_invD(6)[OF inv] w job clt unfolding workers_ok_def by (auto simp: h split: if_splits) blast
  have ch: "charges_ok (length (sps_slots ?sp)) (lifetimes ?sp) (sps_heap ?sp)"
    using heap_invD(3)[OF inv] unfolding L charges_ok_def T by (simp add: h sl)
  show ?thesis
    using wf stages wk ch heap_invD(2,4)[OF inv] unfolding heap_inv_def Let_def L J T by (simp add: h sl)
qed

end
