(* ===== verification/Heap_Ledger_Steps.thy ===== *)
theory Heap_Ledger_Steps
  imports Heap_Ledger_Inv
begin

text \<open>
  Every operation of the heap ledger keeps its invariant: the operations that move one allocation
  to its next stage, then those that add or remove allocations, accounts, workers and host storage,
  and the local-pointer operations that share the registry.
\<close>

section \<open>Operations that move one allocation\<close>

lemma slot_job:
  assumes inv: "heap_inv sp" and "i < length (sps_slots sp)" "heap_slot_record (sps_slots sp ! i) = Some rec"
  obtains job where "row_at (hl_cleanup (sps_heap sp)) (hr_cleanup rec) = Some job" "hv_slot (cr_reservation job) = i"
    "reservation_record sp (cr_reservation job) = Inr rec"
proof -
  have "lifetimes sp i = Some (record_lifetime (ps_generation (sps_slots sp ! i)) rec)"
    using assms(2,3) by (simp add: lifetimes_def lifetime_of_def)
  then have "\<exists>r. job_res (sps_heap sp) (hr_cleanup rec) = Some r \<and> hv_slot r = i"
    using heap_invD(2)[OF inv] unfolding identity_ok_def by (fastforce simp: record_lifetime_def)
  then obtain job where job: "row_at (hl_cleanup (sps_heap sp)) (hr_cleanup rec) = Some job" "hv_slot (cr_reservation job) = i"
    by (auto simp: job_res_def)
  from inv job(1) obtain rec' where "reservation_record sp (cr_reservation job) = Inr rec'" by (rule job_view)
  moreover from this have "rec' = rec" using assms(3) job(2) by (simp add: reservation_record_Inr)
  ultimately show thesis using that job by blast
qed

lemma restage_job:
  assumes "row_at (hl_cleanup (sps_heap sp)) c = Some job" "reservation_record sp (cr_reservation job) = Inr rec"
    and "cr_reservation job' = cr_reservation job"
  shows "ledger_update (\<lambda>h. h\<lparr>hl_cleanup := (hl_cleanup h)[c := Some job']\<rparr>) sp
    = restage sp c (ps_state (sps_slots sp ! hv_slot (cr_reservation job))) rec job'"
proof -
  have "ps_record (sps_slots sp ! hv_slot (cr_reservation job)) = RHeap rec"
    using assms(2) by (auto simp: reservation_record_Inr heap_slot_record_def split: slot_record.splits)
  then have "(sps_slots sp ! hv_slot (cr_reservation job))\<lparr>ps_state := ps_state (sps_slots sp ! hv_slot (cr_reservation job)),
      ps_record := RHeap rec\<rparr> = sps_slots sp ! hv_slot (cr_reservation job)" by simp
  then show ?thesis using assms(3) by (simp add: restage_def Let_def)
qed

lemma update_job_row: "row_at (hl_cleanup h) c = Some job \<Longrightarrow> update_job c f h = h\<lparr>hl_cleanup := (hl_cleanup h)[c := Some (f job)]\<rparr>"
  by (simp add: update_job_def row_at_Some)

lemma restage_slot:
  assumes "row_at (hl_cleanup (sps_heap sp)) c = Some job"
  shows "ledger_update id (sp\<lparr>sps_slots := (sps_slots sp)[hv_slot (cr_reservation job) :=
      (sps_slots sp ! hv_slot (cr_reservation job))\<lparr>ps_state := st, ps_record := RHeap rec\<rparr>]\<rparr>) = restage sp c st rec job"
proof -
  have "(hl_cleanup (sps_heap sp))[c := Some job] = hl_cleanup (sps_heap sp)" using assms by (simp add: row_at_Some list_update_same_conv)
  then show ?thesis by (simp add: restage_def Let_def ledger_update_def)
qed

lemma heap_slot_RHeap: "heap_slot_record s = Some rec \<longleftrightarrow> ps_record s = RHeap rec"
  by (auto simp: heap_slot_record_def split: slot_record.splits)

lemma slot_record_same: "ps_record s = RHeap rec \<Longrightarrow> s\<lparr>ps_state := st, ps_record := RHeap rec\<rparr> = s\<lparr>ps_state := st\<rparr>"
  by (cases s) simp

lemma slot_update_swap: "s\<lparr>ps_record := rc, ps_state := st\<rparr> = s\<lparr>ps_state := st, ps_record := rc\<rparr>"
  by (cases s) simp

lemma closing_stage:
  assumes "stage_ok st rec job closed"
  shows "stage_ok SClosing rec (job\<lparr>cr_queued := True\<rparr>) closed \<or> st = SRetired"
  using assms unfolding stage_ok_def
  by (auto simp: slot_reserved_state_def pending_state_def progress_valid_def lease_stage_def
      split: heap_scrub_progress.splits job_lease.splits)

lemma heap_inv_close_stage:
  assumes inv: "heap_inv sp" and job: "row_at (hl_cleanup (sps_heap sp)) c = Some job"
    and nr: "ps_state (sps_slots sp ! hv_slot (cr_reservation job)) \<noteq> SRetired"
  shows "heap_inv (ledger_update (update_job c (\<lambda>j. j\<lparr>cr_queued := True\<rparr>))
           (set_slot_state (hv_slot (cr_reservation job)) SClosing sp))"
proof -
  from inv job obtain rec a where v: "reservation_record sp (cr_reservation job) = Inr rec"
    "account_of sp (hv_owner (cr_reservation job)) = Inr a"
    "stage_ok (ps_state (sps_slots sp ! hv_slot (cr_reservation job))) rec job (acc_closed a)" by (rule job_view)
  let ?job = "job\<lparr>cr_queued := True\<rparr>"
  have "ps_record (sps_slots sp ! hv_slot (cr_reservation job)) = RHeap rec"
    using v(1) by (simp add: reservation_record_Inr heap_slot_RHeap)
  then have "ledger_update (update_job c (\<lambda>j. j\<lparr>cr_queued := True\<rparr>)) (set_slot_state (hv_slot (cr_reservation job)) SClosing sp)
      = restage sp c SClosing rec ?job"
    using job by (simp add: restage_def Let_def ledger_update_def set_slot_state_def update_job_row slot_record_same)
  moreover have "heap_inv (restage sp c SClosing rec ?job)"
    by (rule heap_inv_restage[OF inv job v(1,2)]) (use closing_stage[OF v(3)] nr in auto)
  ultimately show ?thesis by simp
qed

lemma heap_inv_close_heap:
  assumes inv: "heap_inv sp" and "close_heap sp owner p = Some (r, sp')"
  shows "heap_inv sp'"
proof (cases "close_plan sp owner p")
  case (Inl e)
  then show ?thesis using assms by (simp add: close_heap_def)
next
  case (Inr rec)
  then have r: "sp_slot p < length (sps_slots sp)" "heap_slot_record (sps_slots sp ! sp_slot p) = Some rec"
    "ps_state (sps_slots sp ! sp_slot p) = SLive" by (auto simp: close_plan_def result_simps)
  from inv r(1,2) obtain job where "row_at (hl_cleanup (sps_heap sp)) (hr_cleanup rec) = Some job"
    "hv_slot (cr_reservation job) = sp_slot p" by (rule slot_job)
  then show ?thesis using heap_inv_close_stage[OF inv, of "hr_cleanup rec" job] assms(2) Inr r(3)
    by (auto simp: close_heap_def)
qed

lemma heap_inv_closure:
  assumes inv: "heap_inv sp" and c: "commit_attached_heap_closure sp plan = Some (out, sp')"
  shows "heap_inv sp'"
proof -
  from c obtain job where "row_at (hl_cleanup (sps_heap sp)) (hcp_cleanup plan) = Some job"
    "cr_reservation job = hcp_reservation plan"
    "ps_state (sps_slots sp ! hv_slot (cr_reservation job)) = hcp_stage plan"
    by (auto simp: commit_attached_heap_closure_def Let_def split: option.splits if_splits)
  with heap_inv_close_stage[OF inv this(1)] c inv show ?thesis
    by (auto simp: commit_attached_heap_closure_def Let_def split: option.splits if_splits)
qed

lemma heap_inv_advance: "heap_inv sp \<Longrightarrow> heap_inv (ledger_update id sp)"
  by (rule heap_inv_same_heap[of sp]) (auto simp: ledger_update_def heap_ledger_advance_def heap_invD(1))

lemma heap_inv_attachment:
  assumes inv: "heap_inv sp" and p: "prepare_heap_attachment sp r owner expected = Inr plan"
    and c: "commit_heap_attachment sp plan = Some sp'"
  shows "heap_inv sp'"
proof -
  from p have pl: "hap_reservation plan = r" and rr: "\<exists>rec. reservation_record sp r = Inr rec"
    by (auto simp: prepare_heap_attachment_def prepare_heap_private_def Let_def result_simps)
  from rr obtain rec where rec: "reservation_record sp r = Inr rec" by blast
  then obtain job where job: "row_at (hl_cleanup (sps_heap sp)) (hr_cleanup rec) = Some job" "cr_reservation job = r"
    by (auto simp: reservation_record_Inr)
  from inv job(1) obtain rec' a where v: "reservation_record sp (cr_reservation job) = Inr rec'"
    "account_of sp (hv_owner (cr_reservation job)) = Inr a"
    "stage_ok (ps_state (sps_slots sp ! hv_slot (cr_reservation job))) rec' job (acc_closed a)" by (rule job_view)
  have eq: "rec' = rec" using v(1) rec job(2) by simp
  let ?rec = "rec\<lparr>hr_ever_attached := True\<rparr>" and ?st = "ps_state (sps_slots sp ! hv_slot (cr_reservation job))"
  have "sp' = ledger_update id (set_slot_record (hv_slot r) (RHeap ?rec) sp)"
    using c rec pl by (auto simp: commit_heap_attachment_def reservation_record_Inr split: if_splits)
  also have "\<dots> = restage sp (hr_cleanup rec) ?st ?rec job"
    unfolding restage_slot[OF job(1), symmetric] job(2) by (simp add: set_slot_record_def)
  finally have sp': "sp' = restage sp (hr_cleanup rec) ?st ?rec job" .
  have "stage_ok ?st ?rec job (acc_closed a)"
    using v(3) eq by (auto simp: stage_ok_def progress_valid_def lease_stage_def split: job_lease.splits heap_scrub_progress.splits)
  then show ?thesis unfolding sp'
    by (intro heap_inv_restage[where job' = job and rec' = ?rec and g = 0, OF inv job(1) v(1,2)]) (auto simp: eq record_lifetime_def)
qed

lemma heap_inv_publication:
  assumes inv: "heap_inv sp" and p: "prepare_heap_initialization sp r owner expected = Inr plan"
    and c: "commit_heap_image_publication sp plan writable = Some (ptr, sp')"
  shows "heap_inv sp'"
proof -
  from p obtain a0 where pl: "hap_reservation plan = r" and rr: "\<exists>rec. reservation_record sp r = Inr rec"
    and a0: "account_of sp (hv_owner r) = Inr a0" "\<not> acc_closed a0"
    by (auto simp: prepare_heap_initialization_def prepare_heap_private_def Let_def result_simps)
  from rr obtain rec where rec: "reservation_record sp r = Inr rec" by blast
  then obtain job where job: "row_at (hl_cleanup (sps_heap sp)) (hr_cleanup rec) = Some job" "cr_reservation job = r"
    by (auto simp: reservation_record_Inr)
  from inv job(1) obtain rec' a where v: "reservation_record sp (cr_reservation job) = Inr rec'"
    "account_of sp (hv_owner (cr_reservation job)) = Inr a"
    "stage_ok (ps_state (sps_slots sp ! hv_slot (cr_reservation job))) rec' job (acc_closed a)" by (rule job_view)
  have eq: "rec' = rec" "a = a0" using v(1,2) rec job(2) a0(1) by simp_all
  let ?rec = "rec\<lparr>hr_published := True, hr_writable := writable\<rparr>"
  have rs: "heap_slot_record (sps_slots sp ! hv_slot r) = Some rec" using rec by (simp add: reservation_record_Inr)
  have st: "ps_state (sps_slots sp ! hv_slot r) = SReserved" "hr_ever_attached rec"
    "sp' = ledger_update id (set_slot_state (hv_slot r) SLive (set_slot_record (hv_slot r) (RHeap ?rec) sp))"
    using c rs pl by (auto simp: commit_heap_image_publication_def Let_def split: if_splits)
  have "hv_slot r < length (sps_slots sp)" using rec by (simp add: reservation_record_Inr)
  then have sp': "sp' = restage sp (hr_cleanup rec) SLive ?rec job"
    unfolding st(3) restage_slot[OF job(1), symmetric] job(2)
    by (simp add: set_slot_record_def set_slot_state_def slot_update_swap)
  have "stage_ok SLive ?rec job (acc_closed a)"
    using v(3) eq a0(2) st(1,2) job(2)
    by (auto simp: stage_ok_def progress_valid_def lease_stage_def slot_reserved_state_def pending_state_def
        split: job_lease.splits heap_scrub_progress.splits)
  then show ?thesis unfolding sp'
    by (intro heap_inv_restage[where job' = job and rec' = ?rec and g = 0, OF inv job(1) v(1,2)]) (auto simp: eq record_lifetime_def)
qed

text \<open>What the preparation of a closure and of a leased operation has checked.\<close>

lemma closure_Inr:
  assumes "prepare_attached_heap_closure sp r owner = Inr plan"
  obtains a rec job where "account_of sp (hv_owner r) = Inr a" "acc_owner a = owner" "reservation_record sp r = Inr rec"
    "hr_ever_attached rec" "row_at (hl_cleanup (sps_heap sp)) (hr_cleanup rec) = Some job" "cr_reservation job = r"
    "hcp_reservation plan = r" "hcp_stage plan = ps_state (sps_slots sp ! hv_slot r)" "hcp_owner plan = owner"
    "reserved_extents sp r = Inr (hcp_extents plan)" "ext_size (he_physical (hcp_extents plan)) = hr_rounded rec"
    "hcp_logical plan = hr_logical rec" "hcp_writable plan = hr_writable rec" "hcp_cleanup plan = hr_cleanup rec"
    "hcp_revision plan = hl_revision (sps_heap sp)" "hr_logical rec \<le> hr_rounded rec"
proof -
  from assms obtain a rec where p: "account_of sp (hv_owner r) = Inr a" "acc_owner a = owner" "reservation_record sp r = Inr rec"
    "hr_ever_attached rec" "hcp_reservation plan = r" "hcp_stage plan = ps_state (sps_slots sp ! hv_slot r)"
    "hcp_owner plan = owner" "reserved_extents sp r = Inr (hcp_extents plan)"
    "ext_size (he_physical (hcp_extents plan)) = hr_rounded rec"
    "hcp_logical plan = hr_logical rec" "hcp_writable plan = hr_writable rec" "hcp_cleanup plan = hr_cleanup rec"
    "hcp_revision plan = hl_revision (sps_heap sp)" "page_ceil (hr_logical rec) = Inr (hr_rounded rec)"
    by (auto simp: prepare_attached_heap_closure_def Let_def custody_consistent_def result_simps)
  moreover from p(3) obtain job where "row_at (hl_cleanup (sps_heap sp)) (hr_cleanup rec) = Some job" "cr_reservation job = r"
    by (auto simp: reservation_record_Inr)
  moreover have "hr_logical rec \<le> hr_rounded rec" using page_ceil_Inr[OF p(14)] by (simp add: word_le_nat_alt)
  ultimately show thesis using that by blast
qed

lemma worker_of_Inr:
  assumes "worker_of sp handle = Inr w"
  shows "row_at (hl_workers (sps_heap sp)) (unat (cw_row handle) - 1) = Some w \<and> wr_handle w = handle
    \<and> cw_serial handle \<noteq> 0"
proof -
  from assms obtain index where i: "checked_sub (cw_row handle) 1 = Some index"
    "row_at (hl_workers (sps_heap sp)) (unat index) = Some w" "wr_handle w = handle" "cw_serial handle \<noteq> 0"
    by (auto simp: worker_of_def result_simps split: option.splits if_splits)
  from i(1) have "unat index = unat (cw_row handle) - 1" by (simp add: checked_sub_eq_Some)
  with i show ?thesis by simp
qed

lemma lease_Inr:
  assumes "prepare_heap_worker_lease sp lease identity owner = Inr plan"
  obtains rec job w where "prepare_attached_heap_closure sp (cls_reservation lease) owner = Inr plan"
    "reservation_record sp (cls_reservation lease) = Inr rec"
    "row_at (hl_cleanup (sps_heap sp)) (hr_cleanup rec) = Some job" "cr_reservation job = cls_reservation lease"
    "cr_lease job = Held (cls_epoch lease) (cls_worker lease)" "cls_epoch lease \<noteq> 0"
    "pending_state (ps_state (sps_slots sp ! hv_slot (cls_reservation lease)))"
    "worker_of sp (cls_worker lease) = Inr w" "wr_state w = WorkerActive" "wr_identity w = identity"
proof -
  from assms obtain rec job w where p: "prepare_attached_heap_closure sp (cls_reservation lease) owner = Inr plan"
    "reservation_record sp (cls_reservation lease) = Inr rec" "hl_cleanup (sps_heap sp) ! hr_cleanup rec = Some job"
    "cr_lease job = Held (cls_epoch lease) (cls_worker lease)" "cls_epoch lease \<noteq> 0"
    "pending_state (ps_state (sps_slots sp ! hv_slot (cls_reservation lease)))"
    "worker_of sp (cls_worker lease) = Inr w" "wr_state w = WorkerActive" "wr_identity w = identity"
    by (auto simp: prepare_heap_worker_lease_def current_worker_def Let_def result_simps)
  from p(2,3) have "row_at (hl_cleanup (sps_heap sp)) (hr_cleanup rec) = Some job" "cr_reservation job = cls_reservation lease"
    by (auto simp: reservation_record_Inr row_at_Some)
  with p that show thesis by blast
qed

lemma heap_inv_update_job:
  assumes inv: "heap_inv sp" and job: "row_at (hl_cleanup (sps_heap sp)) c = Some job" and "cr_reservation job' = cr_reservation job"
    and st: "\<And>rec closed. reservation_record sp (cr_reservation job) = Inr rec \<Longrightarrow>
      stage_ok (ps_state (sps_slots sp ! hv_slot (cr_reservation job))) rec job closed \<Longrightarrow>
      stage_ok (ps_state (sps_slots sp ! hv_slot (cr_reservation job))) rec job' closed"
    and w: "\<And>w. lease_refers_to (cr_lease job') w \<Longrightarrow> \<not> lease_refers_to (cr_lease job) w \<Longrightarrow>
      \<exists>i row. row_at (hl_workers (sps_heap sp)) i = Some row \<and> wr_handle row = w"
  shows "heap_inv (ledger_update (\<lambda>h. h\<lparr>hl_cleanup := (hl_cleanup h)[c := Some job']\<rparr>) sp)"
proof -
  from inv job obtain rec a where v: "reservation_record sp (cr_reservation job) = Inr rec"
    "account_of sp (hv_owner (cr_reservation job)) = Inr a"
    "stage_ok (ps_state (sps_slots sp ! hv_slot (cr_reservation job))) rec job (acc_closed a)" by (rule job_view)
  show ?thesis unfolding restage_job[OF job v(1) assms(3)]
    by (rule heap_inv_restage[OF inv job v(1,2) assms(3) refl st[OF v(1,3)] w])
qed

lemma heap_inv_claim:
  assumes inv: "heap_inv sp" and p: "prepare_heap_worker_claim sp worker identity r owner expected = Inr plan"
    and c: "commit_heap_worker_claim sp plan = Some (lease, sp')"
  shows "heap_inv sp'"
proof -
  from p obtain closure rec job epoch w where pl: "prepare_attached_heap_closure sp r owner = Inr closure"
    "reservation_record sp r = Inr rec" "hl_cleanup (sps_heap sp) ! hr_cleanup rec = Some job"
    "pending_state (ps_state (sps_slots sp ! hv_slot r))" "cr_progress job = ScrubPending"
    "checked_add epoch 1 = Some (cls_epoch (wcp_lease plan))" "wcp_cleanup plan = hr_cleanup rec"
    "cls_worker (wcp_lease plan) = worker" "worker_of sp worker = Inr w"
    by (auto simp: prepare_heap_worker_claim_def Let_def current_worker_def result_simps)
  have job: "row_at (hl_cleanup (sps_heap sp)) (hr_cleanup rec) = Some job" "cr_reservation job = r"
    using pl(2,3) by (auto simp: reservation_record_Inr row_at_Some)
  have att: "hr_ever_attached rec" using pl(1) by (rule closure_Inr) (use pl(2) in auto)
  have ep: "cls_epoch (wcp_lease plan) \<noteq> 0" using pl(6) by (auto simp: checked_add_eq_Some)
  let ?job = "job\<lparr>cr_lease := Held (cls_epoch (wcp_lease plan)) worker\<rparr>"
  have "sp' = ledger_update (\<lambda>h. h\<lparr>hl_cleanup := (hl_cleanup h)[hr_cleanup rec := Some ?job]\<rparr>) sp"
    using c job(1) pl(7,8) by (auto simp: commit_heap_worker_claim_def ledger_update_def update_job_row split: if_splits)
  moreover have "heap_inv (ledger_update (\<lambda>h. h\<lparr>hl_cleanup := (hl_cleanup h)[hr_cleanup rec := Some ?job]\<rparr>) sp)"
  proof (rule heap_inv_update_job[OF inv job(1)])
    fix rec' closed assume "reservation_record sp (cr_reservation job) = Inr rec'"
      "stage_ok (ps_state (sps_slots sp ! hv_slot (cr_reservation job))) rec' job closed"
    then show "stage_ok (ps_state (sps_slots sp ! hv_slot (cr_reservation job))) rec' ?job closed"
      using pl(2,4,5) job(2) att ep by (simp add: stage_ok_def progress_valid_def lease_stage_def)
  next
    fix w' assume "lease_refers_to (cr_lease ?job) w'"
    then show "\<exists>i row. row_at (hl_workers (sps_heap sp)) i = Some row \<and> wr_handle row = w'"
      using worker_of_Inr[OF pl(9)] by auto
  qed simp
  ultimately show ?thesis by simp
qed

lemma heap_inv_recovery:
  assumes inv: "heap_inv sp" and p: "prepare_worker_transition sp lease owner recover = Inr plan"
    and c: "commit_heap_worker_recovery sp plan = Some sp'"
  shows "heap_inv sp'"
proof -
  let ?r = "cls_reservation lease"
  from p obtain rec where pl: "reservation_record sp ?r = Inr rec" "hl_cleanup (sps_heap sp) ! hr_cleanup rec = Some (wrp_prior plan)"
    "cls_epoch lease \<noteq> 0" "cr_lease (wrp_prior plan) = (if recover then Revoking else Held) (cls_epoch lease) (cls_worker lease)"
    "wrp_cleanup plan = hr_cleanup rec"
    "wrp_next_lease plan = (if recover then Unowned (cls_epoch lease) else Revoking (cls_epoch lease) (cls_worker lease))"
    "recover \<or> wrp_next_version plan = cr_version (wrp_prior plan)"
    by (auto simp: prepare_worker_transition_def Let_def result_simps split: if_splits prod.splits)
  let ?job = "(wrp_prior plan)\<lparr>cr_lease := wrp_next_lease plan, cr_version := wrp_next_version plan,
     cr_progress := (case wrp_next_lease plan of Unowned _ \<Rightarrow> ScrubPending | _ \<Rightarrow> cr_progress (wrp_prior plan))\<rparr>"
  have job: "row_at (hl_cleanup (sps_heap sp)) (hr_cleanup rec) = Some (wrp_prior plan)" "cr_reservation (wrp_prior plan) = ?r"
    using pl(1,2) by (auto simp: reservation_record_Inr row_at_Some)
  have "sp' = ledger_update (\<lambda>h. h\<lparr>hl_cleanup := (hl_cleanup h)[hr_cleanup rec := Some ?job]\<rparr>) sp"
    using c job(1) pl(5) by (auto simp: commit_heap_worker_recovery_def ledger_update_def update_job_row split: if_splits)
  moreover have "heap_inv (ledger_update (\<lambda>h. h\<lparr>hl_cleanup := (hl_cleanup h)[hr_cleanup rec := Some ?job]\<rparr>) sp)"
  proof (rule heap_inv_update_job[OF inv job(1)])
    fix rec' closed assume st: "stage_ok (ps_state (sps_slots sp ! hv_slot (cr_reservation (wrp_prior plan)))) rec' (wrp_prior plan) closed"
    then show "stage_ok (ps_state (sps_slots sp ! hv_slot (cr_reservation (wrp_prior plan)))) rec' ?job closed"
      using pl(3,4,6,7) by (cases recover; cases "cr_progress (wrp_prior plan)")
        (simp_all add: stage_ok_def progress_valid_def lease_stage_def)
  next
    fix w' assume "lease_refers_to (cr_lease ?job) w'" "\<not> lease_refers_to (cr_lease (wrp_prior plan)) w'"
    then show "\<exists>i row. row_at (hl_workers (sps_heap sp)) i = Some row \<and> wr_handle row = w'"
      using pl(4,6) by (simp split: if_splits)
  qed simp
  ultimately show ?thesis by simp
qed

lemma heap_inv_retirement:
  assumes inv: "heap_inv sp" and c: "commit_heap_retirement sp plan = Some sp'"
  shows "heap_inv sp'"
proof -
  let ?r = "cls_reservation (hrp_lease plan)"
  from c obtain job where job: "row_at (hl_cleanup (sps_heap sp)) (hrp_cleanup plan) = Some job" "cr_reservation job = ?r"
    "cr_lease job = Held (cls_epoch (hrp_lease plan)) (cls_worker (hrp_lease plan))"
    "ps_state (sps_slots sp ! hv_slot ?r) = SClosing" "sp' = ledger_update id (set_slot_state (hv_slot ?r) SRetired sp)"
    by (auto simp: commit_heap_retirement_def Let_def split: if_splits option.splits)
  from inv job(1) obtain rec a where v: "reservation_record sp (cr_reservation job) = Inr rec"
    "account_of sp (hv_owner (cr_reservation job)) = Inr a"
    "stage_ok (ps_state (sps_slots sp ! hv_slot (cr_reservation job))) rec job (acc_closed a)" by (rule job_view)
  have "ps_record (sps_slots sp ! hv_slot ?r) = RHeap rec" using v(1) job(2) by (simp add: reservation_record_Inr heap_slot_RHeap)
  then have sp': "sp' = restage sp (hrp_cleanup plan) SRetired rec job"
    unfolding job(5) restage_slot[OF job(1), symmetric] job(2) by (simp add: set_slot_state_def slot_record_same)
  have "stage_ok SRetired rec job (acc_closed a)"
    using v(3) job(2,3,4) by (auto simp: stage_ok_def progress_valid_def lease_stage_def slot_reserved_state_def pending_state_def
        split: heap_scrub_progress.splits)
  then show ?thesis unfolding sp' by (intro heap_inv_restage[OF inv job(1) v(1,2) refl refl]) auto
qed

lemma retired_cleanup_Inr:
  assumes "prepare_retired_cleanup sp lease identity owner expected = Inr plan"
  obtains rec where "prepare_heap_worker_lease sp lease identity owner = Inr (cup_closure plan)"
    "reservation_record sp (cls_reservation lease) = Inr rec"
    "row_at (hl_cleanup (sps_heap sp)) (hr_cleanup rec) = Some (cup_prior plan)"
    "cr_reservation (cup_prior plan) = cls_reservation lease"
    "cup_cleanup plan = hr_cleanup rec" "cup_next plan = cup_prior plan" "cup_lease plan = lease"
    "ps_state (sps_slots sp ! hv_slot (cls_reservation lease)) = SRetired"
    "\<And>s. expected = Some s \<Longrightarrow> s = \<lparr>hcs_lease = lease, hcs_job = cup_prior plan\<rparr>"
    "cup_revision plan = hl_revision (sps_heap sp)"
proof -
  from assms obtain rec where p: "prepare_heap_worker_lease sp lease identity owner = Inr (cup_closure plan)"
    "hcp_is_retired (cup_closure plan)" "reservation_record sp (cls_reservation lease) = Inr rec"
    "hl_cleanup (sps_heap sp) ! hr_cleanup rec = Some (cup_prior plan)"
    "cup_cleanup plan = hr_cleanup rec" "cup_next plan = cup_prior plan" "cup_lease plan = lease"
    "\<And>s. expected = Some s \<Longrightarrow> s = \<lparr>hcs_lease = lease, hcs_job = cup_prior plan\<rparr>"
    "cup_revision plan = hl_revision (sps_heap sp)"
    by (auto simp: prepare_retired_cleanup_def result_simps split: option.splits)
  from p(1) have "prepare_attached_heap_closure sp (cls_reservation lease) owner = Inr (cup_closure plan)" by (rule lease_Inr)
  then have "ps_state (sps_slots sp ! hv_slot (cls_reservation lease)) = SRetired"
    by (rule closure_Inr) (use p(2) in \<open>auto simp: hcp_is_retired_def\<close>)
  moreover have "row_at (hl_cleanup (sps_heap sp)) (hr_cleanup rec) = Some (cup_prior plan)"
    "cr_reservation (cup_prior plan) = cls_reservation lease" using p(3,4) by (auto simp: reservation_record_Inr row_at_Some)
  ultimately show thesis using that p by blast
qed

lemma heap_inv_scrub_row:
  assumes inv: "heap_inv sp" and r: "prepare_retired_cleanup sp lease identity owner expected = Inr plan0"
    and job: "cr_reservation job' = cr_reservation (cup_prior plan0)" "cr_lease job' = cr_lease (cup_prior plan0)"
      "cr_queued job' = cr_queued (cup_prior plan0)"
    and prog: "\<And>rec. reservation_record sp (cls_reservation lease) = Inr rec \<Longrightarrow> progress_valid SRetired rec job'"
  shows "heap_inv (ledger_update (\<lambda>h. h\<lparr>hl_cleanup := (hl_cleanup h)[cup_cleanup plan0 := Some job']\<rparr>) sp)"
proof -
  from r obtain rec where p: "prepare_heap_worker_lease sp lease identity owner = Inr (cup_closure plan0)"
    "reservation_record sp (cls_reservation lease) = Inr rec"
    "row_at (hl_cleanup (sps_heap sp)) (hr_cleanup rec) = Some (cup_prior plan0)"
    "cr_reservation (cup_prior plan0) = cls_reservation lease" "cup_cleanup plan0 = hr_cleanup rec"
    "ps_state (sps_slots sp ! hv_slot (cls_reservation lease)) = SRetired" by (rule retired_cleanup_Inr)
  from p(1) have held: "cr_lease (cup_prior plan0) = Held (cls_epoch lease) (cls_worker lease)"
    by (rule lease_Inr) (use p(2,3) in auto)
  show ?thesis unfolding p(5)
  proof (rule heap_inv_update_job[OF inv p(3) job(1)])
    fix rec' closed assume "reservation_record sp (cr_reservation (cup_prior plan0)) = Inr rec'"
      "stage_ok (ps_state (sps_slots sp ! hv_slot (cr_reservation (cup_prior plan0)))) rec' (cup_prior plan0) closed"
    then show "stage_ok (ps_state (sps_slots sp ! hv_slot (cr_reservation (cup_prior plan0)))) rec' job' closed"
      using prog job p(4,6) held by (simp add: stage_ok_def lease_stage_def)
  qed (simp add: job(2))
qed

lemma heap_inv_scrub_begin:
  assumes inv: "heap_inv sp" and p: "prepare_heap_scrub_begin sp lease identity owner = Inr plan"
    and c: "commit_heap_scrub sp plan = Some (status, sp')"
  shows "heap_inv sp'"
proof -
  from p obtain plan0 where r: "prepare_retired_cleanup sp lease identity owner None = Inr plan0"
    "plan = plan0\<lparr>cup_next := (cup_next plan0)\<lparr>cr_progress := Scrubbing 0\<rparr>\<rparr>"
    by (auto simp: prepare_heap_scrub_begin_def result_simps)
  from r(1) obtain rec where rec: "cup_next plan0 = cup_prior plan0" "reservation_record sp (cls_reservation lease) = Inr rec"
    "row_at (hl_cleanup (sps_heap sp)) (hr_cleanup rec) = Some (cup_prior plan0)" by (rule retired_cleanup_Inr)
  from inv rec(3) obtain rec' where "hr_logical rec' \<noteq> 0" "page_ceil (hr_logical rec') = Inr (hr_rounded rec')"
    "reservation_record sp (cr_reservation (cup_prior plan0)) = Inr rec'" by (rule job_view)
  moreover have "cr_reservation (cup_prior plan0) = cls_reservation lease" using r(1) by (rule retired_cleanup_Inr)
  ultimately have "hr_rounded rec \<noteq> 0" using page_ceil_Inr rec(2) by (metis Inr_inject)
  then have "progress_valid SRetired rec ((cup_prior plan0)\<lparr>cr_progress := Scrubbing 0\<rparr>)"
    by (simp add: progress_valid_def word_gt_0)
  with heap_inv_scrub_row[OF inv r(1), of "(cup_prior plan0)\<lparr>cr_progress := Scrubbing 0\<rparr>"] rec(2) c
  show ?thesis by (auto simp: commit_heap_scrub_def r(2) rec(1) split: if_splits)
qed

lemma mod16_add: "a mod 16 = 0 \<Longrightarrow> b mod 16 = 0 \<Longrightarrow> unat a + unat b < 2 ^ 64 \<Longrightarrow> (a + b) mod 16 = (0::u64)"
  by (simp add: word_unat_eq_iff unat_mod unat_plus_exact mod_add_eq[symmetric])

lemma scrubbing_done_Some: "scrubbing_done p = Some n \<longleftrightarrow> p = Scrubbing n"
  by (cases p) (auto simp: scrubbing_done_def)

lemma heap_inv_scrub_chunk:
  assumes inv: "heap_inv sp" and p: "prepare_heap_scrub_chunk sp status0 identity owner amount = Inr plan"
    and c: "commit_heap_scrub sp plan = Some (status, sp')"
  shows "heap_inv sp'"
proof -
  let ?lease = "hcs_lease status0"
  from p obtain plan0 prev v s where r: "prepare_retired_cleanup sp ?lease identity owner (Some status0) = Inr plan0"
    "cr_progress (cup_prior plan0) = Scrubbing prev" "amount \<noteq> 0" "amount mod 16 = 0"
    "amount \<le> ext_size (he_physical (hcp_extents (cup_closure plan0))) - prev"
    "checked_add (cr_version (cup_prior plan0)) 1 = Some v" "checked_add (cr_sequence (cup_prior plan0)) 1 = Some s"
    "plan0\<lparr>cup_next := (cup_next plan0)\<lparr>cr_version := v, cr_sequence := s,
       cr_progress := (if prev + amount = ext_size (he_physical (hcp_extents (cup_closure plan0))) then ScrubClean
          else Scrubbing (prev + amount))\<rparr>\<rparr> = plan"
    unfolding prepare_heap_scrub_chunk_def Let_def result_simps scrubbing_done_Some sum.inject
    by (elim exE conjE) (rule that; assumption)
  from r(1) obtain rec where rec: "cup_next plan0 = cup_prior plan0" "reservation_record sp (cls_reservation ?lease) = Inr rec"
    "prepare_heap_worker_lease sp ?lease identity owner = Inr (cup_closure plan0)"
    "row_at (hl_cleanup (sps_heap sp)) (hr_cleanup rec) = Some (cup_prior plan0)"
    "cr_reservation (cup_prior plan0) = cls_reservation ?lease" by (rule retired_cleanup_Inr)
  from rec(3) have "prepare_attached_heap_closure sp (cls_reservation ?lease) owner = Inr (cup_closure plan0)" by (rule lease_Inr)
  then have size: "ext_size (he_physical (hcp_extents (cup_closure plan0))) = hr_rounded rec"
    by (rule closure_Inr) (use rec(2) in auto)
  from inv rec(4) obtain rec' and a :: account where "reservation_record sp (cr_reservation (cup_prior plan0)) = Inr rec'"
    "stage_ok (ps_state (sps_slots sp ! hv_slot (cr_reservation (cup_prior plan0)))) rec' (cup_prior plan0) (acc_closed a)"
    by (rule job_view)
  then have dn: "prev < hr_rounded rec" "prev mod 16 = 0" using rec(2,5) r(2) by (auto simp: stage_ok_def progress_valid_def)
  have am: "unat prev + unat amount \<le> unat (hr_rounded rec)"
    using dn(1) r(5) unfolding size by (simp add: word_le_nat_alt word_less_nat_alt unat_sub_if')
  then have lt: "unat prev + unat amount < 2 ^ 64"
    by (rule le_less_trans) (rule order.strict_trans2[OF unsigned_less], simp)
  then have sum: "unat (prev + amount) = unat prev + unat amount" by (simp add: unat_plus_exact)
  have "(prev + amount) mod 16 = 0" using mod16_add[OF dn(2) r(4) lt] by simp
  moreover have "v \<noteq> 0" "s \<noteq> 0" using r(6,7) by (auto simp: checked_add_eq_Some)
  moreover have "prev + amount \<noteq> hr_rounded rec \<Longrightarrow> prev + amount < hr_rounded rec"
    using am sum by (simp add: word_less_nat_alt word_unat_eq_iff)
  ultimately have "progress_valid SRetired rec (cup_next plan)" by (simp add: progress_valid_def r(8)[symmetric] rec(1) size)
  with heap_inv_scrub_row[OF inv r(1), of "cup_next plan"] rec c
  show ?thesis by (auto simp: commit_heap_scrub_def r(8)[symmetric] split: if_splits)
qed

end
