(* ===== verification/Heap_Ledger_Alloc.thy ===== *)
theory Heap_Ledger_Alloc
  imports Heap_Ledger_Steps
begin

text \<open>
  Reserving and discharging an allocation keeps the ledger invariant: the identity, the charges and
  both placement managers move together.  A reservation, an abort and a release never panic on a
  registry that satisfies the invariant.
\<close>

section \<open>Sums over slots\<close>

lemma sum_fun_upd:
  fixes g :: "'a \<Rightarrow> nat" and i n :: nat
  assumes "i < n"
  shows "(\<Sum>j<n. g ((L(i := v)) j)) + g (L i) = (\<Sum>j<n. g (L j)) + g v"
proof -
  have f: "finite {..<n}" "i \<in> {..<n}" using assms by auto
  have "(\<Sum>j<n. g ((L(i := v)) j)) = g v + (\<Sum>j\<in>{..<n} - {i}. g (L j))"
    unfolding sum.remove[OF f] by (simp cong: sum.cong_simp)
  moreover have "(\<Sum>j<n. g (L j)) = g (L i) + (\<Sum>j\<in>{..<n} - {i}. g (L j))" unfolding sum.remove[OF f] by simp
  ultimately show ?thesis by simp
qed

lemma usage_slot:
  assumes "i < n" shows "usage n (L(i := v)) S t + owned t (L i) = usage n L S t + owned t v"
  using sum_fun_upd[OF assms, of "owned t" L v] by (simp add: usage_def)

lemma usage_host:
  assumes "i < length S"
  shows "usage n L (S[i := v]) t + (case S ! i of None \<Rightarrow> 0 | Some s \<Rightarrow> hosted t s)
    = usage n L S t + (case v of None \<Rightarrow> 0 | Some s \<Rightarrow> hosted t s)"
  using row_sum_update[OF assms, of "hosted t" v] by (simp add: usage_def)

section \<open>Charging and refunding an account\<close>

lemma account_charge_accounts:
  "row_at (hl_accounts h) (oa_index t) = Some a \<Longrightarrow>
     account_charge t f h = h\<lparr>hl_accounts := (hl_accounts h)[oa_index t := Some (a\<lparr>acc_reserved := f (acc_reserved a)\<rparr>)],
       hl_reserved_bytes := f (hl_reserved_bytes h)\<rparr>"
  by (simp add: account_charge_def row_at_Some)

definition same_limits :: "heap_ledger \<Rightarrow> heap_ledger \<Rightarrow> bool" where
  "same_limits h h' \<longleftrightarrow> hl_fixed_bytes h' = hl_fixed_bytes h \<and> hl_limit h' = hl_limit h"

definition host_rows_ok :: "heap_ledger \<Rightarrow> host_storage_record option list \<Rightarrow> bool" where
  "host_rows_ok h S \<longleftrightarrow> (\<forall>i s. row_at S i = Some s \<longrightarrow> hsv_row (hsr_token s) = i \<and> hsr_rounded s \<noteq> 0
     \<and> tokens h (oa_index (hsv_account (hsr_token s))) = Some (hsv_account (hsr_token s)))"

lemma charges_okD:
  assumes "charges_ok n L h"
  shows "\<And>i a. row_at (hl_accounts h) i = Some a \<Longrightarrow> unat (acc_reserved a) = usage n L (hl_host_storage h) (acc_token a)"
    "\<And>i a. row_at (hl_accounts h) i = Some a \<Longrightarrow> acc_reserved a \<le> acc_limit a"
    "unat (hl_reserved_bytes h) = row_sum (\<lambda>a. unat (acc_reserved a)) (hl_accounts h)"
    "unat (hl_fixed_bytes h) + unat (hl_reserved_bytes h) \<le> unat (hl_limit h)"
    "host_rows_ok h (hl_host_storage h)"
  using assms unfolding charges_ok_def host_rows_ok_def by blast+

lemma charges_okI:
  assumes "\<And>i a. row_at (hl_accounts h) i = Some a \<Longrightarrow>
      unat (acc_reserved a) = usage n L (hl_host_storage h) (acc_token a) \<and> acc_reserved a \<le> acc_limit a"
    "unat (hl_reserved_bytes h) = row_sum (\<lambda>a. unat (acc_reserved a)) (hl_accounts h)"
    "unat (hl_fixed_bytes h) + unat (hl_reserved_bytes h) \<le> unat (hl_limit h)"
    "host_rows_ok h (hl_host_storage h)"
  shows "charges_ok n L h"
  using assms unfolding charges_ok_def host_rows_ok_def by blast

lemma tokens_charge:
  assumes "row_at (hl_accounts h) i = Some a" "hl_accounts h' = (hl_accounts h)[i := Some (a\<lparr>acc_reserved := x\<rparr>)]"
  shows "tokens h' = tokens h"
  using assms by (auto simp: tokens_def fun_eq_iff)

lemma reserved_update:
  assumes "row_at (hl_accounts h) i = Some a" "hl_accounts h' = (hl_accounts h)[i := Some (a\<lparr>acc_reserved := x\<rparr>)]"
  shows "row_sum (\<lambda>a. unat (acc_reserved a)) (hl_accounts h') + unat (acc_reserved a)
    = row_sum (\<lambda>a. unat (acc_reserved a)) (hl_accounts h) + unat x"
  using row_sum_update[of i "hl_accounts h" "\<lambda>a. unat (acc_reserved a)" "Some (a\<lparr>acc_reserved := x\<rparr>)"] assms
  by (simp add: row_at_Some)

lemma le_minus_unat: "(w::u64) \<le> l - r \<Longrightarrow> r \<le> l \<Longrightarrow> unat r + unat w \<le> unat l"
  by (simp add: word_le_nat_alt unat_sub_if')

lemma unat_plus_le: "unat (a::u64) + unat b \<le> unat (c::u64) \<Longrightarrow> unat (a + b) = unat a + unat b"
  by (rule unat_plus_exact) (use unsigned_less[of c] in \<open>auto intro: le_less_trans\<close>)

lemma charges_add:
  assumes ch: "charges_ok n L h" and idx: "\<And>i b. row_at (hl_accounts h) i = Some b \<Longrightarrow> oa_index (acc_token b) = i"
    and a: "row_at (hl_accounts h) (oa_index t) = Some a" "acc_token a = t"
    and fits: "unat (acc_reserved a) + unat w \<le> unat (acc_limit a)"
      "unat (hl_fixed_bytes h) + unat (hl_reserved_bytes h) + unat w \<le> unat (hl_limit h)"
    and h': "hl_accounts h' = (hl_accounts h)[oa_index t := Some (a\<lparr>acc_reserved := acc_reserved a + w\<rparr>)]"
      "hl_reserved_bytes h' = hl_reserved_bytes h + w" "same_limits h h'"
    and use: "\<And>t'. usage n L' (hl_host_storage h') t' = usage n L (hl_host_storage h) t' + (if t' = t then unat w else 0)"
    and host: "host_rows_ok h (hl_host_storage h')"
  shows "charges_ok n L' h'"
proof (rule charges_okI)
  have sum: "unat (acc_reserved a + w) = unat (acc_reserved a) + unat w" "unat (hl_reserved_bytes h + w) = unat (hl_reserved_bytes h) + unat w"
    using fits unat_plus_le[of "acc_reserved a" w "acc_limit a"] unat_plus_le[of "hl_reserved_bytes h" w "hl_limit h"] by auto
  fix i b assume b: "row_at (hl_accounts h') i = Some b"
  show "unat (acc_reserved b) = usage n L' (hl_host_storage h') (acc_token b) \<and> acc_reserved b \<le> acc_limit b"
  proof (cases "i = oa_index t")
    case True
    then have "b = a\<lparr>acc_reserved := acc_reserved a + w\<rparr>" using b a(1) by (simp add: h' row_at_Some)
    then show ?thesis using use sum fits charges_okD(1)[OF ch a(1)] a(2) by (simp add: word_le_nat_alt)
  next
    case False
    then have b': "row_at (hl_accounts h) i = Some b" using b by (simp add: h')
    then have "acc_token b \<noteq> t" using idx False by blast
    then show ?thesis using use charges_okD(1,2)[OF ch b'] by simp
  qed
next
  show "unat (hl_reserved_bytes h') = row_sum (\<lambda>a. unat (acc_reserved a)) (hl_accounts h')"
    using reserved_update[OF a(1) h'(1)] charges_okD(3)[OF ch] fits h'(2)
      unat_plus_le[of "acc_reserved a" w "acc_limit a"] unat_plus_le[of "hl_reserved_bytes h" w "hl_limit h"] by simp
  show "unat (hl_fixed_bytes h') + unat (hl_reserved_bytes h') \<le> unat (hl_limit h')"
    using fits(2) h'(2,3) unat_plus_le[of "hl_reserved_bytes h" w "hl_limit h"] by (simp add: same_limits_def)
  show "host_rows_ok h' (hl_host_storage h')" using host tokens_charge[OF a(1) h'(1)] by (simp add: host_rows_ok_def)
qed

lemma charges_sub:
  assumes ch: "charges_ok n L h" and idx: "\<And>i b. row_at (hl_accounts h) i = Some b \<Longrightarrow> oa_index (acc_token b) = i"
    and a: "row_at (hl_accounts h) (oa_index t) = Some a" "acc_token a = t"
    and h': "hl_accounts h' = (hl_accounts h)[oa_index t := Some (a\<lparr>acc_reserved := acc_reserved a - w\<rparr>)]"
      "hl_reserved_bytes h' = hl_reserved_bytes h - w" "same_limits h h'"
    and use: "\<And>t'. usage n L' (hl_host_storage h') t' + (if t' = t then unat w else 0) = usage n L (hl_host_storage h) t'"
    and host: "host_rows_ok h (hl_host_storage h')"
  shows "charges_ok n L' h'"
proof (rule charges_okI)
  have le: "unat w \<le> unat (acc_reserved a)" using use[of t] charges_okD(1)[OF ch a(1)] a(2) by simp
  have le2: "unat (acc_reserved a) \<le> unat (hl_reserved_bytes h)"
    unfolding charges_okD(3)[OF ch] using row_sum_member[OF a(1), of "\<lambda>a. unat (acc_reserved a)"] by simp
  have sub: "unat (acc_reserved a - w) = unat (acc_reserved a) - unat w"
    "unat (hl_reserved_bytes h - w) = unat (hl_reserved_bytes h) - unat w"
    using le le2 by (auto intro!: unat_minus_exact simp: word_le_nat_alt)
  fix i b assume b: "row_at (hl_accounts h') i = Some b"
  show "unat (acc_reserved b) = usage n L' (hl_host_storage h') (acc_token b) \<and> acc_reserved b \<le> acc_limit b"
  proof (cases "i = oa_index t")
    case True
    then have "b = a\<lparr>acc_reserved := acc_reserved a - w\<rparr>" using b a(1) by (simp add: h' row_at_Some)
    moreover have "usage n L' (hl_host_storage h') t = usage n L (hl_host_storage h) t - unat w" using use[of t] by simp
    ultimately show ?thesis using sub le charges_okD(1,2)[OF ch a(1)] a(2) by (simp add: word_le_nat_alt)
  next
    case False
    then have b': "row_at (hl_accounts h) i = Some b" using b by (simp add: h')
    then have "acc_token b \<noteq> t" using idx False by blast
    then show ?thesis using use[of "acc_token b"] charges_okD(1,2)[OF ch b'] by simp
  qed
next
  have le: "unat w \<le> unat (acc_reserved a)" using use[of t] charges_okD(1)[OF ch a(1)] a(2) by simp
  have le2: "unat (acc_reserved a) \<le> unat (hl_reserved_bytes h)"
    unfolding charges_okD(3)[OF ch] using row_sum_member[OF a(1), of "\<lambda>a. unat (acc_reserved a)"] by simp
  have sub: "unat (acc_reserved a - w) = unat (acc_reserved a) - unat w"
    "unat (hl_reserved_bytes h - w) = unat (hl_reserved_bytes h) - unat w"
    using le le2 by (auto intro!: unat_minus_exact simp: word_le_nat_alt)
  show "unat (hl_reserved_bytes h') = row_sum (\<lambda>a. unat (acc_reserved a)) (hl_accounts h')"
    using reserved_update[OF a(1) h'(1)] charges_okD(3)[OF ch] h'(2) sub le le2 by simp
  show "unat (hl_fixed_bytes h') + unat (hl_reserved_bytes h') \<le> unat (hl_limit h')"
    using charges_okD(4)[OF ch] h'(2,3) sub by (simp add: same_limits_def)
  show "host_rows_ok h' (hl_host_storage h')" using host tokens_charge[OF a(1) h'(1)] by (simp add: host_rows_ok_def)
qed

section \<open>Identities\<close>

lemma identity_okD:
  assumes "identity_ok n L J T no nj"
  shows "\<And>i t. T i = Some t \<Longrightarrow> oa_index t = i \<and> oa_serial t \<noteq> 0 \<and> oa_serial t < no"
    "\<And>c r. J c = Some r \<Longrightarrow> hv_generation r \<noteq> 0 \<and> hv_job r \<noteq> 0 \<and> hv_job r < nj \<and> T (oa_index (hv_owner r)) = Some (hv_owner r)"
    "\<And>c r. J c = Some r \<Longrightarrow>
      \<exists>l. L (hv_slot r) = Some l \<and> lt_cleanup l = c \<and> lt_generation l = hv_generation r \<and> lt_owner l = hv_owner r"
    "\<And>c c' r r'. J c = Some r \<Longrightarrow> J c' = Some r' \<Longrightarrow> hv_job r = hv_job r' \<Longrightarrow> c = c'"
    "\<And>i l. L i = Some l \<Longrightarrow> i < n \<and> lt_logical l \<noteq> 0 \<and> lt_logical l \<le> i64_max \<and> page_ceil (lt_logical l) = Inr (lt_rounded l)"
    "\<And>i l. L i = Some l \<Longrightarrow> \<exists>r. J (lt_cleanup l) = Some r \<and> hv_slot r = i"
    "n \<le> unat u32_max" "no \<noteq> 0" "nj \<noteq> 0"
  using assms unfolding identity_ok_def by blast+

lemma identity_add:
  assumes id: "identity_ok n L J T no nj" and "i < n" "L i = None" "J c = None" "T (oa_index t) = Some t"
    and r: "r = \<lparr>hv_slot = i, hv_generation = g, hv_job = nj, hv_owner = t\<rparr>" "g \<noteq> 0" "nj \<noteq> u64_max"
    and l: "lt_cleanup l = c" "lt_generation l = g" "lt_owner l = t" "lt_logical l \<noteq> 0" "lt_logical l \<le> i64_max"
      "page_ceil (lt_logical l) = Inr (lt_rounded l)"
  shows "identity_ok n (L(i \<mapsto> l)) (J(c \<mapsto> r)) T no (nj + 1)"
proof -
  note I = identity_okD[OF id]
  have up: "unat (nj + 1) = unat nj + 1" using r(3) unat_succ_u64[of nj] by simp
  have up': "nj < nj + 1" "nj + 1 \<noteq> 0" using up by (auto simp: word_less_nat_alt)
  have old: "hv_slot r' \<noteq> i \<and> hv_job r' \<noteq> nj \<and> hv_job r' < nj + 1" if j: "J c' = Some r'" for c' r'
    using I(2,3)[OF j] assms(3) up by (auto simp: word_less_nat_alt)
  show ?thesis unfolding identity_ok_def
  proof (intro conjI allI impI)
    fix c' r' assume j: "(J(c \<mapsto> r)) c' = Some r'"
    have "hv_generation r' \<noteq> 0 \<and> hv_job r' \<noteq> 0 \<and> hv_job r' < nj + 1 \<and> T (oa_index (hv_owner r')) = Some (hv_owner r')
      \<and> (\<exists>l'. (L(i \<mapsto> l)) (hv_slot r') = Some l' \<and> lt_cleanup l' = c' \<and> lt_generation l' = hv_generation r' \<and> lt_owner l' = hv_owner r')"
    proof (cases "c' = c")
      case True
      then show ?thesis using j r l assms(5) up' I(9) by auto
    next
      case False
      then have jj: "J c' = Some r'" using j by simp
      then show ?thesis using I(2,3)[OF jj] old[OF jj] by simp
    qed
    then show "hv_generation r' \<noteq> 0" "hv_job r' \<noteq> 0" "hv_job r' < nj + 1" "T (oa_index (hv_owner r')) = Some (hv_owner r')"
      "\<exists>l'. (L(i \<mapsto> l)) (hv_slot r') = Some l' \<and> lt_cleanup l' = c' \<and> lt_generation l' = hv_generation r' \<and> lt_owner l' = hv_owner r'"
      by blast+
  next
    fix c' c'' r' r'' assume j: "(J(c \<mapsto> r)) c' = Some r' \<and> (J(c \<mapsto> r)) c'' = Some r'' \<and> hv_job r' = hv_job r''"
    show "c' = c''"
    proof (cases "c' = c \<or> c'' = c")
      case True
      then show ?thesis using j old[of c' r'] old[of c'' r''] r(1) by (auto split: if_splits)
    next
      case False
      then have "J c' = Some r'" "J c'' = Some r''" using j by auto
      then show ?thesis using I(4) j by blast
    qed
  next
    fix k l' assume k: "(L(i \<mapsto> l)) k = Some l'"
    have "k < n \<and> lt_logical l' \<noteq> 0 \<and> lt_logical l' \<le> i64_max \<and> page_ceil (lt_logical l') = Inr (lt_rounded l')
      \<and> (\<exists>r'. (J(c \<mapsto> r)) (lt_cleanup l') = Some r' \<and> hv_slot r' = k)"
    proof (cases "k = i")
      case True
      then show ?thesis using k l r(1) assms(2) by auto
    next
      case False
      then have kl: "L k = Some l'" using k by simp
      obtain r' where r': "J (lt_cleanup l') = Some r'" "hv_slot r' = k" using I(6)[OF kl] by blast
      then have "lt_cleanup l' \<noteq> c" using assms(4) by auto
      then show ?thesis using I(5)[OF kl] r' by auto
    qed
    then show "k < n" "lt_logical l' \<noteq> 0" "lt_logical l' \<le> i64_max" "page_ceil (lt_logical l') = Inr (lt_rounded l')"
      "\<exists>r'. (J(c \<mapsto> r)) (lt_cleanup l') = Some r' \<and> hv_slot r' = k" by blast+
  next
    fix k t' assume "T k = Some t'"
    then show "oa_index t' = k" "oa_serial t' \<noteq> 0" "oa_serial t' < no" using I(1) by blast+
  qed (use I(7,8) up'(2) in simp_all)
qed

lemma identity_remove:
  assumes id: "identity_ok n L J T no nj" and r: "J c = Some r"
  shows "identity_ok n (L(hv_slot r := None)) (J(c := None)) T no nj"
proof -
  note I = identity_okD[OF id]
  from I(3)[OF r] obtain l where l: "L (hv_slot r) = Some l" "lt_cleanup l = c" by blast
  have other: "hv_slot r' \<noteq> hv_slot r" if "J c' = Some r'" "c' \<noteq> c" for c' r'
  proof -
    from I(3)[OF that(1)] obtain l' where "L (hv_slot r') = Some l'" "lt_cleanup l' = c'" by blast
    then show ?thesis using l that(2) by auto
  qed
  show ?thesis unfolding identity_ok_def
  proof (intro conjI allI impI)
    fix c' r' assume "(J(c := None)) c' = Some r'"
    then have j: "J c' = Some r'" "c' \<noteq> c" by (auto split: if_splits)
    show "hv_generation r' \<noteq> 0" "hv_job r' \<noteq> 0" "hv_job r' < nj" "T (oa_index (hv_owner r')) = Some (hv_owner r')" using I(2)[OF j(1)] by blast+
    from I(3)[OF j(1)] have "\<exists>l'. L (hv_slot r') = Some l' \<and> lt_cleanup l' = c' \<and> lt_generation l' = hv_generation r' \<and> lt_owner l' = hv_owner r'"
      by blast
    then show "\<exists>l'. (L(hv_slot r := None)) (hv_slot r') = Some l' \<and> lt_cleanup l' = c' \<and> lt_generation l' = hv_generation r'
        \<and> lt_owner l' = hv_owner r'" using other[OF j] by simp
  next
    fix c' c'' r' r'' assume j: "(J(c := None)) c' = Some r' \<and> (J(c := None)) c'' = Some r'' \<and> hv_job r' = hv_job r''"
    then have "J c' = Some r'" "J c'' = Some r''" by (auto split: if_splits)
    then show "c' = c''" using I(4) j by blast
  next
    fix k l' assume "(L(hv_slot r := None)) k = Some l'"
    then have k: "L k = Some l'" "k \<noteq> hv_slot r" by (auto split: if_splits)
    show "k < n" "lt_logical l' \<noteq> 0" "lt_logical l' \<le> i64_max" "page_ceil (lt_logical l') = Inr (lt_rounded l')" using I(5)[OF k(1)] by blast+
    from I(6)[OF k(1)] obtain r' where "J (lt_cleanup l') = Some r'" "hv_slot r' = k" by blast
    moreover have "lt_cleanup l' \<noteq> c" using calculation k(2) r by auto
    ultimately show "\<exists>r'. (J(c := None)) (lt_cleanup l') = Some r' \<and> hv_slot r' = k" by auto
  next
    fix k t' assume "T k = Some t'"
    then show "oa_index t' = k" "oa_serial t' \<noteq> 0" "oa_serial t' < no" using I(1) by blast+
  qed (use I(7,8,9) in simp_all)
qed

section \<open>Extents\<close>

lemma page_ceil_aligned: "is_page_aligned v \<Longrightarrow> page_ceil v = Inr u \<Longrightarrow> u = v"
proof -
  assume v: "is_page_aligned v" "page_ceil v = Inr u"
  have "unat v mod 4096 = 0" using v(1) by (simp add: page_aligned_iff)
  then obtain q where q: "unat v = 4096 * q" by (auto simp: mod_eq_0_iff_dvd elim: dvdE)
  have "(4096 * q + 4095) div 4096 * 4096 = 4096 * q" by simp
  then show ?thesis using page_ceil_Inr(1)[OF v(2)] q by (simp add: word_unat_eq_iff)
qed

lemma placed_okD:
  assumes "placed_ok L J T na (Some p)"
  shows "manager_ok (hp_physical p)" "length (hp_virtual_arenas p) = na"
    "\<And>i. i < na \<Longrightarrow> arena_ok (hp_virtual_arenas p ! i)"
    "\<And>i. i < na \<Longrightarrow> arena_owner (hp_virtual_arenas p ! i) = map_option oa_serial (T i)"
    "\<And>c r. J c = Some r \<Longrightarrow> extents_held p L r"
    "\<And>k e. manager_reservation_extent (hp_physical p) k = Some e \<Longrightarrow> \<exists>c r. J c = Some r \<and> reservation_key_of r = k"
    "\<And>i k e. i < na \<Longrightarrow> virtual_reservation_extent (hp_virtual_arenas p ! i) k = Some e
      \<Longrightarrow> \<exists>c r. J c = Some r \<and> reservation_key_of r = k \<and> oa_index (hv_owner r) = i"
  using assms unfolding placed_ok_def option.case by blast+

lemma placed_okI:
  assumes "manager_ok (hp_physical p)" "length (hp_virtual_arenas p) = na"
    "\<And>i. i < na \<Longrightarrow> arena_ok (hp_virtual_arenas p ! i) \<and> arena_owner (hp_virtual_arenas p ! i) = map_option oa_serial (T i)"
    "\<And>c r. J c = Some r \<Longrightarrow> extents_held p L r"
    "\<And>k e. manager_reservation_extent (hp_physical p) k = Some e \<Longrightarrow> \<exists>c r. J c = Some r \<and> reservation_key_of r = k"
    "\<And>i k e. i < na \<Longrightarrow> virtual_reservation_extent (hp_virtual_arenas p ! i) k = Some e
      \<Longrightarrow> \<exists>c r. J c = Some r \<and> reservation_key_of r = k \<and> oa_index (hv_owner r) = i"
  shows "placed_ok L J T na (Some p)"
  using assms unfolding placed_ok_def option.case by blast

lemma key_job: "hv_job r \<noteq> hv_job r' \<Longrightarrow> reservation_key_of r \<noteq> reservation_key_of r'"
  by (auto simp: reservation_key_of_def)

text \<open>The extents of every other reservation survive a change of one key in one arena.\<close>

lemma extents_held_other:
  assumes "extents_held p L r'" "hv_job r' \<noteq> hv_job r" "hv_slot r' \<noteq> hv_slot r" "oa_index (hv_owner r) < length (hp_virtual_arenas p)"
    and "manager_reservation_extent ph = (manager_reservation_extent (hp_physical p))(reservation_key_of r := x)"
    and "virtual_reservation_extent va = (virtual_reservation_extent (hp_virtual_arenas p ! oa_index (hv_owner r)))(reservation_key_of r := y)"
  shows "extents_held (p\<lparr>hp_physical := ph, hp_virtual_arenas := (hp_virtual_arenas p)[oa_index (hv_owner r) := va]\<rparr>)
    (L(hv_slot r := v)) r'"
  using assms key_job[OF assms(2)] unfolding extents_held_def
  by (cases "oa_index (hv_owner r) = oa_index (hv_owner r')") auto

lemma placed_add:
  assumes pl: "placed_ok L J T na (Some p)" and prep: "prepare_reserve p r w rv = Inr plan"
    and idx: "oa_index (hv_owner r) < na" "T (oa_index (hv_owner r)) = Some (hv_owner r)"
    and fresh: "\<And>c' r'. J c' = Some r' \<Longrightarrow> hv_job r' \<noteq> hv_job r \<and> hv_slot r' \<noteq> hv_slot r" "J c = None"
    and l: "lt_extents l = Some (admission_extents plan)" "lt_rounded l = w" "is_page_aligned w"
  shows "\<exists>p'. commit_reserve p (hv_owner r) plan = Some p' \<and> placed_ok (L(hv_slot r \<mapsto> l)) (J(c \<mapsto> r)) T na (Some p')
    \<and> he_physical (admission_extents plan) = tk_extent (ap_physical plan)"
proof -
  let ?i = "oa_index (hv_owner r)" and ?k = "reservation_key_of r"
  note P = placed_okD[OF pl]
  from prep have t: "manager_prepare_heap_take (hp_physical p) ?k w rv = Inr (ap_physical plan)"
    "virtual_prepare_heap_take (hp_virtual_arenas p ! ?i) ?k w rv = Inr (ap_virtual plan)"
    by (auto simp: prepare_reserve_def result_simps)
  from physical.takes[OF P(1) t(1)] obtain ph where ph: "manager_commit_heap_take (hp_physical p) (ap_physical plan) = Some ph"
    "manager_ok ph" "manager_reservation_extent ph = (manager_reservation_extent (hp_physical p))(?k \<mapsto> tk_extent (ap_physical plan))"
    "page_ceil w = Inr (ext_size (tk_extent (ap_physical plan)))" by blast
  from virtual_arenas.takes[OF P(3)[OF idx(1)] t(2)] obtain va where va:
    "virtual_commit_heap_take (hp_virtual_arenas p ! ?i) (ap_virtual plan) = Some va" "arena_ok va"
    "virtual_reservation_extent va = (virtual_reservation_extent (hp_virtual_arenas p ! ?i))(?k \<mapsto> tk_extent (ap_virtual plan))"
    "page_ceil w = Inr (ext_size (tk_extent (ap_virtual plan)))" by blast
  let ?p = "p\<lparr>hp_physical := ph, hp_virtual_arenas := (hp_virtual_arenas p)[?i := va]\<rparr>"
  have sz: "ext_size (tk_extent (ap_physical plan)) = w" "ext_size (tk_extent (ap_virtual plan)) = w"
    using page_ceil_aligned[OF l(3)] ph(4) va(4) by blast+
  have "placed_ok (L(hv_slot r \<mapsto> l)) (J(c \<mapsto> r)) T na (Some ?p)"
  proof (rule placed_okI)
    show "manager_ok (hp_physical ?p)" "length (hp_virtual_arenas ?p) = na" using ph(2) P(2) by simp_all
    fix i assume i: "i < na"
    show "arena_ok (hp_virtual_arenas ?p ! i) \<and> arena_owner (hp_virtual_arenas ?p ! i) = map_option oa_serial (T i)"
      using P(2) P(3,4)[OF i] i va(2) arena_owner_take[OF va(1)] by (cases "?i = i") auto
    fix k e assume "virtual_reservation_extent (hp_virtual_arenas ?p ! i) k = Some e"
    then have "k = ?k \<and> i = ?i \<or> virtual_reservation_extent (hp_virtual_arenas p ! i) k = Some e"
      using P(2) i va(3) by (cases "?i = i") (auto split: if_splits)
    then consider "k = ?k" "i = ?i" | c' r' where "J c' = Some r'" "reservation_key_of r' = k" "oa_index (hv_owner r') = i"
      using P(7)[OF i] by blast
    then show "\<exists>c' r'. (J(c \<mapsto> r)) c' = Some r' \<and> reservation_key_of r' = k \<and> oa_index (hv_owner r') = i"
      using fresh(2) by cases (metis fun_upd_same, metis fun_upd_other option.distinct(1))
  next
    fix k e assume "manager_reservation_extent (hp_physical ?p) k = Some e"
    then have "k = ?k \<or> manager_reservation_extent (hp_physical p) k = Some e" using ph(3) by (auto split: if_splits)
    then consider "k = ?k" | c' r' where "J c' = Some r'" "reservation_key_of r' = k" using P(6) by blast
    then show "\<exists>c' r'. (J(c \<mapsto> r)) c' = Some r' \<and> reservation_key_of r' = k"
      using fresh(2) by cases (metis fun_upd_same, metis fun_upd_other option.distinct(1))
  next
    fix c' r' assume j: "(J(c \<mapsto> r)) c' = Some r'"
    show "extents_held ?p (L(hv_slot r \<mapsto> l)) r'"
    proof (cases "c' = c")
      case True
      then have "r' = r" using j by simp
      then show ?thesis using ph(3) va(3) sz l P(2) idx(1) by (auto simp: extents_held_def admission_extents_def)
    next
      case False
      then have jj: "J c' = Some r'" using j by simp
      show ?thesis using extents_held_other[OF P(5)[OF jj] _ _ _ ph(3) va(3)] fresh(1)[OF jj] idx(1) P(2) by blast
    qed
  qed
  moreover have "commit_reserve p (hv_owner r) plan = Some ?p" using ph(1) va(1) by (simp add: commit_reserve_def)
  ultimately show ?thesis by (simp add: admission_extents_def)
qed

lemma cancel_ready:
  assumes pl: "placed_ok L J T na (Some p)" and j: "J c = Some r" and i: "oa_index (hv_owner r) < na"
    and l: "L (hv_slot r) = Some l" "lt_extents l = Some e"
  shows "\<exists>plan. prepare_cancel p r e rv = Inr plan"
proof -
  note P = placed_okD[OF pl]
  from P(5)[OF j] l have x: "manager_reservation_extent (hp_physical p) (reservation_key_of r) = Some (he_physical e)"
    "virtual_reservation_extent (hp_virtual_arenas p ! oa_index (hv_owner r)) (reservation_key_of r) = Some (he_virtual e)"
    by (auto simp: extents_held_def)
  obtain a b where "manager_prepare_heap_return (hp_physical p) (reservation_key_of r) (he_physical e) rv = Inr a"
    "virtual_prepare_heap_return (hp_virtual_arenas p ! oa_index (hv_owner r)) (reservation_key_of r) (he_virtual e) rv = Inr b"
    using physical.return_ready[OF P(1) x(1)] virtual_arenas.return_ready[OF P(3)[OF i] x(2)] by blast
  then show ?thesis by (simp add: prepare_cancel_def)
qed

lemma placed_remove:
  assumes pl: "placed_ok L J T na (Some p)" and prep: "prepare_cancel p r e rv = Inr plan"
    and idx: "oa_index (hv_owner r) < na" and j: "J c = Some r"
    and other: "\<And>c' r'. J c' = Some r' \<Longrightarrow> c' \<noteq> c \<Longrightarrow> hv_job r' \<noteq> hv_job r \<and> hv_slot r' \<noteq> hv_slot r"
  shows "\<exists>p'. commit_cancel p (hv_owner r) plan = Some p' \<and> placed_ok (L(hv_slot r := None)) (J(c := None)) T na (Some p')"
proof -
  let ?i = "oa_index (hv_owner r)" and ?k = "reservation_key_of r"
  note P = placed_okD[OF pl]
  from prep have t: "manager_prepare_heap_return (hp_physical p) ?k (he_physical e) rv = Inr (rp_physical plan)"
    "virtual_prepare_heap_return (hp_virtual_arenas p ! ?i) ?k (he_virtual e) rv = Inr (rp_virtual plan)"
    by (auto simp: prepare_cancel_def result_simps)
  from physical.returns[OF P(1) t(1)] obtain ph where ph: "manager_commit_heap_return (hp_physical p) (rp_physical plan) = Some ph"
    "manager_ok ph" "manager_reservation_extent ph = (manager_reservation_extent (hp_physical p))(?k := None)" by blast
  from virtual_arenas.returns[OF P(3)[OF idx] t(2)] obtain va where va:
    "virtual_commit_heap_return (hp_virtual_arenas p ! ?i) (rp_virtual plan) = Some va" "arena_ok va"
    "virtual_reservation_extent va = (virtual_reservation_extent (hp_virtual_arenas p ! ?i))(?k := None)" by blast
  let ?p = "p\<lparr>hp_physical := ph, hp_virtual_arenas := (hp_virtual_arenas p)[?i := va]\<rparr>"
  have "placed_ok (L(hv_slot r := None)) (J(c := None)) T na (Some ?p)"
  proof (rule placed_okI)
    show "manager_ok (hp_physical ?p)" "length (hp_virtual_arenas ?p) = na" using ph(2) P(2) by simp_all
    fix i assume i: "i < na"
    show "arena_ok (hp_virtual_arenas ?p ! i) \<and> arena_owner (hp_virtual_arenas ?p ! i) = map_option oa_serial (T i)"
      using P(2) P(3,4)[OF i] i va(2) arena_owner_return[OF va(1)] by (cases "?i = i") auto
    fix k x assume "virtual_reservation_extent (hp_virtual_arenas ?p ! i) k = Some x"
    then have v: "virtual_reservation_extent (hp_virtual_arenas p ! i) k = Some x" "\<not> (k = ?k \<and> i = ?i)"
      using P(2) i va(3) by (cases "?i = i"; auto split: if_splits)+
    from P(7)[OF i v(1)] obtain c' r' where r': "J c' = Some r'" "reservation_key_of r' = k" "oa_index (hv_owner r') = i" by blast
    moreover have "c' \<noteq> c" using r' v(2) j by auto
    ultimately show "\<exists>c' r'. (J(c := None)) c' = Some r' \<and> reservation_key_of r' = k \<and> oa_index (hv_owner r') = i" by auto
  next
    fix k x assume "manager_reservation_extent (hp_physical ?p) k = Some x"
    then have v: "manager_reservation_extent (hp_physical p) k = Some x" "k \<noteq> ?k" using ph(3) by (auto split: if_splits)
    from P(6)[OF v(1)] obtain c' r' where r': "J c' = Some r'" "reservation_key_of r' = k" by blast
    moreover have "c' \<noteq> c" using r' v(2) j by auto
    ultimately show "\<exists>c' r'. (J(c := None)) c' = Some r' \<and> reservation_key_of r' = k" by auto
  next
    fix c' r' assume "(J(c := None)) c' = Some r'"
    then have jj: "J c' = Some r'" "c' \<noteq> c" by (auto split: if_splits)
    show "extents_held ?p (L(hv_slot r := None)) r'"
      using extents_held_other[OF P(5)[OF jj(1)] _ _ _ ph(3) va(3)] other[OF jj] idx P(2) by blast
  qed
  moreover have "commit_cancel p (hv_owner r) plan = Some ?p" using ph(1) va(1) by (simp add: commit_cancel_def)
  ultimately show ?thesis by blast
qed

section \<open>Reserving\<close>

lemma free_slot_no_lifetime:
  assumes inv: "heap_inv sp" and f: "free_slot sp = Some i"
  shows "i < length (sps_slots sp) \<and> ps_state (sps_slots sp ! i) = SFree \<and> ps_generation (sps_slots sp ! i) < u32_max
    \<and> lifetimes sp i = None"
proof -
  have i: "i < length (sps_slots sp)" "ps_state (sps_slots sp ! i) = SFree" "ps_generation (sps_slots sp ! i) < u32_max"
    using position_SomeD[OF f[unfolded free_slot_def]] by (auto simp: slot_is_free_def)
  have "heap_slot_record (sps_slots sp ! i) = None"
  proof (cases "heap_slot_record (sps_slots sp ! i)")
    case (Some rec)
    from inv i(1) Some obtain job where "row_at (hl_cleanup (sps_heap sp)) (hr_cleanup rec) = Some job"
      "hv_slot (cr_reservation job) = i" "reservation_record sp (cr_reservation job) = Inr rec" by (rule slot_job)
    then have "slot_reserved_state (ps_state (sps_slots sp ! i))" unfolding reservation_record_Inr by blast
    then show ?thesis using i(2) by (simp add: slot_reserved_state_def)
  qed
  then show ?thesis using i by (simp add: lifetimes_def lifetime_of_def)
qed

lemma tokens_bound: "tokens h i = Some t \<Longrightarrow> i < length (hl_accounts h)"
  by (auto simp: tokens_def row_at_Some)

lemma account_token_index:
  assumes "heap_inv sp" "row_at (hl_accounts (sps_heap sp)) i = Some b"
  shows "oa_index (acc_token b) = i"
  using identity_okD(1)[OF heap_invD(2)[OF assms(1)], of i "acc_token b"] assms(2) by (simp add: tokens_def)

lemma stages_other:
  assumes inv: "heap_inv sp" and same: "\<And>c job. row_at (hl_cleanup (sps_heap sp')) c = Some job \<Longrightarrow> c \<noteq> c0 \<Longrightarrow>
      row_at (hl_cleanup (sps_heap sp)) c = Some job \<and> sps_slots sp' ! hv_slot (cr_reservation job) = sps_slots sp ! hv_slot (cr_reservation job)"
    and acc: "\<And>i. map_option acc_closed (row_at (hl_accounts (sps_heap sp')) i) = map_option acc_closed (row_at (hl_accounts (sps_heap sp)) i)"
    and at: "\<And>job rec a. row_at (hl_cleanup (sps_heap sp')) c0 = Some job \<Longrightarrow>
      heap_slot_record (sps_slots sp' ! hv_slot (cr_reservation job)) = Some rec \<Longrightarrow>
      row_at (hl_accounts (sps_heap sp')) (oa_index (hv_owner (cr_reservation job))) = Some a \<Longrightarrow>
      stage_ok (ps_state (sps_slots sp' ! hv_slot (cr_reservation job))) rec job (acc_closed a)"
  shows "stages_ok sp'"
  unfolding stages_ok_def
proof (intro allI impI, elim conjE)
  fix c job rec a
  assume j: "row_at (hl_cleanup (sps_heap sp')) c = Some job"
    and r: "heap_slot_record (sps_slots sp' ! hv_slot (cr_reservation job)) = Some rec"
    and a: "row_at (hl_accounts (sps_heap sp')) (oa_index (hv_owner (cr_reservation job))) = Some a"
  show "stage_ok (ps_state (sps_slots sp' ! hv_slot (cr_reservation job))) rec job (acc_closed a)"
  proof (cases "c = c0")
    case True
    then show ?thesis using at j r a by simp
  next
    case False
    note s = same[OF j False]
    have "\<exists>a0. row_at (hl_accounts (sps_heap sp)) (oa_index (hv_owner (cr_reservation job))) = Some a0 \<and> acc_closed a0 = acc_closed a"
      using acc[of "oa_index (hv_owner (cr_reservation job))", symmetric] a by (auto simp: map_option_eq_Some)
    then obtain a0 where a0: "row_at (hl_accounts (sps_heap sp)) (oa_index (hv_owner (cr_reservation job))) = Some a0"
      "acc_closed a0 = acc_closed a" by blast
    have "stage_ok (ps_state (sps_slots sp ! hv_slot (cr_reservation job))) rec job (acc_closed a0)"
      using heap_invD(5)[OF inv] s r a0(1) unfolding stages_ok_def by fastforce
    then show ?thesis using s a0(2) by simp
  qed
qed

lemma sp_wf_activate:
  assumes "sp_wf sp" "i < length (sps_slots sp)"
  shows "sp_wf (sp\<lparr>sps_slots := (sps_slots sp)[i := s], sps_active_slots_end := max (sps_active_slots_end sp) (i + 1)\<rparr>)"
  using assms unfolding sp_wf_def by (auto simp: nth_list_update)

lemma reserve_plan_checks:
  assumes p: "reserve_plan sp owner logical rv = Inr (r, rec, plan)"
  obtains i a c w where "r = \<lparr>hv_slot = i, hv_generation = ps_generation (sps_slots sp ! i) + 1,
      hv_job = hl_next_job (sps_heap sp), hv_owner = owner\<rparr>"
    "free_slot sp = Some i" "account_of sp owner = Inr a" "\<not> acc_closed a"
    "position (\<lambda>r. r = None) (hl_cleanup (sps_heap sp)) = Some c" "w \<le> acc_limit a - acc_reserved a"
    "w \<le> hl_limit (sps_heap sp) - total_reserved_bytes sp" "hl_next_job (sps_heap sp) \<noteq> u64_max"
    "page_ceil logical = Inr w" "logical \<noteq> 0" "logical \<le> i64_max"
    "rec = \<lparr>hr_owner = owner, hr_logical = logical, hr_rounded = w, hr_cleanup = c, hr_published = False,
       hr_writable = True, hr_ever_attached = False, hr_extents = map_option admission_extents plan\<rparr>"
    "(case hl_placement (sps_heap sp) of None \<Rightarrow> Inr None
      | Some p \<Rightarrow> question (prepare_reserve p r w (hl_revision (sps_heap sp))) (\<lambda>plan. Inr (Some plan))) = Inr plan"
  using p unfolding reserve_plan_def Let_def result_simps sum.inject prod.inject
  by (elim exE conjE) (rule that; (assumption | erule sym | (hypsubst, (assumption | rule refl))))

lemma optional_plan_Inr:
  "(case q of None \<Rightarrow> Inr None | Some p \<Rightarrow> question (f p) (\<lambda>plan. Inr (Some plan))) = Inr plan
    \<longleftrightarrow> (case q of None \<Rightarrow> plan = None | Some p \<Rightarrow> (\<exists>pl. plan = Some pl \<and> f p = Inr pl))"
  by (auto simp: result_simps split: option.split)

lemma reserve_plan_Inr:
  assumes inv: "heap_inv sp" and p: "reserve_plan sp owner logical rv = Inr (r, rec, plan)"
  obtains i a c w where "r = \<lparr>hv_slot = i, hv_generation = ps_generation (sps_slots sp ! i) + 1,
      hv_job = hl_next_job (sps_heap sp), hv_owner = owner\<rparr>"
    "free_slot sp = Some i" "account_of sp owner = Inr a" "\<not> acc_closed a"
    "c < length (hl_cleanup (sps_heap sp))" "row_at (hl_cleanup (sps_heap sp)) c = None"
    "unat (acc_reserved a) + unat w \<le> unat (acc_limit a)"
    "unat (hl_fixed_bytes (sps_heap sp)) + unat (hl_reserved_bytes (sps_heap sp)) + unat w \<le> unat (hl_limit (sps_heap sp))"
    "hl_next_job (sps_heap sp) \<noteq> u64_max" "page_ceil logical = Inr w" "logical \<noteq> 0" "logical \<le> i64_max"
    "rec = \<lparr>hr_owner = owner, hr_logical = logical, hr_rounded = w, hr_cleanup = c, hr_published = False,
       hr_writable = True, hr_ever_attached = False, hr_extents = map_option admission_extents plan\<rparr>"
    "(case hl_placement (sps_heap sp) of None \<Rightarrow> plan = None
      | Some p \<Rightarrow> (\<exists>pl. plan = Some pl \<and> prepare_reserve p r w (hl_revision (sps_heap sp)) = Inr pl))"
proof -
  let ?h = "sps_heap sp"
  from p obtain i a c w where x: "r = \<lparr>hv_slot = i, hv_generation = ps_generation (sps_slots sp ! i) + 1,
      hv_job = hl_next_job ?h, hv_owner = owner\<rparr>"
    "free_slot sp = Some i" "account_of sp owner = Inr a" "\<not> acc_closed a"
    "position (\<lambda>r. r = None) (hl_cleanup ?h) = Some c" "w \<le> acc_limit a - acc_reserved a"
    "w \<le> hl_limit ?h - total_reserved_bytes sp" "hl_next_job ?h \<noteq> u64_max" "page_ceil logical = Inr w" "logical \<noteq> 0"
    "logical \<le> i64_max"
    "rec = \<lparr>hr_owner = owner, hr_logical = logical, hr_rounded = w, hr_cleanup = c, hr_published = False,
       hr_writable = True, hr_ever_attached = False, hr_extents = map_option admission_extents plan\<rparr>"
    "(case hl_placement ?h of None \<Rightarrow> Inr None
      | Some p \<Rightarrow> question (prepare_reserve p r w (hl_revision ?h)) (\<lambda>plan. Inr (Some plan))) = Inr plan"
    by (rule reserve_plan_checks)
  note ch = charges_okD[OF heap_invD(3)[OF inv]]
  have a: "row_at (hl_accounts ?h) (oa_index owner) = Some a" using x(3) by (simp add: account_of_Inr)
  have o: "unat (acc_reserved a) + unat w \<le> unat (acc_limit a)" using le_minus_unat[OF x(6) ch(2)[OF a]] .
  have "unat (total_reserved_bytes sp) = unat (hl_fixed_bytes ?h) + unat (hl_reserved_bytes ?h)"
    unfolding total_reserved_bytes_def using ch(4) by (rule unat_plus_le)
  then have g: "unat (hl_fixed_bytes ?h) + unat (hl_reserved_bytes ?h) + unat w \<le> unat (hl_limit ?h)"
    using le_minus_unat[OF x(7)] ch(4) by (simp add: word_le_nat_alt)
  have "c < length (hl_cleanup ?h)" "row_at (hl_cleanup ?h) c = None"
    using position_SomeD[OF x(5)] by (auto simp: row_at_def)
  then show thesis by (rule that[OF x(1-4) _ _ o g x(8-12) x(13)[unfolded optional_plan_Inr]])
qed

lemma heap_inv_reserve_effect:
  assumes inv: "heap_inv sp" and p: "reserve_plan sp owner logical rv = Inr (r, rec, plan)"
    and placed: "placed_ok ((lifetimes sp)(hv_slot r \<mapsto> record_lifetime (hv_generation r) rec))
      ((job_res (sps_heap sp))(hr_cleanup rec \<mapsto> r)) (tokens (sps_heap sp)) (length (hl_accounts (sps_heap sp))) placement"
  shows "heap_inv (reserve_effect sp r rec placement)"
proof -
  let ?h = "sps_heap sp" and ?sp = "reserve_effect sp r rec placement" and ?n = "length (sps_slots sp)"
  from inv p obtain i a c w where x: "r = \<lparr>hv_slot = i, hv_generation = ps_generation (sps_slots sp ! i) + 1,
      hv_job = hl_next_job ?h, hv_owner = owner\<rparr>"
    "free_slot sp = Some i" "account_of sp owner = Inr a" "\<not> acc_closed a"
    "c < length (hl_cleanup ?h)" "row_at (hl_cleanup ?h) c = None"
    "unat (acc_reserved a) + unat w \<le> unat (acc_limit a)"
    "unat (hl_fixed_bytes ?h) + unat (hl_reserved_bytes ?h) + unat w \<le> unat (hl_limit ?h)"
    "hl_next_job ?h \<noteq> u64_max" "page_ceil logical = Inr w" "logical \<noteq> 0" "logical \<le> i64_max"
    "rec = \<lparr>hr_owner = owner, hr_logical = logical, hr_rounded = w, hr_cleanup = c, hr_published = False,
       hr_writable = True, hr_ever_attached = False, hr_extents = map_option admission_extents plan\<rparr>"
    "(case hl_placement ?h of None \<Rightarrow> plan = None
      | Some p \<Rightarrow> (\<exists>pl. plan = Some pl \<and> prepare_reserve p r w (hl_revision ?h) = Inr pl))"
    by (rule reserve_plan_Inr)
  have sel: "hv_slot r = i" "hv_owner r = owner" "hr_cleanup rec = c" "hr_rounded rec = w" "hr_owner rec = owner"
    by (simp_all add: x(1,13))
  have flags: "\<not> hr_published rec" "\<not> hr_ever_attached rec" by (simp_all add: x(13))
  note fr = free_slot_no_lifetime[OF inv x(2)]
  have a: "row_at (hl_accounts ?h) (oa_index owner) = Some a" "acc_token a = owner" using x(3) by (simp_all add: account_of_Inr)
  let ?job = "\<lparr>cr_reservation = r, cr_queued = False, cr_lease = LEASE_EMPTY, cr_version = 0, cr_sequence = 0,
    cr_progress = ScrubPending\<rparr>"
  have sl: "sps_slots ?sp = (sps_slots sp)[i := \<lparr>ps_generation = hv_generation r, ps_state = SReserved, ps_record = RHeap rec\<rparr>]"
    by (simp add: reserve_effect_def ledger_update_def sel)
  have h: "sps_heap ?sp = heap_ledger_advance (?h\<lparr>hl_accounts := (hl_accounts ?h)[oa_index owner := Some (a\<lparr>acc_reserved := acc_reserved a + w\<rparr>)],
      hl_reserved_bytes := hl_reserved_bytes ?h + w, hl_placement := placement, hl_cleanup := (hl_cleanup ?h)[c := Some ?job],
      hl_next_job := hl_next_job ?h + 1\<rparr>)"
    by (simp add: reserve_effect_def ledger_update_def sel account_charge_accounts[OF a(1)])
  have L: "lifetimes ?sp = (lifetimes sp)(i \<mapsto> record_lifetime (hv_generation r) rec)"
    using fr by (auto simp: fun_eq_iff lifetimes_def sl lifetime_of_def heap_slot_record_def nth_list_update)
  have J: "job_res (sps_heap ?sp) = (job_res ?h)(c \<mapsto> r)" using x(5) by (auto simp: fun_eq_iff job_res_def h)
  have T: "tokens (sps_heap ?sp) = tokens ?h" using a by (auto simp: fun_eq_iff tokens_def h)
  have g: "hv_generation r \<noteq> 0" using fr by (simp add: x(1) word_less_nat_alt word_unat_eq_iff unat_word_ariths)
  have tk: "tokens ?h (oa_index owner) = Some owner" using a by (simp add: tokens_def)
  show ?thesis
  proof (rule heap_invI)
    show "sp_wf ?sp" unfolding reserve_effect_def sp_wf_ledger sel using sp_wf_activate[OF heap_invD(1)[OF inv]] fr by blast
    have "identity_ok ?n ((lifetimes sp)(i \<mapsto> record_lifetime (hv_generation r) rec)) ((job_res ?h)(c \<mapsto> r)) (tokens ?h)
        (hl_next_owner ?h) (hl_next_job ?h + 1)"
      by (rule identity_add[OF heap_invD(2)[OF inv], where g = "hv_generation r" and t = owner])
        (use fr g tk x in \<open>auto simp: job_res_def record_lifetime_def\<close>)
    then show "identity_ok (length (sps_slots ?sp)) (lifetimes ?sp) (job_res (sps_heap ?sp)) (tokens (sps_heap ?sp))
        (hl_next_owner (sps_heap ?sp)) (hl_next_job (sps_heap ?sp))" unfolding L J T by (simp add: sl h)
    have "charges_ok ?n (lifetimes ?sp) (sps_heap ?sp)"
    proof (rule charges_add[OF heap_invD(3)[OF inv] account_token_index[OF inv] a x(7,8)])
      fix t' show "usage ?n (lifetimes ?sp) (hl_host_storage (sps_heap ?sp)) t'
          = usage ?n (lifetimes sp) (hl_host_storage ?h) t' + (if t' = owner then unat w else 0)"
        using usage_slot[of i ?n "lifetimes sp" "Some (record_lifetime (hv_generation r) rec)" "hl_host_storage ?h" t'] fr
        by (simp add: L h owned_def record_lifetime_def sel)
    qed (use charges_okD(5)[OF heap_invD(3)[OF inv]] in \<open>simp_all add: h same_limits_def\<close>)
    then show "charges_ok (length (sps_slots ?sp)) (lifetimes ?sp) (sps_heap ?sp)" by (simp add: sl)
    show "placed_ok (lifetimes ?sp) (job_res (sps_heap ?sp)) (tokens (sps_heap ?sp)) (length (hl_accounts (sps_heap ?sp)))
      (hl_placement (sps_heap ?sp))" using placed unfolding L J T by (simp add: h sel)
    show "stages_ok ?sp"
    proof (rule stages_other[OF inv, where ?c0.0 = c])
      fix c' job assume j: "row_at (hl_cleanup (sps_heap ?sp)) c' = Some job" "c' \<noteq> c"
      then have j': "row_at (hl_cleanup ?h) c' = Some job" by (simp add: h)
      have "hv_slot (cr_reservation job) \<noteq> i"
        using identity_okD(3)[OF heap_invD(2)[OF inv], of c' "cr_reservation job"] j' fr by (auto simp: job_res_def)
      then show "row_at (hl_cleanup ?h) c' = Some job
          \<and> sps_slots ?sp ! hv_slot (cr_reservation job) = sps_slots sp ! hv_slot (cr_reservation job)"
        using j' by (simp add: sl)
    next
      fix k show "map_option acc_closed (row_at (hl_accounts (sps_heap ?sp)) k) = map_option acc_closed (row_at (hl_accounts ?h) k)"
        using a(1) by (auto simp: h)
    next
      fix job rc b assume "row_at (hl_cleanup (sps_heap ?sp)) c = Some job"
        "heap_slot_record (sps_slots ?sp ! hv_slot (cr_reservation job)) = Some rc"
        "row_at (hl_accounts (sps_heap ?sp)) (oa_index (hv_owner (cr_reservation job))) = Some b"
      then have "job = ?job" "rc = rec" "b = a\<lparr>acc_reserved := acc_reserved a + w\<rparr>"
        using x(5) fr a by (auto simp: h sl sel heap_slot_record_def row_at_Some)
      moreover have "ps_state (sps_slots ?sp ! i) = SReserved" using fr by (simp add: sl)
      ultimately show "stage_ok (ps_state (sps_slots ?sp ! hv_slot (cr_reservation job))) rc job (acc_closed b)"
        using x(4) flags by (simp add: sel stage_ok_def slot_reserved_state_def pending_state_def progress_valid_def
            lease_stage_def LEASE_EMPTY_def)
    qed
    show "workers_ok (sps_heap ?sp)" using heap_invD(6)[OF inv] x(5) unfolding workers_ok_def
      by (auto simp: h LEASE_EMPTY_def split: if_splits)
  qed
qed

lemma heap_inv_reserve:
  assumes inv: "heap_inv sp"
  shows "\<exists>res sp'. reserve_heap sp owner logical rv = Some (res, sp') \<and> heap_inv sp'"
proof (cases "reserve_plan sp owner logical rv")
  case (Inl e)
  then show ?thesis using inv by (simp add: reserve_heap_def)
next
  case (Inr x)
  obtain r rec plan where p: "reserve_plan sp owner logical rv = Inr (r, rec, plan)" using Inr by (cases x) auto
  let ?h = "sps_heap sp" and ?l = "record_lifetime (hv_generation r) rec"
  from inv p obtain i a c w where y: "r = \<lparr>hv_slot = i, hv_generation = ps_generation (sps_slots sp ! i) + 1,
      hv_job = hl_next_job ?h, hv_owner = owner\<rparr>"
    "free_slot sp = Some i" "account_of sp owner = Inr a" "\<not> acc_closed a"
    "c < length (hl_cleanup ?h)" "row_at (hl_cleanup ?h) c = None"
    "unat (acc_reserved a) + unat w \<le> unat (acc_limit a)"
    "unat (hl_fixed_bytes ?h) + unat (hl_reserved_bytes ?h) + unat w \<le> unat (hl_limit ?h)"
    "hl_next_job ?h \<noteq> u64_max" "page_ceil logical = Inr w" "logical \<noteq> 0" "logical \<le> i64_max"
    "rec = \<lparr>hr_owner = owner, hr_logical = logical, hr_rounded = w, hr_cleanup = c, hr_published = False,
       hr_writable = True, hr_ever_attached = False, hr_extents = map_option admission_extents plan\<rparr>"
    "(case hl_placement ?h of None \<Rightarrow> plan = None
      | Some p \<Rightarrow> (\<exists>pl. plan = Some pl \<and> prepare_reserve p r w (hl_revision ?h) = Inr pl))"
    by (rule reserve_plan_Inr)
  then have x: "hv_slot r = i" "hv_owner r = owner" "hv_job r = hl_next_job ?h"
    "free_slot sp = Some i" "account_of sp owner = Inr a" "row_at (hl_cleanup ?h) (hr_cleanup rec) = None" "page_ceil logical = Inr w"
    "hr_rounded rec = w" "hr_extents rec = map_option admission_extents plan"
    "(case hl_placement ?h of None \<Rightarrow> plan = None
      | Some p \<Rightarrow> (\<exists>pl. plan = Some pl \<and> prepare_reserve p r w (hl_revision ?h) = Inr pl))"
    by simp_all
  have tk: "tokens ?h (oa_index owner) = Some owner" using x(5) by (simp add: account_of_Inr tokens_def)
  have "\<exists>pl'. commit_placement (hl_placement ?h) (\<lambda>p pl. commit_reserve p owner pl) plan = Some pl'
    \<and> placed_ok ((lifetimes sp)(hv_slot r \<mapsto> ?l)) ((job_res ?h)(hr_cleanup rec \<mapsto> r)) (tokens ?h) (length (hl_accounts ?h)) pl'"
  proof (cases "hl_placement ?h")
    case None
    then have "plan = None" using x(10) by simp
    then show ?thesis using heap_invD(4)[OF inv] None x(9) by (simp add: commit_placement_def placed_ok_def record_lifetime_def)
  next
    case (Some p)
    then obtain pl where pl: "plan = Some pl" "prepare_reserve p r w (hl_revision ?h) = Inr pl" using x(10) by auto
    have fresh: "hv_job r' \<noteq> hv_job r \<and> hv_slot r' \<noteq> hv_slot r" if "job_res ?h c' = Some r'" for c' r'
      using identity_okD(2,3)[OF heap_invD(2)[OF inv] that] free_slot_no_lifetime[OF inv x(4)] x(1,3) by auto
    have "\<exists>p'. commit_reserve p (hv_owner r) pl = Some p' \<and>
      placed_ok ((lifetimes sp)(hv_slot r \<mapsto> ?l)) ((job_res ?h)(hr_cleanup rec \<mapsto> r)) (tokens ?h) (length (hl_accounts ?h)) (Some p')
      \<and> he_physical (admission_extents pl) = tk_extent (ap_physical pl)"
    proof (rule placed_add[OF heap_invD(4)[OF inv, unfolded Some] pl(2) _ _ fresh])
      show "oa_index (hv_owner r) < length (hl_accounts ?h)" "tokens ?h (oa_index (hv_owner r)) = Some (hv_owner r)"
        using tokens_bound[OF tk] tk x(2) by simp_all
      show "job_res ?h (hr_cleanup rec) = None" using x(6) by (simp add: job_res_def)
      show "lt_extents ?l = Some (admission_extents pl)" "lt_rounded ?l = w" using x(8,9) pl(1) by (simp_all add: record_lifetime_def)
      show "is_page_aligned w" using page_ceil_Inr[OF x(7)] by simp
    qed
    then show ?thesis using Some pl(1) x(2) by (auto simp: commit_placement_def)
  qed
  then obtain pl' where "commit_placement (hl_placement ?h) (\<lambda>p pl. commit_reserve p owner pl) plan = Some pl'"
    "placed_ok ((lifetimes sp)(hv_slot r \<mapsto> ?l)) ((job_res ?h)(hr_cleanup rec \<mapsto> r)) (tokens ?h) (length (hl_accounts ?h)) pl'" by blast
  then have "reserve_heap sp owner logical rv = Some (Inr r, reserve_effect sp r rec pl')" "heap_inv (reserve_effect sp r rec pl')"
    using heap_inv_reserve_effect[OF inv p] p by (simp_all add: reserve_heap_def)
  then show ?thesis by blast
qed

end
