(* ===== verification/Heap_Ledger_Sys.thy ===== *)
theory Heap_Ledger_Sys
  imports Heap_Ledger_Alloc Step_System
begin

text \<open>
  The heap ledger as a state machine.  The remaining operations (discharging an allocation, admitting,
  closing and releasing an owner, host storage, cleanup workers, and the local pointer operations that
  share the registry) keep the invariant; \<open>ledger_step\<close> collects every operation, and the properties
  hold of every reachable registry.
\<close>

section \<open>Discharging an allocation\<close>

lemma trim_active_slots_sel [simp]:
  "sps_slots (trim_active_slots sp) = sps_slots sp" "sps_heap (trim_active_slots sp) = sps_heap sp"
  "sps_scopes (trim_active_slots sp) = sps_scopes sp"
  by (simp_all add: trim_active_slots_def)

lemma sp_wf_trim:
  assumes "sp_wf sp" shows "sp_wf (trim_active_slots sp)"
proof -
  have "trim_end slot_trimmable (sps_slots sp) (sps_active_slots_end sp) \<le> sps_active_slots_end sp" by (rule trim_end_le)
  moreover have "slot_trimmable (sps_slots sp ! i)"
    if "trim_end slot_trimmable (sps_slots sp) (sps_active_slots_end sp) \<le> i" "i < length (sps_slots sp)" for i
    using assms that trim_end_trimmed[of slot_trimmable "sps_slots sp" "sps_active_slots_end sp" i]
    unfolding sp_wf_def by (cases "i < sps_active_slots_end sp") auto
  ultimately show ?thesis using assms unfolding sp_wf_def by (auto simp: trim_active_slots_def)
qed

lemma other_job_slot:
  assumes inv: "heap_inv sp" and "job_res (sps_heap sp) c = Some r" "job_res (sps_heap sp) c' = Some r'" "c' \<noteq> c"
  shows "hv_job r' \<noteq> hv_job r \<and> hv_slot r' \<noteq> hv_slot r"
proof -
  note I = identity_okD[OF heap_invD(2)[OF inv]]
  have "hv_job r' \<noteq> hv_job r" using I(4)[OF assms(3,2)] assms(4) by blast
  moreover from I(3)[OF assms(2)] I(3)[OF assms(3)] assms(4) have "hv_slot r' \<noteq> hv_slot r" by auto
  ultimately show ?thesis ..
qed

lemma heap_inv_discharge_effect:
  assumes inv: "heap_inv sp" and rr: "reservation_record sp r = Inr rec"
    and placed: "placed_ok ((lifetimes sp)(hv_slot r := None)) ((job_res (sps_heap sp))(hr_cleanup rec := None))
      (tokens (sps_heap sp)) (length (hl_accounts (sps_heap sp))) placement"
  shows "heap_inv (discharge_effect sp r rec placement)"
proof -
  let ?h = "sps_heap sp" and ?sp = "discharge_effect sp r rec placement" and ?n = "length (sps_slots sp)"
    and ?i = "hv_slot r" and ?c = "hr_cleanup rec" and ?w = "hr_rounded rec" and ?t = "hr_owner rec"
  note x = rr[unfolded reservation_record_Inr]
  then obtain a job where a: "account_of sp ?t = Inr a" and job: "row_at (hl_cleanup ?h) ?c = Some job" "cr_reservation job = r" by auto
  have ai: "row_at (hl_accounts ?h) (oa_index ?t) = Some a" "acc_token a = ?t" using a by (simp_all add: account_of_Inr)
  have i: "?i < ?n" "heap_slot_record (sps_slots sp ! ?i) = Some rec" "ps_generation (sps_slots sp ! ?i) = hv_generation r"
    using x by blast+
  let ?s = "slot_release ((sps_slots sp ! ?i)\<lparr>ps_record := REmpty\<rparr>)"
  have sl: "sps_slots ?sp = (sps_slots sp)[?i := ?s]" by (simp add: discharge_effect_def ledger_update_def)
  have h: "sps_heap ?sp = heap_ledger_advance (?h\<lparr>hl_accounts := (hl_accounts ?h)[oa_index ?t := Some (a\<lparr>acc_reserved := acc_reserved a - ?w\<rparr>)],
      hl_reserved_bytes := hl_reserved_bytes ?h - ?w, hl_placement := placement, hl_cleanup := (hl_cleanup ?h)[?c := None]\<rparr>)"
    by (simp add: discharge_effect_def ledger_update_def account_charge_accounts[OF ai(1)])
  have Li: "lifetimes sp ?i = Some (record_lifetime (hv_generation r) rec)" using i by (simp add: lifetimes_def lifetime_of_def)
  have L: "lifetimes ?sp = (lifetimes sp)(?i := None)"
    using i(1) by (auto simp: fun_eq_iff lifetimes_def sl lifetime_of_def heap_slot_record_def nth_list_update slot_release_def)
  have Jc: "job_res ?h ?c = Some r" using job by (simp add: job_res_def)
  have J: "job_res (sps_heap ?sp) = (job_res ?h)(?c := None)" using job by (auto simp: fun_eq_iff job_res_def h row_at_Some)
  have T: "tokens (sps_heap ?sp) = tokens ?h" using ai by (auto simp: fun_eq_iff tokens_def h)
  show ?thesis
  proof (rule heap_invI)
    show "sp_wf ?sp" unfolding discharge_effect_def sp_wf_ledger
      using sp_wf_slot_update[OF heap_invD(1)[OF inv] i(1)] slot_trimmable_release by (intro sp_wf_trim) blast
    show "identity_ok (length (sps_slots ?sp)) (lifetimes ?sp) (job_res (sps_heap ?sp)) (tokens (sps_heap ?sp))
        (hl_next_owner (sps_heap ?sp)) (hl_next_job (sps_heap ?sp))"
      using identity_remove[OF heap_invD(2)[OF inv] Jc] unfolding L J T by (simp add: sl h)
    have "charges_ok ?n (lifetimes ?sp) (sps_heap ?sp)"
    proof (rule charges_sub[OF heap_invD(3)[OF inv] account_token_index[OF inv] ai])
      fix t' show "usage ?n (lifetimes ?sp) (hl_host_storage (sps_heap ?sp)) t' + (if t' = ?t then unat ?w else 0)
          = usage ?n (lifetimes sp) (hl_host_storage ?h) t'"
        using usage_slot[OF i(1), of "lifetimes sp" None "hl_host_storage ?h" t']
        by (simp add: L h Li owned_def record_lifetime_def split: if_splits)
    qed (use charges_okD(5)[OF heap_invD(3)[OF inv]] in \<open>simp_all add: h same_limits_def\<close>)
    then show "charges_ok (length (sps_slots ?sp)) (lifetimes ?sp) (sps_heap ?sp)" by (simp add: sl)
    show "placed_ok (lifetimes ?sp) (job_res (sps_heap ?sp)) (tokens (sps_heap ?sp)) (length (hl_accounts (sps_heap ?sp)))
      (hl_placement (sps_heap ?sp))" using placed unfolding L J T by (simp add: h)
    show "stages_ok ?sp"
    proof (rule stages_other[OF inv, where ?c0.0 = ?c])
      fix c' j assume j: "row_at (hl_cleanup (sps_heap ?sp)) c' = Some j" "c' \<noteq> ?c"
      then have j': "row_at (hl_cleanup ?h) c' = Some j" by (simp add: h)
      have "hv_slot (cr_reservation j) \<noteq> ?i" using other_job_slot[OF inv Jc _ j(2), of "cr_reservation j"] j' by (simp add: job_res_def)
      then show "row_at (hl_cleanup ?h) c' = Some j
          \<and> sps_slots ?sp ! hv_slot (cr_reservation j) = sps_slots sp ! hv_slot (cr_reservation j)" using j' by (simp add: sl)
    next
      fix k show "map_option acc_closed (row_at (hl_accounts (sps_heap ?sp)) k) = map_option acc_closed (row_at (hl_accounts ?h) k)"
        using ai(1) by (auto simp: h)
    qed (use job in \<open>simp add: h row_at_Some\<close>)
    show "workers_ok (sps_heap ?sp)" using heap_invD(6)[OF inv] unfolding workers_ok_def
      by (auto simp: h split: if_splits)
  qed
qed

lemma heap_inv_abort:
  assumes inv: "heap_inv sp"
  shows "\<exists>res sp'. abort_heap sp r = Some (res, sp') \<and> heap_inv sp'"
proof (cases "abort_plan sp r")
  case (Inl e)
  then show ?thesis using inv by (simp add: abort_heap_def)
next
  case (Inr y)
  obtain rec plan where p: "abort_plan sp r = Inr (rec, plan)" using Inr by (cases y) auto
  let ?h = "sps_heap sp"
  from p have rr: "reservation_record sp r = Inr rec" by (auto simp: abort_plan_def Let_def result_simps split: option.splits)
  have own: "hr_owner rec = hv_owner r" using rr[unfolded reservation_record_Inr] by blast
  from rr have Jc: "job_res ?h (hr_cleanup rec) = Some r" by (auto simp: reservation_record_Inr job_res_def)
  note I = identity_okD(2)[OF heap_invD(2)[OF inv] Jc]
  have "\<exists>pl'. commit_placement (hl_placement ?h) (\<lambda>p pl. commit_cancel p (hr_owner rec) pl) plan = Some pl'
    \<and> placed_ok ((lifetimes sp)(hv_slot r := None)) ((job_res ?h)(hr_cleanup rec := None)) (tokens ?h) (length (hl_accounts ?h)) pl'"
  proof (cases "hl_placement ?h")
    case None
    then have "plan = None" using p by (auto simp: abort_plan_def Let_def result_simps split: option.splits)
    then show ?thesis using heap_invD(4)[OF inv] None by (simp add: commit_placement_def placed_ok_def)
  next
    case (Some pm)
    then obtain e pl where pl: "plan = Some pl" "prepare_cancel pm r e (hl_revision ?h) = Inr pl"
      using p by (auto simp: abort_plan_def Let_def result_simps split: option.splits)
    have "\<exists>p'. commit_cancel pm (hv_owner r) pl = Some p'
      \<and> placed_ok ((lifetimes sp)(hv_slot r := None)) ((job_res ?h)(hr_cleanup rec := None)) (tokens ?h) (length (hl_accounts ?h)) (Some p')"
      using placed_remove[OF heap_invD(4)[OF inv, unfolded Some] pl(2) _ Jc] tokens_bound[of ?h] I other_job_slot[OF inv Jc] by blast
    then show ?thesis using Some pl(1) own by (auto simp: commit_placement_def)
  qed
  then obtain pl' where "commit_placement (hl_placement ?h) (\<lambda>p pl. commit_cancel p (hr_owner rec) pl) plan = Some pl'"
    "placed_ok ((lifetimes sp)(hv_slot r := None)) ((job_res ?h)(hr_cleanup rec := None)) (tokens ?h) (length (hl_accounts ?h)) pl'" by blast
  then have "abort_heap sp r = Some (Inr (), discharge_effect sp r rec pl')" "heap_inv (discharge_effect sp r rec pl')"
    using heap_inv_discharge_effect[OF inv rr] p by (simp_all add: abort_heap_def)
  then show ?thesis by blast
qed

lemma heap_inv_release:
  assumes inv: "heap_inv sp" and p: "prepare_heap_release sp status identity owner = Inr plan"
  shows "\<exists>sp'. commit_heap_release sp plan = Some sp' \<and> heap_inv sp'"
proof -
  let ?h = "sps_heap sp" and ?lease = "hcs_lease status"
  from p obtain cl rec0 a pm pl where x: "prepare_retired_cleanup sp ?lease identity owner (Some status) = Inr cl"
    "reservation_record sp (hcp_reservation (cup_closure cl)) = Inr rec0"
    "account_of sp (hv_owner (hcp_reservation (cup_closure cl))) = Inr a" "hl_placement ?h = Some pm"
    "prepare_cancel pm (hcp_reservation (cup_closure cl)) (hcp_extents (cup_closure cl)) (cup_revision cl) = Inr pl"
    "plan = \<lparr>hlp_cleanup = cl, hlp_placement = pl, hlp_rounded = hr_rounded rec0, hlp_account_reserved = acc_reserved a\<rparr>"
    by (auto simp: prepare_heap_release_def Let_def result_simps)
  from x(1) obtain rec where r: "prepare_heap_worker_lease sp ?lease identity owner = Inr (cup_closure cl)"
    "reservation_record sp (cls_reservation ?lease) = Inr rec"
    "row_at (hl_cleanup ?h) (hr_cleanup rec) = Some (cup_prior cl)"
    "cup_cleanup cl = hr_cleanup rec" "cup_lease cl = ?lease"
    "ps_state (sps_slots sp ! hv_slot (cls_reservation ?lease)) = SRetired" "cup_revision cl = hl_revision ?h"
    by (rule retired_cleanup_Inr)
  let ?r = "cls_reservation ?lease"
  from r(1) have "prepare_attached_heap_closure sp ?r owner = Inr (cup_closure cl)" by (rule lease_Inr)
  then have cr: "hcp_reservation (cup_closure cl) = ?r" by (rule closure_Inr)
  have rec0: "rec0 = rec" using x(2) r(2) by (simp add: cr)
  note rr = r(2)[unfolded reservation_record_Inr]
  have own: "hr_owner rec = hv_owner ?r" "ps_generation (sps_slots sp ! hv_slot ?r) = hv_generation ?r" using rr by blast+
  from r(2) have Jc: "job_res ?h (hr_cleanup rec) = Some ?r" by (auto simp: reservation_record_Inr job_res_def)
  note I = identity_okD(2)[OF heap_invD(2)[OF inv] Jc]
  have "\<exists>p'. commit_cancel pm (hv_owner ?r) pl = Some p'
    \<and> placed_ok ((lifetimes sp)(hv_slot ?r := None)) ((job_res ?h)(hr_cleanup rec := None)) (tokens ?h) (length (hl_accounts ?h)) (Some p')"
    using placed_remove[OF heap_invD(4)[OF inv, unfolded x(4)] x(5)[unfolded cr] _ Jc] tokens_bound[of ?h] I other_job_slot[OF inv Jc] by blast
  then obtain p' where p': "commit_cancel pm (hv_owner ?r) pl = Some p'"
    "placed_ok ((lifetimes sp)(hv_slot ?r := None)) ((job_res ?h)(hr_cleanup rec := None)) (tokens ?h) (length (hl_accounts ?h)) (Some p')"
    by blast
  have chk: "check_cleanup_commit sp cl" using r(3-7) own(2) by (simp add: check_cleanup_commit_def Let_def)
  have "row_at (hl_accounts ?h) (oa_index (hv_owner ?r)) = Some a" using x(3) by (simp add: account_of_Inr cr)
  then have "commit_heap_release sp plan = Some (discharge_effect sp ?r rec (Some p'))"
    using chk x(4) p'(1) own(1) r(4)
    by (simp add: commit_heap_release_def x(6) Let_def cr rec0 discharge_effect_def)
  then show ?thesis using heap_inv_discharge_effect[OF inv r(2) p'(2)] by blast
qed

section \<open>Cleanup workers\<close>

lemma heap_inv_workers:
  assumes inv: "heap_inv sp" and w: "workers_ok ((sps_heap sp)\<lparr>hl_workers := W, hl_next_worker := k\<rparr>)"
  shows "heap_inv (ledger_update (\<lambda>h. h\<lparr>hl_workers := W, hl_next_worker := k\<rparr>) sp)"
proof -
  let ?sp = "ledger_update (\<lambda>h. h\<lparr>hl_workers := W, hl_next_worker := k\<rparr>) sp"
  have v: "lifetimes ?sp = lifetimes sp" "job_res (sps_heap ?sp) = job_res (sps_heap sp)" "tokens (sps_heap ?sp) = tokens (sps_heap sp)"
    by (simp_all add: fun_eq_iff lifetimes_def job_res_def tokens_def ledger_update_def)
  show ?thesis
    using heap_invD[OF inv] w unfolding heap_inv_def Let_def v sp_wf_ledger
    by (simp add: ledger_update_def charges_ok_def tokens_def stages_ok_def workers_ok_def)
qed

lemma heap_inv_enroll:
  assumes inv: "heap_inv sp" and e: "enroll_cleanup_worker_record sp identity expected = (res, sp')"
  shows "heap_inv sp'"
proof (cases "sp' = sp")
  case True
  then show ?thesis using inv by simp
next
  case False
  let ?h = "sps_heap sp"
  from e False obtain index where x: "position (\<lambda>r. r = None) (hl_workers ?h) = Some index"
    "hl_next_worker ?h \<noteq> u64_max"
    "sp' = ledger_update (\<lambda>h. h\<lparr>hl_workers := (hl_workers h)[index := Some \<lparr>wr_handle = \<lparr>cw_row = of_nat index + 1, cw_serial = hl_next_worker ?h\<rparr>,
       wr_identity = identity, wr_state = WorkerActive\<rparr>], hl_next_worker := hl_next_worker h + 1\<rparr>) sp"
    by (auto simp: enroll_cleanup_worker_record_def Let_def result_simps split: sum.splits)
  note W = heap_invD(6)[OF inv, unfolded workers_ok_def]
  have i: "index < length (hl_workers ?h)" "row_at (hl_workers ?h) index = None" using position_SomeD[OF x(1)] by (auto simp: row_at_def)
  have up: "unat (hl_next_worker ?h + 1) = unat (hl_next_worker ?h) + 1" using x(2) unat_succ_u64[of "hl_next_worker ?h"] by simp
  have lt: "hl_next_worker ?h < hl_next_worker ?h + 1" "hl_next_worker ?h + 1 \<noteq> 0" using up by (auto simp: word_less_nat_alt)
  let ?w = "\<lparr>wr_handle = \<lparr>cw_row = of_nat index + 1, cw_serial = hl_next_worker ?h\<rparr>, wr_identity = identity, wr_state = WorkerActive\<rparr>"
  have "workers_ok (?h\<lparr>hl_workers := (hl_workers ?h)[index := Some ?w], hl_next_worker := hl_next_worker ?h + 1\<rparr>)"
    unfolding workers_ok_def
  proof (intro conjI allI impI)
    fix j w assume "row_at (hl_workers (?h\<lparr>hl_workers := (hl_workers ?h)[index := Some ?w], hl_next_worker := hl_next_worker ?h + 1\<rparr>)) j = Some w"
    then have "j = index \<and> w = ?w \<or> row_at (hl_workers ?h) j = Some w" using i by (auto split: if_splits)
    then show "cw_row (wr_handle w) = of_nat j + 1" "cw_serial (wr_handle w) \<noteq> 0"
      "cw_serial (wr_handle w) < hl_next_worker (?h\<lparr>hl_workers := (hl_workers ?h)[index := Some ?w], hl_next_worker := hl_next_worker ?h + 1\<rparr>)"
      using W lt by (auto intro: less_trans)
  next
    fix c job w assume "row_at (hl_cleanup (?h\<lparr>hl_workers := (hl_workers ?h)[index := Some ?w], hl_next_worker := hl_next_worker ?h + 1\<rparr>)) c = Some job
      \<and> lease_refers_to (cr_lease job) w"
    then have "\<exists>j row. row_at (hl_workers ?h) j = Some row \<and> wr_handle row = w" using W by simp
    then obtain j row where j: "row_at (hl_workers ?h) j = Some row" "wr_handle row = w" by blast
    then have "j \<noteq> index" using i by auto
    then show "\<exists>j row. row_at (hl_workers (?h\<lparr>hl_workers := (hl_workers ?h)[index := Some ?w], hl_next_worker := hl_next_worker ?h + 1\<rparr>)) j = Some row
      \<and> wr_handle row = w" using j by auto
  qed (use W lt in simp_all)
  then show ?thesis unfolding x(3) using heap_inv_workers[OF inv] by (simp add: ledger_update_def)
qed

text \<open>Rows may change their state, and rows no lease refers to may go.\<close>

lemma heap_inv_worker_rows:
  assumes inv: "heap_inv sp" and len: "length W = length (hl_workers (sps_heap sp))"
    and old: "\<And>j row. row_at W j = Some row \<Longrightarrow> \<exists>row'. row_at (hl_workers (sps_heap sp)) j = Some row' \<and> wr_handle row' = wr_handle row"
    and kept: "\<And>j row c job. row_at (hl_workers (sps_heap sp)) j = Some row \<Longrightarrow> row_at (hl_cleanup (sps_heap sp)) c = Some job \<Longrightarrow>
      lease_refers_to (cr_lease job) (wr_handle row) \<Longrightarrow> \<exists>row'. row_at W j = Some row' \<and> wr_handle row' = wr_handle row"
  shows "heap_inv (ledger_update (\<lambda>h. h\<lparr>hl_workers := W, hl_next_worker := hl_next_worker (sps_heap sp)\<rparr>) sp)"
proof (rule heap_inv_workers[OF inv])
  note w = heap_invD(6)[OF inv, unfolded workers_ok_def]
  show "workers_ok ((sps_heap sp)\<lparr>hl_workers := W, hl_next_worker := hl_next_worker (sps_heap sp)\<rparr>)"
    unfolding workers_ok_def
  proof (intro conjI allI impI)
    fix j row assume "row_at (hl_workers ((sps_heap sp)\<lparr>hl_workers := W, hl_next_worker := hl_next_worker (sps_heap sp)\<rparr>)) j = Some row"
    then obtain row' where r: "row_at (hl_workers (sps_heap sp)) j = Some row'" "wr_handle row' = wr_handle row" using old by auto
    then show "cw_row (wr_handle row) = of_nat j + 1" "cw_serial (wr_handle row) \<noteq> 0"
      "cw_serial (wr_handle row) < hl_next_worker ((sps_heap sp)\<lparr>hl_workers := W, hl_next_worker := hl_next_worker (sps_heap sp)\<rparr>)"
      using w unfolding r(2)[symmetric] by simp_all
  next
    fix c job v assume "row_at (hl_cleanup ((sps_heap sp)\<lparr>hl_workers := W, hl_next_worker := hl_next_worker (sps_heap sp)\<rparr>)) c = Some job
      \<and> lease_refers_to (cr_lease job) v"
    then have cj: "row_at (hl_cleanup (sps_heap sp)) c = Some job" "lease_refers_to (cr_lease job) v" by simp_all
    then obtain j row where j: "row_at (hl_workers (sps_heap sp)) j = Some row" "wr_handle row = v" using w by blast
    with kept[OF j(1) cj(1)] cj(2) show "\<exists>j row. row_at (hl_workers ((sps_heap sp)\<lparr>hl_workers := W, hl_next_worker := hl_next_worker (sps_heap sp)\<rparr>)) j = Some row
      \<and> wr_handle row = v" by auto
  qed (use w len in simp_all)
qed

lemma ledger_same_next_worker:
  "ledger_update (\<lambda>h. h\<lparr>hl_workers := f h\<rparr>) sp
    = ledger_update (\<lambda>h. h\<lparr>hl_workers := f (sps_heap sp), hl_next_worker := hl_next_worker (sps_heap sp)\<rparr>) sp"
  by (simp add: ledger_update_def)

lemma heap_inv_fence:
  assumes inv: "heap_inv sp" and e: "fence_cleanup_worker_record sp worker = (res, sp')"
  shows "heap_inv sp'"
proof (cases "sp' = sp")
  case True
  then show ?thesis using inv by simp
next
  case False
  let ?i = "unat (cw_row worker) - 1"
  from e False obtain w where x: "worker_of sp worker = Inr w"
    "sp' = ledger_update (\<lambda>h. h\<lparr>hl_workers := (hl_workers h)[?i := Some (w\<lparr>wr_state := WorkerFenced\<rparr>)]\<rparr>) sp"
    by (auto simp: fence_cleanup_worker_record_def result_simps split: sum.splits)
  have w: "row_at (hl_workers (sps_heap sp)) ?i = Some w" using worker_of_Inr[OF x(1)] by simp
  show ?thesis unfolding x(2)
    by (subst ledger_same_next_worker, rule heap_inv_worker_rows[OF inv]) (use w in \<open>auto simp: row_at_Some split: if_splits\<close>)
qed

lemma heap_inv_remove_worker:
  assumes inv: "heap_inv sp" and e: "remove_cleanup_worker_record sp worker = (res, sp')"
  shows "heap_inv sp'"
proof (cases "sp' = sp")
  case True
  then show ?thesis using inv by simp
next
  case False
  let ?i = "unat (cw_row worker) - 1"
  from e False obtain w where x: "worker_of sp worker = Inr w"
    "\<not> list_ex (\<lambda>job. lease_refers_to (cr_lease job) worker) (flatten (hl_cleanup (sps_heap sp)))"
    "sp' = ledger_update (\<lambda>h. h\<lparr>hl_workers := (hl_workers h)[?i := None]\<rparr>) sp"
    by (auto simp: remove_cleanup_worker_record_def result_simps split: sum.splits)
  have w: "row_at (hl_workers (sps_heap sp)) ?i = Some w" "wr_handle w = worker" using worker_of_Inr[OF x(1)] by simp_all
  have free: "\<not> lease_refers_to (cr_lease job) worker" if "row_at (hl_cleanup (sps_heap sp)) c = Some job" for c job
    using x(2) that set_flatten[of job "hl_cleanup (sps_heap sp)"] by (auto simp: list_ex_iff)
  show ?thesis unfolding x(3)
  proof (subst ledger_same_next_worker, rule heap_inv_worker_rows[OF inv])
    fix j row c job
    assume j: "row_at (hl_workers (sps_heap sp)) j = Some row" "row_at (hl_cleanup (sps_heap sp)) c = Some job"
      "lease_refers_to (cr_lease job) (wr_handle row)"
    then have "wr_handle row \<noteq> worker" using free by blast
    then have "row \<noteq> w" using w(2) by blast
    then have "j \<noteq> ?i" using j(1) w(1) by auto
    then show "\<exists>row'. row_at ((hl_workers (sps_heap sp))[?i := None]) j = Some row' \<and> wr_handle row' = wr_handle row" using j(1) by simp
  qed (auto split: if_splits)
qed

section \<open>Host storage\<close>

lemma identity_job_bump:
  assumes "identity_ok n L J T no nj" "nj \<noteq> u64_max"
  shows "identity_ok n L J T no (nj + 1)"
proof -
  have up: "unat (nj + 1) = unat nj + 1" using assms(2) unat_succ_u64[of nj] by simp
  have "nj + 1 \<noteq> 0" "\<And>j. j < nj \<Longrightarrow> j < nj + 1" using up by (auto simp: word_less_nat_alt)
  then show ?thesis using assms(1) unfolding identity_ok_def by blast
qed

text \<open>A change of charges and host rows only.\<close>

lemma heap_inv_charges:
  assumes inv: "heap_inv sp" and t: "row_at (hl_accounts (sps_heap sp)) (oa_index t) = Some a" "acc_token a' = acc_token a" "acc_closed a' = acc_closed a"
    and nj: "nj = hl_next_job (sps_heap sp) \<or> hl_next_job (sps_heap sp) \<noteq> u64_max \<and> nj = hl_next_job (sps_heap sp) + 1"
    and h': "h' = (sps_heap sp)\<lparr>hl_accounts := (hl_accounts (sps_heap sp))[oa_index t := Some a'], hl_reserved_bytes := b,
      hl_host_storage := S, hl_next_job := nj\<rparr>"
    and ch: "charges_ok (length (sps_slots sp)) (lifetimes sp) h'"
  shows "heap_inv (ledger_update (\<lambda>_. h') sp)"
proof -
  let ?sp = "ledger_update (\<lambda>_. h') sp" and ?h = "sps_heap sp"
  have hh: "sps_heap ?sp = heap_ledger_advance h'" "sps_slots ?sp = sps_slots sp" by (simp_all add: ledger_update_def)
  have hs: "hl_accounts h' = (hl_accounts ?h)[oa_index t := Some a']" "hl_cleanup h' = hl_cleanup ?h" "hl_placement h' = hl_placement ?h"
    "hl_workers h' = hl_workers ?h" "hl_next_worker h' = hl_next_worker ?h" "hl_next_owner h' = hl_next_owner ?h" "hl_next_job h' = nj"
    by (simp_all add: h')
  have v: "lifetimes ?sp = lifetimes sp" "job_res (sps_heap ?sp) = job_res ?h" "tokens (sps_heap ?sp) = tokens ?h"
    using t by (auto simp: fun_eq_iff lifetimes_def job_res_def tokens_def hh hs)
  have cl: "map_option acc_closed (row_at (hl_accounts (sps_heap ?sp)) k) = map_option acc_closed (row_at (hl_accounts ?h) k)" for k
    using t by (auto simp: hh hs)
  show ?thesis
  proof (rule heap_invI)
    show "sp_wf ?sp" using heap_invD(1)[OF inv] by simp
    show "identity_ok (length (sps_slots ?sp)) (lifetimes ?sp) (job_res (sps_heap ?sp)) (tokens (sps_heap ?sp))
        (hl_next_owner (sps_heap ?sp)) (hl_next_job (sps_heap ?sp))"
      using nj heap_invD(2)[OF inv] identity_job_bump[OF heap_invD(2)[OF inv]] unfolding v by (auto simp: hh hs)
    show "charges_ok (length (sps_slots ?sp)) (lifetimes ?sp) (sps_heap ?sp)"
      using ch unfolding v by (simp add: hh charges_ok_def tokens_def)
    show "placed_ok (lifetimes ?sp) (job_res (sps_heap ?sp)) (tokens (sps_heap ?sp)) (length (hl_accounts (sps_heap ?sp)))
      (hl_placement (sps_heap ?sp))" using heap_invD(4)[OF inv] unfolding v by (simp add: hh hs)
    show "stages_ok ?sp"
    proof (rule stages_other[OF inv, where ?c0.0 = "length (hl_cleanup ?h)"])
      show "row_at (hl_cleanup ?h) c = Some job \<and> sps_slots ?sp ! hv_slot (cr_reservation job) = sps_slots sp ! hv_slot (cr_reservation job)"
        if "row_at (hl_cleanup (sps_heap ?sp)) c = Some job" for c job using that by (simp add: hh hs)
    qed (simp_all add: cl, simp add: hh hs row_at_def)
    show "workers_ok (sps_heap ?sp)" using heap_invD(6)[OF inv] by (simp add: workers_ok_def hh hs)
  qed
qed

lemma checked_room:
  "(case checked_sub l r of None \<Rightarrow> False | Some n \<Rightarrow> w \<le> n) \<Longrightarrow> unat r + unat (w::u64) \<le> unat l"
  by (auto simp: checked_sub_eq_Some word_le_nat_alt split: option.splits)

lemma heap_inv_reserve_host:
  assumes inv: "heap_inv sp" and e: "reserve_host_storage sp owner logical expected = (res, sp')"
  shows "heap_inv sp'"
proof (cases "sp' = sp")
  case True
  then show ?thesis using inv by simp
next
  case False
  let ?h = "sps_heap sp"
  from e False obtain a row w where x: "account_of sp owner = Inr a" "logical \<noteq> 0" "page_ceil logical = Inr w"
    "hl_next_job ?h \<noteq> u64_max"
    "case checked_sub (acc_limit a) (acc_reserved a) of None \<Rightarrow> False | Some n \<Rightarrow> w \<le> n"
    "case checked_sub (hl_limit ?h) (total_reserved_bytes sp) of None \<Rightarrow> False | Some n \<Rightarrow> w \<le> n"
    "position (\<lambda>r. r = None) (hl_host_storage ?h) = Some row"
    "sp' = ledger_update (\<lambda>h. (account_charge owner (\<lambda>n. n + w) h)\<lparr>
       hl_host_storage := (hl_host_storage h)[row := Some \<lparr>hsr_token = \<lparr>hsv_row = row, hsv_identity = hl_next_job ?h, hsv_account = owner\<rparr>,
         hsr_logical = logical, hsr_rounded = w\<rparr>], hl_next_job := hl_next_job h + 1\<rparr>) sp"
    by (auto simp: reserve_host_storage_def Let_def result_simps simp del: option.case split: sum.splits)
  have a: "row_at (hl_accounts ?h) (oa_index owner) = Some a" "acc_token a = owner" using x(1) by (simp_all add: account_of_Inr)
  have row: "row < length (hl_host_storage ?h)" "hl_host_storage ?h ! row = None" using position_SomeD[OF x(7)] by auto
  note ch = heap_invD(3)[OF inv] note C = charges_okD[OF ch]
  let ?s = "\<lparr>hsr_token = \<lparr>hsv_row = row, hsv_identity = hl_next_job ?h, hsv_account = owner\<rparr>, hsr_logical = logical, hsr_rounded = w\<rparr>"
  let ?h' = "?h\<lparr>hl_accounts := (hl_accounts ?h)[oa_index owner := Some (a\<lparr>acc_reserved := acc_reserved a + w\<rparr>)],
    hl_reserved_bytes := hl_reserved_bytes ?h + w, hl_host_storage := (hl_host_storage ?h)[row := Some ?s], hl_next_job := hl_next_job ?h + 1\<rparr>"
  have sp': "sp' = ledger_update (\<lambda>_. ?h') sp" by (simp add: x(8) ledger_update_def account_charge_accounts[OF a(1)])
  have tot: "unat (total_reserved_bytes sp) = unat (hl_fixed_bytes ?h) + unat (hl_reserved_bytes ?h)"
    unfolding total_reserved_bytes_def using C(4) by (rule unat_plus_le)
  have nz: "w \<noteq> 0" using page_ceil_Inr[OF x(3)] x(2) by (auto simp: word_le_nat_alt unat_eq_0)
  have "charges_ok (length (sps_slots sp)) (lifetimes sp) ?h'"
  proof (rule charges_add[OF ch account_token_index[OF inv] a checked_room[OF x(5)]])
    show "unat (hl_fixed_bytes ?h) + unat (hl_reserved_bytes ?h) + unat w \<le> unat (hl_limit ?h)" using checked_room[OF x(6)] tot by simp
    fix t' show "usage (length (sps_slots sp)) (lifetimes sp) (hl_host_storage ?h') t'
      = usage (length (sps_slots sp)) (lifetimes sp) (hl_host_storage ?h) t' + (if t' = owner then unat w else 0)"
      using usage_host[OF row(1), of "length (sps_slots sp)" "lifetimes sp" "Some ?s" t'] row(2) by (simp add: hosted_def)
  next
    show "host_rows_ok ?h (hl_host_storage ?h')" using C(5) nz a row
      by (auto simp: host_rows_ok_def tokens_def split: if_splits)
  qed (simp_all add: same_limits_def)
  then show ?thesis unfolding sp' by (intro heap_inv_charges[OF inv a(1) _ _ _ refl]) (use x(4) in simp_all)
qed

lemma heap_inv_release_host:
  assumes inv: "heap_inv sp" and e: "release_host_storage sp token = (res, sp')"
  shows "heap_inv sp'"
proof (cases "sp' = sp")
  case True
  then show ?thesis using inv by simp
next
  case False
  let ?h = "sps_heap sp" and ?o = "hsv_account token" and ?row = "hsv_row token"
  from e False obtain a s where x: "account_of sp ?o = Inr a" "row_at (hl_host_storage ?h) ?row = Some s" "hsr_token s = token"
    "sp' = ledger_update (\<lambda>h. (account_charge ?o (\<lambda>n. n - hsr_rounded s) h)\<lparr>hl_host_storage := (hl_host_storage h)[?row := None]\<rparr>) sp"
    by (auto simp: release_host_storage_def host_storage_record_of_def result_simps split: sum.splits option.splits if_splits)
  have a: "row_at (hl_accounts ?h) (oa_index ?o) = Some a" "acc_token a = ?o" using x(1) by (simp_all add: account_of_Inr)
  have row: "?row < length (hl_host_storage ?h)" "hl_host_storage ?h ! ?row = Some s" using x(2) by (simp_all add: row_at_Some)
  note ch = heap_invD(3)[OF inv] note C = charges_okD[OF ch]
  let ?h' = "?h\<lparr>hl_accounts := (hl_accounts ?h)[oa_index ?o := Some (a\<lparr>acc_reserved := acc_reserved a - hsr_rounded s\<rparr>)],
    hl_reserved_bytes := hl_reserved_bytes ?h - hsr_rounded s, hl_host_storage := (hl_host_storage ?h)[?row := None], hl_next_job := hl_next_job ?h\<rparr>"
  have sp': "sp' = ledger_update (\<lambda>_. ?h') sp" by (simp add: x(4) ledger_update_def account_charge_accounts[OF a(1)])
  have "charges_ok (length (sps_slots sp)) (lifetimes sp) ?h'"
  proof (rule charges_sub[OF ch account_token_index[OF inv] a])
    fix t' show "usage (length (sps_slots sp)) (lifetimes sp) (hl_host_storage ?h') t' + (if t' = ?o then unat (hsr_rounded s) else 0)
      = usage (length (sps_slots sp)) (lifetimes sp) (hl_host_storage ?h) t'"
      using usage_host[OF row(1), of "length (sps_slots sp)" "lifetimes sp" None t'] row(2) x(3) by (simp add: hosted_def split: if_splits)
  next
    show "host_rows_ok ?h (hl_host_storage ?h')" using C(5) by (auto simp: host_rows_ok_def split: if_splits)
  qed (simp_all add: same_limits_def)
  then show ?thesis unfolding sp' by (intro heap_inv_charges[OF inv a(1) _ _ _ refl]) simp_all
qed

section \<open>Owners\<close>

lemma identity_tokens:
  assumes id: "identity_ok n L J T no nj" and i: "T' = T(i := x)" "no \<le> no'" "no' \<noteq> 0"
    and new: "\<And>t. x = Some t \<Longrightarrow> oa_index t = i \<and> oa_serial t \<noteq> 0 \<and> oa_serial t < no'"
    and free: "\<And>c r. J c = Some r \<Longrightarrow> oa_index (hv_owner r) \<noteq> i"
  shows "identity_ok n L J T' no' nj"
proof -
  note I = identity_okD[OF id]
  have "oa_index t = k \<and> oa_serial t \<noteq> 0 \<and> oa_serial t < no'" if "T' k = Some t" for k t
    using I(1)[of k t] new[of t] that i by (cases "k = i") (auto intro: less_le_trans)
  moreover have "T' (oa_index (hv_owner r)) = Some (hv_owner r)" if "J c = Some r" for c r
    using I(2)[OF that] free[OF that] i(1) by simp
  ultimately show ?thesis using id i(3) unfolding identity_ok_def by blast
qed

lemma usage_zero:
  assumes id: "identity_ok n L J T no nj" and host: "\<And>i s. row_at S i = Some s \<Longrightarrow> hsv_account (hsr_token s) \<noteq> t"
    and jobs: "\<And>c r. J c = Some r \<Longrightarrow> hv_owner r \<noteq> t"
  shows "usage n L S t = 0"
proof -
  note I = identity_okD[OF id]
  have "owned t (L i) = 0" for i
  proof (cases "L i")
    case (Some l)
    from I(6)[OF Some] obtain r where r: "J (lt_cleanup l) = Some r" "hv_slot r = i" by blast
    from I(3)[OF r(1)] r(2) Some have "lt_owner l = hv_owner r" by auto
    then show ?thesis using jobs[OF r(1)] Some by (simp add: owned_def)
  qed (simp add: owned_def)
  moreover have "row_sum (hosted t) S = 0" using host by (intro row_sum_zero) (auto simp: hosted_def)
  ultimately show ?thesis by (simp add: usage_def)
qed

text \<open>An arena no reservation uses can be bound to any owner.\<close>

lemma placed_bind:
  assumes pl: "placed_ok L J T na placement" and i: "i < na"
    and free: "\<And>c r. J c = Some r \<Longrightarrow> oa_index (hv_owner r) \<noteq> i"
  shows "\<exists>pl'. bind_arena placement i (map_option oa_serial x) = Some pl' \<and> placed_ok L J (T(i := x)) na pl'"
proof (cases placement)
  case None
  then show ?thesis using pl by (simp add: bind_arena_def placed_ok_def)
next
  case (Some p)
  note P = placed_okD[OF pl[unfolded Some]]
  have none: "virtual_reservation_extent (hp_virtual_arenas p ! i) k = None" for k
  proof (cases "virtual_reservation_extent (hp_virtual_arenas p ! i) k")
    case (Some e)
    then show ?thesis using P(7)[OF i Some] free by blast
  qed
  from arena_bind[OF P(3)[OF i] none] obtain v where v: "bind_owner (hp_virtual_arenas p ! i) (map_option oa_serial x) = Some v"
    "arena_ok v" "arena_owner v = map_option oa_serial x" "\<And>k. virtual_reservation_extent v k = None" by blast
  let ?p = "p\<lparr>hp_virtual_arenas := (hp_virtual_arenas p)[i := v]\<rparr>"
  have "placed_ok L J (T(i := x)) na (Some ?p)"
  proof (rule placed_okI)
    show "manager_ok (hp_physical ?p)" "length (hp_virtual_arenas ?p) = na" using P(1,2) by simp_all
    fix j assume j: "j < na"
    show "arena_ok (hp_virtual_arenas ?p ! j) \<and> arena_owner (hp_virtual_arenas ?p ! j) = map_option oa_serial ((T(i := x)) j)"
      using P(2) P(3,4)[OF j] v(2,3) j by (cases "j = i") simp_all
  next
    fix c r assume r: "J c = Some r"
    show "extents_held ?p L r" using P(5)[OF r] free[OF r] by (simp add: extents_held_def)
  next
    fix k e assume "manager_reservation_extent (hp_physical ?p) k = Some e"
    then show "\<exists>c r. J c = Some r \<and> reservation_key_of r = k" using P(6) by simp
  next
    fix j k e assume j: "j < na" "virtual_reservation_extent (hp_virtual_arenas ?p ! j) k = Some e"
    then have "j \<noteq> i" using v(4) P(2) i by auto
    then show "\<exists>c r. J c = Some r \<and> reservation_key_of r = k \<and> oa_index (hv_owner r) = j" using P(7)[OF j(1)] j(2) by simp
  qed
  then show ?thesis using Some v(1) by (simp add: bind_arena_def)
qed

text \<open>Binding or clearing an owner row no reservation and no host storage refers to.\<close>

lemma charges_row:
  assumes ch: "charges_ok n L h" and i: "i < length (hl_accounts h)"
    and old: "\<And>a. row_at (hl_accounts h) i = Some a \<Longrightarrow> acc_reserved a = 0"
    and new: "\<And>a. x = Some a \<Longrightarrow> acc_reserved a = 0 \<and> usage n L (hl_host_storage h) (acc_token a) = 0"
    and host: "\<And>k s. row_at (hl_host_storage h) k = Some s \<Longrightarrow> oa_index (hsv_account (hsr_token s)) \<noteq> i"
    and h': "hl_accounts h' = (hl_accounts h)[i := x]" "hl_reserved_bytes h' = hl_reserved_bytes h" "same_limits h h'"
      "hl_host_storage h' = hl_host_storage h"
  shows "charges_ok n L h'"
proof (rule charges_okI)
  note C = charges_okD[OF ch]
  fix k b assume "row_at (hl_accounts h') k = Some b"
  then have "k = i \<and> x = Some b \<or> row_at (hl_accounts h) k = Some b" using i by (auto simp: h' split: if_splits)
  then show "unat (acc_reserved b) = usage n L (hl_host_storage h') (acc_token b) \<and> acc_reserved b \<le> acc_limit b"
    using C(1,2) new by (auto simp: h'(4))
next
  note C = charges_okD[OF ch]
  have "(case hl_accounts h ! i of None \<Rightarrow> 0 | Some a \<Rightarrow> unat (acc_reserved a)) = 0"
    using old i by (auto simp: row_at_Some split: option.split)
  moreover have "(case x of None \<Rightarrow> 0 | Some a \<Rightarrow> unat (acc_reserved a)) = 0" using new by (auto split: option.split)
  ultimately show "unat (hl_reserved_bytes h') = row_sum (\<lambda>a. unat (acc_reserved a)) (hl_accounts h')"
    using row_sum_update[OF i, of "\<lambda>a. unat (acc_reserved a)" x] C(3) by (simp add: h')
  show "unat (hl_fixed_bytes h') + unat (hl_reserved_bytes h') \<le> unat (hl_limit h')" using C(4) h'(2,3) by (simp add: same_limits_def)
  have "tokens h' k = tokens h k" if "k \<noteq> i" for k using that by (simp add: tokens_def h')
  then show "host_rows_ok h' (hl_host_storage h')" using C(5) host unfolding h'(4) by (simp add: host_rows_ok_def)
qed

lemma heap_inv_owner_row:
  assumes inv: "heap_inv sp" and i: "i < length (hl_accounts (sps_heap sp))"
    and free: "\<And>c r. job_res (sps_heap sp) c = Some r \<Longrightarrow> oa_index (hv_owner r) \<noteq> i"
    and id: "hl_next_owner (sps_heap sp) \<le> no" "no \<noteq> 0"
      "\<And>a. x = Some a \<Longrightarrow> oa_index (acc_token a) = i \<and> oa_serial (acc_token a) \<noteq> 0 \<and> oa_serial (acc_token a) < no"
    and h': "h' = (sps_heap sp)\<lparr>hl_placement := pl, hl_accounts := (hl_accounts (sps_heap sp))[i := x], hl_next_owner := no\<rparr>"
    and ch: "charges_ok (length (sps_slots sp)) (lifetimes sp) h'"
    and pl: "placed_ok (lifetimes sp) (job_res (sps_heap sp)) ((tokens (sps_heap sp))(i := map_option acc_token x))
      (length (hl_accounts (sps_heap sp))) pl"
  shows "heap_inv (ledger_update (\<lambda>_. h') sp)"
proof -
  let ?sp = "ledger_update (\<lambda>_. h') sp" and ?h = "sps_heap sp"
  have hh: "sps_heap ?sp = heap_ledger_advance h'" "sps_slots ?sp = sps_slots sp" by (simp_all add: ledger_update_def)
  have hs: "hl_accounts h' = (hl_accounts ?h)[i := x]" "hl_cleanup h' = hl_cleanup ?h" "hl_placement h' = pl"
    "hl_workers h' = hl_workers ?h" "hl_next_worker h' = hl_next_worker ?h" "hl_next_owner h' = no" "hl_next_job h' = hl_next_job ?h"
    by (simp_all add: h')
  have v: "lifetimes ?sp = lifetimes sp" "job_res (sps_heap ?sp) = job_res ?h"
    "tokens (sps_heap ?sp) = (tokens ?h)(i := map_option acc_token x)"
    using i by (auto simp: fun_eq_iff lifetimes_def job_res_def tokens_def hh hs)
  show ?thesis
  proof (rule heap_invI)
    show "sp_wf ?sp" using heap_invD(1)[OF inv] by simp
    have "identity_ok (length (sps_slots sp)) (lifetimes sp) (job_res ?h) ((tokens ?h)(i := map_option acc_token x)) no (hl_next_job ?h)"
      by (rule identity_tokens[OF heap_invD(2)[OF inv] refl id(1,2) _ free]) (use id(3) in auto)
    then show "identity_ok (length (sps_slots ?sp)) (lifetimes ?sp) (job_res (sps_heap ?sp)) (tokens (sps_heap ?sp))
        (hl_next_owner (sps_heap ?sp)) (hl_next_job (sps_heap ?sp))" unfolding v by (simp add: hh hs)
    show "charges_ok (length (sps_slots ?sp)) (lifetimes ?sp) (sps_heap ?sp)"
      using ch unfolding v by (simp add: hh charges_ok_def tokens_def)
    show "placed_ok (lifetimes ?sp) (job_res (sps_heap ?sp)) (tokens (sps_heap ?sp)) (length (hl_accounts (sps_heap ?sp)))
      (hl_placement (sps_heap ?sp))" using pl unfolding v by (simp add: hh hs)
    show "workers_ok (sps_heap ?sp)" using heap_invD(6)[OF inv] by (simp add: workers_ok_def hh hs)
    show "stages_ok ?sp"
      unfolding stages_ok_def
    proof (intro allI impI, elim conjE)
      fix c job rec a
      assume j: "row_at (hl_cleanup (sps_heap ?sp)) c = Some job"
        "heap_slot_record (sps_slots ?sp ! hv_slot (cr_reservation job)) = Some rec"
        "row_at (hl_accounts (sps_heap ?sp)) (oa_index (hv_owner (cr_reservation job))) = Some a"
      have "oa_index (hv_owner (cr_reservation job)) \<noteq> i" using free[of c "cr_reservation job"] j(1) by (simp add: job_res_def hh hs)
      then have "row_at (hl_accounts ?h) (oa_index (hv_owner (cr_reservation job))) = Some a" using j(3) by (auto simp: hh hs)
      then show "stage_ok (ps_state (sps_slots ?sp ! hv_slot (cr_reservation job))) rec job (acc_closed a)"
        using heap_invD(5)[OF inv] j(1,2) unfolding stages_ok_def by (simp add: hh hs)
    qed
  qed
qed

lemma job_owner_token:
  assumes "heap_inv sp" "job_res (sps_heap sp) c = Some r"
  shows "tokens (sps_heap sp) (oa_index (hv_owner r)) = Some (hv_owner r)"
  using identity_okD(2)[OF heap_invD(2)[OF assms(1)] assms(2)] by blast

lemma host_owner_token:
  assumes "heap_inv sp" "row_at (hl_host_storage (sps_heap sp)) k = Some s"
  shows "tokens (sps_heap sp) (oa_index (hsv_account (hsr_token s))) = Some (hsv_account (hsr_token s))" "hsr_rounded s \<noteq> 0"
  using charges_okD(5)[OF heap_invD(3)[OF assms(1)]] assms(2) unfolding host_rows_ok_def by blast+

lemma heap_inv_admit:
  assumes inv: "heap_inv sp"
  shows "\<exists>res sp'. admit_owner sp owner limit = Some (res, sp') \<and> heap_inv sp'"
proof (cases "admit_plan sp owner")
  case (Inl e)
  then show ?thesis using inv by (simp add: admit_owner_def)
next
  case (Inr t)
  let ?h = "sps_heap sp"
  from Inr obtain i where x: "position (\<lambda>r. r = None) (hl_accounts ?h) = Some i" "hl_next_owner ?h \<noteq> u64_max"
    "t = \<lparr>oa_index = i, oa_serial = hl_next_owner ?h\<rparr>"
    by (auto simp: admit_plan_def Let_def result_simps)
  have i: "i < length (hl_accounts ?h)" "row_at (hl_accounts ?h) i = None" using position_SomeD[OF x(1)] by (auto simp: row_at_def)
  have ti: "tokens ?h i = None" "oa_index t = i" using i by (simp_all add: tokens_def x(3))
  have up: "unat (hl_next_owner ?h + 1) = unat (hl_next_owner ?h) + 1" using x(2) unat_succ_u64[of "hl_next_owner ?h"] by simp
  have free: "oa_index (hv_owner r) \<noteq> i" if "job_res ?h c = Some r" for c r using job_owner_token[OF inv that] ti by auto
  have host: "oa_index (hsv_account (hsr_token s)) \<noteq> i" if "row_at (hl_host_storage ?h) k = Some s" for k s
    using host_owner_token[OF inv that] ti by auto
  let ?a = "\<lparr>acc_token = t, acc_owner = owner, acc_closed = False, acc_limit = limit, acc_reserved = 0\<rparr> :: account"
  have "\<exists>pl. bind_arena (hl_placement ?h) i (map_option oa_serial (Some t)) = Some pl
      \<and> placed_ok (lifetimes sp) (job_res ?h) ((tokens ?h)(i := Some t)) (length (hl_accounts ?h)) pl"
    by (rule placed_bind[OF heap_invD(4)[OF inv] i(1)]) (rule free)
  then obtain pl where pl: "bind_arena (hl_placement ?h) i (Some (oa_serial t)) = Some pl"
      "placed_ok (lifetimes sp) (job_res ?h) ((tokens ?h)(i := Some t)) (length (hl_accounts ?h)) pl" by auto
  let ?h' = "?h\<lparr>hl_placement := pl, hl_accounts := (hl_accounts ?h)[i := Some ?a], hl_next_owner := hl_next_owner ?h + 1\<rparr>"
  have "usage (length (sps_slots sp)) (lifetimes sp) (hl_host_storage ?h) t = 0"
    by (rule usage_zero[OF heap_invD(2)[OF inv]]) (use host free ti(2) in auto)
  then have ch: "charges_ok (length (sps_slots sp)) (lifetimes sp) ?h'"
    by (intro charges_row[OF heap_invD(3)[OF inv] i(1)]) (use i(2) host in \<open>auto simp: same_limits_def\<close>)
  have "heap_inv (ledger_update (\<lambda>_. ?h') sp)"
    by (rule heap_inv_owner_row[OF inv i(1) free _ _ _ refl ch])
      (use up pl(2) identity_okD(8)[OF heap_invD(2)[OF inv]] in \<open>auto simp: word_le_nat_alt word_less_nat_alt x(3)\<close>)
  moreover have "admit_owner sp owner limit = Some (Inr t, ledger_update (\<lambda>_. ?h') sp)"
    using Inr pl(1) ti(2) by (simp add: admit_owner_def ledger_update_def x(3))
  ultimately show ?thesis by blast
qed

lemma heap_inv_release_owner:
  assumes inv: "heap_inv sp"
  shows "\<exists>res sp'. release_owner sp owner = Some (res, sp') \<and> heap_inv sp'"
proof (cases "question (account_of sp owner) (\<lambda>a.
           question (ensure (acc_closed a \<and> acc_reserved a = 0
               \<and> \<not> list_ex (\<lambda>j. hv_owner (cr_reservation j) = owner) (flatten (hl_cleanup (sps_heap sp)))) HBusy) (\<lambda>_.
           check_arena (hl_placement (sps_heap sp)) (oa_index owner) (Some (oa_serial owner))))")
  case (Inl e)
  then show ?thesis using inv by (simp add: release_owner_def Let_def)
next
  case (Inr u)
  let ?h = "sps_heap sp" and ?i = "oa_index owner"
  from Inr obtain a where x: "account_of sp owner = Inr a" "acc_reserved a = 0"
    "\<not> list_ex (\<lambda>j. hv_owner (cr_reservation j) = owner) (flatten (hl_cleanup ?h))"
    by (auto simp: result_simps)
  have a: "row_at (hl_accounts ?h) ?i = Some a" "acc_token a = owner" using x(1) by (simp_all add: account_of_Inr)
  have i: "?i < length (hl_accounts ?h)" and ti: "tokens ?h ?i = Some owner" using a by (simp_all add: row_at_Some tokens_def)
  have nojob: "hv_owner r \<noteq> owner" if "job_res ?h c = Some r" for c r
    using x(3) that set_flatten[of _ "hl_cleanup ?h"] by (auto simp: job_res_def list_ex_iff)
  have free: "oa_index (hv_owner r) \<noteq> ?i" if "job_res ?h c = Some r" for c r
    using job_owner_token[OF inv that] nojob[OF that] ti by auto
  have use0: "usage (length (sps_slots sp)) (lifetimes sp) (hl_host_storage ?h) owner = 0"
    using charges_okD(1)[OF heap_invD(3)[OF inv] a(1)] x(2) a(2) by simp
  have host: "oa_index (hsv_account (hsr_token s)) \<noteq> ?i" if s: "row_at (hl_host_storage ?h) k = Some s" for k s
  proof
    assume "oa_index (hsv_account (hsr_token s)) = ?i"
    then have "hsv_account (hsr_token s) = owner" using host_owner_token(1)[OF inv s] ti by (metis option.inject)
    then have "unat (hsr_rounded s) \<le> row_sum (hosted owner) (hl_host_storage ?h)"
      using row_sum_member[OF s, of "hosted owner"] by (simp add: hosted_def)
    then show False using use0 host_owner_token(2)[OF inv s] by (simp add: usage_def unat_eq_0)
  qed
  have "\<exists>pl. bind_arena (hl_placement ?h) ?i (map_option oa_serial (None :: owner_account option)) = Some pl
      \<and> placed_ok (lifetimes sp) (job_res ?h) ((tokens ?h)(?i := None)) (length (hl_accounts ?h)) pl"
    by (rule placed_bind[OF heap_invD(4)[OF inv] i]) (rule free)
  then obtain pl where pl: "bind_arena (hl_placement ?h) ?i None = Some pl"
      "placed_ok (lifetimes sp) (job_res ?h) ((tokens ?h)(?i := None)) (length (hl_accounts ?h)) pl" by auto
  let ?h' = "?h\<lparr>hl_placement := pl, hl_accounts := (hl_accounts ?h)[?i := None], hl_next_owner := hl_next_owner ?h\<rparr>"
  have ch: "charges_ok (length (sps_slots sp)) (lifetimes sp) ?h'"
    by (intro charges_row[OF heap_invD(3)[OF inv] i]) (use a x(2) host in \<open>auto simp: same_limits_def\<close>)
  have "heap_inv (ledger_update (\<lambda>_. ?h') sp)"
    by (rule heap_inv_owner_row[OF inv i free _ _ _ refl ch]) (use pl(2) identity_okD(8)[OF heap_invD(2)[OF inv]] in simp_all)
  moreover have "release_owner sp owner = Some (Inr (), ledger_update (\<lambda>_. ?h') sp)"
    using Inr pl(1) by (simp add: release_owner_def Let_def ledger_update_def)
  ultimately show ?thesis by blast
qed

lemma close_slot_sel [simp]:
  "heap_slot_record (close_slot_of t s) = heap_slot_record s" "ps_generation (close_slot_of t s) = ps_generation s"
  "slot_trimmable (close_slot_of t s) = slot_trimmable s"
  by (auto simp: close_slot_of_def heap_slot_record_def slot_trimmable_def split: slot_record.split)

lemma close_slot_state:
  "heap_slot_record s = Some rec \<Longrightarrow> ps_state (close_slot_of t s)
    = (if hr_owner rec = t \<and> (ps_state s = SReserved \<or> ps_state s = SLive) then SClosing else ps_state s)"
  by (auto simp: close_slot_of_def heap_slot_RHeap)

lemma row_at_map: "row_at (map (map_option f) xs) i = map_option f (row_at xs i)"
  by (simp add: row_at_def)

lemma close_stage:
  assumes "stage_ok st rec job closed" "slot_reserved_state st"
  shows "stage_ok (if st = SReserved \<or> st = SLive then SClosing else st) rec (job\<lparr>cr_queued := True\<rparr>) True"
  using assms unfolding stage_ok_def
  by (cases st) (auto simp: slot_reserved_state_def pending_state_def progress_valid_def lease_stage_def
      split: heap_scrub_progress.splits job_lease.splits)

lemma heap_inv_close_owner:
  assumes inv: "heap_inv sp" and e: "close_owner sp owner = (res, sp')"
  shows "heap_inv sp'"
proof (cases "sp' = sp")
  case True
  then show ?thesis using inv by simp
next
  case False
  let ?h = "sps_heap sp" and ?i = "oa_index owner"
  define q :: "cleanup_record \<Rightarrow> cleanup_record" where "q = (\<lambda>job. if hv_owner (cr_reservation job) = owner then job\<lparr>cr_queued := True\<rparr> else job)"
  have q: "queue_job_of owner = map_option q" by (simp add: fun_eq_iff queue_job_of_def q_def)
  from e False obtain a where x: "account_of sp owner = Inr a"
    "sp' = ledger_update (\<lambda>h. h\<lparr>hl_accounts := (hl_accounts h)[?i := Some (a\<lparr>acc_closed := True\<rparr>)],
       hl_cleanup := map (map_option q) (hl_cleanup h)\<rparr>) (sp\<lparr>sps_slots := map (close_slot_of owner) (sps_slots sp)\<rparr>)"
    by (auto simp: close_owner_def q split: sum.splits if_splits)
  have a: "row_at (hl_accounts ?h) ?i = Some a" "acc_token a = owner" using x(1) by (simp_all add: account_of_Inr)
  have i: "?i < length (hl_accounts ?h)" "hl_accounts ?h ! ?i = Some a" using a(1) by (simp_all add: row_at_Some)
  have hh: "hl_accounts (sps_heap sp') = (hl_accounts ?h)[?i := Some (a\<lparr>acc_closed := True\<rparr>)]"
    "hl_cleanup (sps_heap sp') = map (map_option q) (hl_cleanup ?h)" "hl_placement (sps_heap sp') = hl_placement ?h"
    "hl_workers (sps_heap sp') = hl_workers ?h" "hl_next_worker (sps_heap sp') = hl_next_worker ?h"
    "hl_next_owner (sps_heap sp') = hl_next_owner ?h" "hl_next_job (sps_heap sp') = hl_next_job ?h"
    "hl_host_storage (sps_heap sp') = hl_host_storage ?h" "hl_reserved_bytes (sps_heap sp') = hl_reserved_bytes ?h"
    "same_limits ?h (sps_heap sp')" "sps_slots sp' = map (close_slot_of owner) (sps_slots sp)"
    by (simp_all add: x(2) ledger_update_def same_limits_def)
  have qs: "cr_reservation (q job) = cr_reservation job" "cr_lease (q job) = cr_lease job" for job by (simp_all add: q_def)
  have v: "lifetimes sp' = lifetimes sp" "job_res (sps_heap sp') = job_res ?h" "tokens (sps_heap sp') = tokens ?h"
    using a by (auto simp: fun_eq_iff lifetimes_def lifetime_of_def job_res_def tokens_def hh row_at_map qs option.map_comp comp_def)
  show ?thesis
  proof (rule heap_invI)
    show "sp_wf sp'" using heap_invD(1)[OF inv] unfolding x(2) sp_wf_ledger by (simp add: sp_wf_def)
    show "identity_ok (length (sps_slots sp')) (lifetimes sp') (job_res (sps_heap sp')) (tokens (sps_heap sp'))
        (hl_next_owner (sps_heap sp')) (hl_next_job (sps_heap sp'))" using heap_invD(2)[OF inv] unfolding v by (simp add: hh)
    note C = charges_okD[OF heap_invD(3)[OF inv]]
    show "charges_ok (length (sps_slots sp')) (lifetimes sp') (sps_heap sp')"
    proof (rule charges_okI)
      fix k b assume "row_at (hl_accounts (sps_heap sp')) k = Some b"
      then have "\<exists>b0. row_at (hl_accounts ?h) k = Some b0 \<and> acc_token b = acc_token b0 \<and> acc_reserved b = acc_reserved b0 \<and> acc_limit b = acc_limit b0"
        using a i by (auto simp: hh split: if_splits)
      then show "unat (acc_reserved b) = usage (length (sps_slots sp')) (lifetimes sp') (hl_host_storage (sps_heap sp')) (acc_token b)
        \<and> acc_reserved b \<le> acc_limit b" using C(1,2) unfolding v by (auto simp: hh)
    next
      show "unat (hl_reserved_bytes (sps_heap sp')) = row_sum (\<lambda>a. unat (acc_reserved a)) (hl_accounts (sps_heap sp'))"
        using row_sum_update[OF i(1), of "\<lambda>a. unat (acc_reserved a)" "Some (a\<lparr>acc_closed := True\<rparr>)"] i(2) C(3) by (simp add: hh)
    qed (use C(4,5) hh(10) in \<open>simp_all add: hh same_limits_def host_rows_ok_def v\<close>)
    show "placed_ok (lifetimes sp') (job_res (sps_heap sp')) (tokens (sps_heap sp')) (length (hl_accounts (sps_heap sp')))
      (hl_placement (sps_heap sp'))" using heap_invD(4)[OF inv] unfolding v by (simp add: hh)
    show "workers_ok (sps_heap sp')" using heap_invD(6)[OF inv] by (auto simp: workers_ok_def hh row_at_map qs)
    show "stages_ok sp'" unfolding stages_ok_def
    proof (intro allI impI, elim conjE)
      fix c job rec b
      assume j: "row_at (hl_cleanup (sps_heap sp')) c = Some job"
        "heap_slot_record (sps_slots sp' ! hv_slot (cr_reservation job)) = Some rec"
        "row_at (hl_accounts (sps_heap sp')) (oa_index (hv_owner (cr_reservation job))) = Some b"
      from j(1) obtain job0 where j0: "row_at (hl_cleanup ?h) c = Some job0" "job = q job0" by (auto simp: hh row_at_map)
      let ?r = "cr_reservation job0"
      from inv j0(1) obtain rec0 b0 where w: "reservation_record sp ?r = Inr rec0" "account_of sp (hv_owner ?r) = Inr b0"
        "stage_ok (ps_state (sps_slots sp ! hv_slot ?r)) rec0 job0 (acc_closed b0)" by (rule job_view)
      note wr = w(1)[unfolded reservation_record_Inr]
      have slot: "sps_slots sp' ! hv_slot ?r = close_slot_of owner (sps_slots sp ! hv_slot ?r)" using wr by (simp add: hh)
      have rec: "rec = rec0" "hr_owner rec0 = hv_owner ?r" using wr j(2) slot by (auto simp: j0(2) qs)
      have st: "ps_state (sps_slots sp' ! hv_slot ?r) = (if hv_owner ?r = owner \<and> (ps_state (sps_slots sp ! hv_slot ?r) = SReserved
          \<or> ps_state (sps_slots sp ! hv_slot ?r) = SLive) then SClosing else ps_state (sps_slots sp ! hv_slot ?r))"
        using close_slot_state[of "sps_slots sp ! hv_slot ?r" rec0 owner] wr rec(2) by (simp add: slot)
      show "stage_ok (ps_state (sps_slots sp' ! hv_slot (cr_reservation job))) rec job (acc_closed b)"
      proof (cases "hv_owner ?r = owner")
        case True
        then have "acc_closed b" using j(3) i by (auto simp: hh j0(2) qs row_at_Some)
        have "slot_reserved_state (ps_state (sps_slots sp ! hv_slot ?r))" using wr by blast
        from close_stage[OF w(3) this] st True
        have "stage_ok (ps_state (sps_slots sp' ! hv_slot ?r)) rec0 (job0\<lparr>cr_queued := True\<rparr>) True" by (simp only: simp_thms)
        then show ?thesis using True rec(1) \<open>acc_closed b\<close> by (simp add: j0(2) qs) (simp add: q_def)
      next
        case False
        have "oa_index (hv_owner ?r) \<noteq> ?i" using False w(2) a by (auto simp: account_of_Inr)
        then have "b = b0" using j(3) w(2) by (simp add: hh j0(2) qs account_of_Inr)
        then show ?thesis using w(3) False st rec(1) by (simp add: j0(2) qs) (simp add: q_def)
      qed
    qed
  qed
qed

section \<open>Local pointers in the same registry\<close>

lemma heap_inv_local_slot:
  assumes inv: "heap_inv sp" and wf: "sp_wf sp'" and sl: "sps_slots sp' = (sps_slots sp)[i := s]"
    and "i < length (sps_slots sp) \<Longrightarrow> heap_slot_record (sps_slots sp ! i) = None" "heap_slot_record s = None"
    and "sps_heap sp' = (sps_heap sp)\<lparr>hl_revision := rv\<rparr>"
  shows "heap_inv sp'"
proof (rule heap_inv_same_heap[OF inv wf _ _ assms(6)])
  show "length (sps_slots sp') = length (sps_slots sp)" by (simp add: sl)
  fix j assume "j < length (sps_slots sp)" "heap_slot_record (sps_slots sp ! j) \<noteq> None \<or> heap_slot_record (sps_slots sp' ! j) \<noteq> None"
  then show "sps_slots sp' ! j = sps_slots sp ! j" using assms(4,5) by (cases "j = i") (simp_all add: sl)
qed

lemma heap_inv_local_step:
  assumes "sp_step sp sp'" and inv: "heap_inv sp"
  shows "heap_inv sp'"
  using assms(1)
proof cases
  case (sp_enter owner r)
  have "sps_slots sp' = sps_slots sp" "sps_heap sp' = (sps_heap sp)\<lparr>hl_revision := hl_revision (sps_heap sp')\<rparr>"
    using sp_enter by (auto simp: enter_scope_for_def Let_def heap_ledger_advance_def split: sum.splits option.splits)
  then show ?thesis using sp_wf_enter[OF sp_enter heap_invD(1)[OF inv]] by (metis heap_inv_same_heap inv)
next
  case (sp_bind_frame scope fr)
  then have "sps_slots sp' = sps_slots sp" "sps_heap sp' = (sps_heap sp)\<lparr>hl_revision := hl_revision (sps_heap sp)\<rparr>"
    by (auto simp: bind_frame_def split: option.splits if_splits)
  then show ?thesis using sp_wf_bind_frame[OF sp_bind_frame heap_invD(1)[OF inv]] by (metis heap_inv_same_heap inv)
next
  case (sp_register scope domain base ln writable rp)
  show ?thesis
  proof (cases "sp' = sp")
    case False
    then obtain i s where i: "free_slot sp = Some i" "sps_slots sp' = (sps_slots sp)[i := s]" "heap_slot_record s = None"
      "sps_heap sp' = heap_ledger_advance (sps_heap sp)"
      using sp_register by (auto simp: register_def Let_def heap_slot_record_def split: if_splits option.splits)
    have "heap_slot_record (sps_slots sp ! i) = None"
      using free_slot_no_lifetime[OF inv i(1)] by (auto simp: lifetimes_def lifetime_of_def)
    then show ?thesis
      using heap_inv_local_slot[OF inv sp_wf_register[OF sp_register heap_invD(1)[OF inv]] i(2)] i(3,4) by (simp add: heap_ledger_advance_def)
  qed (use inv in simp)
next
  case (sp_bind_backing p b)
  then obtain s a where "sps_slots sp ! sp_slot p = s" "ps_record s = RLocal a"
    "sp' = sp\<lparr>sps_slots := (sps_slots sp)[sp_slot p := s\<lparr>ps_record := RLocal (a\<lparr>la_backing := Some b\<rparr>)\<rparr>]\<rparr>"
    by (auto simp: bind_backing_def slot_at_def split: option.splits if_splits slot_record.splits)
  then show ?thesis using sp_wf_bind_backing[OF sp_bind_backing heap_invD(1)[OF inv]]
    by (intro heap_inv_local_slot[OF inv, of sp' "sp_slot p" _ "hl_revision (sps_heap sp)"]) (auto simp: heap_slot_record_def)
next
  case (sp_take_backing p rb)
  show ?thesis
  proof (cases "sp' = sp")
    case False
    then obtain s a where "sps_slots sp ! sp_slot p = s" "ps_record s = RLocal a"
      "sp' = sp\<lparr>sps_slots := (sps_slots sp)[sp_slot p := s\<lparr>ps_record := RLocal (a\<lparr>la_backing := None\<rparr>)\<rparr>]\<rparr>"
      using sp_take_backing by (auto simp: take_backing_def slot_at_def split: option.splits if_splits slot_record.splits)
    then show ?thesis using sp_wf_take_backing[OF sp_take_backing heap_invD(1)[OF inv]]
      by (intro heap_inv_local_slot[OF inv, of sp' "sp_slot p" _ "hl_revision (sps_heap sp)"]) (auto simp: heap_slot_record_def)
  qed (use inv in simp)
next
  case (sp_leave scope ru)
  show ?thesis
  proof (cases "sp' = sp")
    case False
    then obtain u where r: "leave_scope sp scope = Some (Inr u, sp')" using sp_leave leave_scope_Inl by (cases ru) blast+
    have hp: "sps_heap sp' = heap_ledger_advance (sps_heap sp)" using r by (rule leave_scope_Inr)
    have len: "length (sps_slots sp') = length (sps_slots sp)"
      using r by (rule leave_scope_Inr) (use heap_invD(1)[OF inv] in \<open>auto simp: sp_wf_def min_def\<close>)
    have rel: "heap_slot_record (release_in_scope scope s) = heap_slot_record s"
      "heap_slot_record s \<noteq> None \<Longrightarrow> release_in_scope scope s = s" for s
      by (auto simp: release_in_scope_def heap_slot_record_def slot_release_def split: slot_record.splits)
    show ?thesis
    proof (rule heap_inv_same_heap[OF inv sp_wf_leave[OF sp_leave heap_invD(1)[OF inv]] len])
      show "sps_heap sp' = (sps_heap sp)\<lparr>hl_revision := hl_revision (sps_heap sp')\<rparr>" by (simp add: hp heap_ledger_advance_def)
    qed (use leave_slot_nth[OF r] rel in auto)
  qed (use inv in simp)
qed

section \<open>The ledger as a state machine\<close>

text \<open>
  Every operation on the registry.  A commit runs on the state its plan was prepared on, as every caller
  of the source does within one borrow of the fabric.
\<close>

inductive ledger_step :: "scoped_pointers \<Rightarrow> scoped_pointers \<Rightarrow> bool" where
  step_local: "sp_step sp sp' \<Longrightarrow> ledger_step sp sp'"
| step_charge: "charge_heap_fabric_storage sp n = (res, sp') \<Longrightarrow> ledger_step sp sp'"
| step_admit: "admit_owner sp owner limit = Some (res, sp') \<Longrightarrow> ledger_step sp sp'"
| step_reserve: "reserve_heap sp t logical rv = Some (res, sp') \<Longrightarrow> ledger_step sp sp'"
| step_abort: "abort_heap sp r = Some (res, sp') \<Longrightarrow> ledger_step sp sp'"
| step_close: "close_heap sp t p = Some (res, sp') \<Longrightarrow> ledger_step sp sp'"
| step_close_owner: "close_owner sp t = (res, sp') \<Longrightarrow> ledger_step sp sp'"
| step_release_owner: "release_owner sp t = Some (res, sp') \<Longrightarrow> ledger_step sp sp'"
| step_release_closed: "release_closed_heap_accounts sp = Some sp' \<Longrightarrow> ledger_step sp sp'"
| step_attach: "prepare_heap_attachment sp r owner rv = Inr plan \<Longrightarrow> commit_heap_attachment sp plan = Some sp' \<Longrightarrow> ledger_step sp sp'"
| step_initialize: "commit_heap_initialization sp plan = Some sp' \<Longrightarrow> ledger_step sp sp'"
| step_publish: "prepare_heap_initialization sp r owner rv = Inr plan \<Longrightarrow>
    commit_heap_image_publication sp plan writable = Some (p, sp') \<Longrightarrow> ledger_step sp sp'"
| step_closure: "commit_attached_heap_closure sp cplan = Some (out, sp') \<Longrightarrow> ledger_step sp sp'"
| step_enroll: "enroll_cleanup_worker_record sp identity rv = (wres, sp') \<Longrightarrow> ledger_step sp sp'"
| step_claim: "prepare_heap_worker_claim sp worker identity r owner rv = Inr wplan \<Longrightarrow>
    commit_heap_worker_claim sp wplan = Some (lease, sp') \<Longrightarrow> ledger_step sp sp'"
| step_fence: "fence_cleanup_worker_record sp worker = (res, sp') \<Longrightarrow> ledger_step sp sp'"
| step_remove: "remove_cleanup_worker_record sp worker = (res, sp') \<Longrightarrow> ledger_step sp sp'"
| step_transition: "prepare_worker_transition sp lease owner recover = Inr rplan \<Longrightarrow>
    commit_heap_worker_recovery sp rplan = Some sp' \<Longrightarrow> ledger_step sp sp'"
| step_retire: "commit_heap_retirement sp tplan = Some sp' \<Longrightarrow> ledger_step sp sp'"
| step_scrub_begin: "prepare_heap_scrub_begin sp lease identity owner = Inr uplan \<Longrightarrow>
    commit_heap_scrub sp uplan = Some (status, sp') \<Longrightarrow> ledger_step sp sp'"
| step_scrub_chunk: "prepare_heap_scrub_chunk sp status0 identity owner amount = Inr uplan \<Longrightarrow>
    commit_heap_scrub sp uplan = Some (status, sp') \<Longrightarrow> ledger_step sp sp'"
| step_release: "prepare_heap_release sp status0 identity owner = Inr lplan \<Longrightarrow>
    commit_heap_release sp lplan = Some sp' \<Longrightarrow> ledger_step sp sp'"
| step_reserve_host: "reserve_host_storage sp t logical rv = (hres, sp') \<Longrightarrow> ledger_step sp sp'"
| step_release_host: "release_host_storage sp token = (res, sp') \<Longrightarrow> ledger_step sp sp'"
| step_work: "commit_heap_work_revision sp rv = Some sp' \<or> commit_heap_work_cleanup_revision sp rv = Some sp' \<Longrightarrow> ledger_step sp sp'"

definition ledger_init :: "scoped_pointers \<Rightarrow> bool" where
  "ledger_init sp \<longleftrightarrow> (\<exists>sz l. with_limits sz l = Inr sp) \<or> (\<exists>sz l pl. with_heap_placement sz l pl = Some (Inr sp))
     \<or> (\<exists>sz l pl k. with_heap_placement_and_workers sz l pl k = Some (Inr sp))"

lemma heap_inv_charge:
  assumes inv: "heap_inv sp" and e: "charge_heap_fabric_storage sp n = (res, sp')"
  shows "heap_inv sp'"
proof (cases "sp' = sp")
  case False
  let ?h = "sps_heap sp"
  from e False have x: "n \<le> hl_limit ?h - total_reserved_bytes sp" "sp' = sp\<lparr>sps_heap := ?h\<lparr>hl_fixed_bytes := hl_fixed_bytes ?h + n\<rparr>\<rparr>"
    by (auto simp: charge_heap_fabric_storage_def Let_def split: if_splits)
  note C = charges_okD[OF heap_invD(3)[OF inv]]
  have tot: "unat (total_reserved_bytes sp) = unat (hl_fixed_bytes ?h) + unat (hl_reserved_bytes ?h)"
    unfolding total_reserved_bytes_def using C(4) by (rule unat_plus_le)
  then have le: "unat (hl_fixed_bytes ?h) + unat (hl_reserved_bytes ?h) + unat n \<le> unat (hl_limit ?h)"
    using le_minus_unat[OF x(1)] C(4) by (simp add: word_le_nat_alt)
  then have "unat (hl_fixed_bytes ?h + n) = unat (hl_fixed_bytes ?h) + unat n" by (intro unat_plus_le[where c = "hl_limit ?h"]) simp
  then have "charges_ok (length (sps_slots sp)) (lifetimes sp) (sps_heap sp')"
    using heap_invD(3)[OF inv] le by (simp add: charges_ok_def x(2) tokens_def)
  moreover have "lifetimes sp' = lifetimes sp" "job_res (sps_heap sp') = job_res ?h" "tokens (sps_heap sp') = tokens ?h"
    by (simp_all add: fun_eq_iff lifetimes_def job_res_def tokens_def x(2))
  ultimately show ?thesis using heap_invD[OF inv]
    by (intro heap_invI) (simp_all add: x(2) stages_ok_def workers_ok_def sp_wf_def)
qed (use inv in simp)

lemma heap_inv_release_closed:
  "heap_inv sp \<Longrightarrow> \<exists>sp'. release_closed_from is sp = Some sp' \<and> heap_inv sp'"
proof (induction "is" arbitrary: sp)
  case (Cons i "is")
  show ?case
  proof (cases "hl_accounts (sps_heap sp) ! i")
    case (Some a)
    from heap_inv_release_owner[OF Cons.prems, of "acc_token a"] obtain res sp1
      where "release_owner sp (acc_token a) = Some (res, sp1)" "heap_inv sp1" by blast
    then show ?thesis using Some Cons.IH[of sp1] Cons.IH[OF Cons.prems] by simp
  qed (use Cons in simp)
qed simp

interpretation ledger_sys: step_system ledger_init ledger_step heap_inv
proof
  show "heap_inv sp" if "ledger_init sp" for sp
    using that unfolding ledger_init_def using heap_inv_empty heap_inv_placement heap_inv_workers_new by blast
  show "heap_inv sp'" if "ledger_step sp sp'" "heap_inv sp" for sp sp'
    using that
  proof (induction rule: ledger_step.induct)
    case (step_admit sp owner limit res sp')
    then show ?case using heap_inv_admit[of sp owner limit] by auto
  next
    case (step_reserve sp t logical rv res sp')
    then show ?case using heap_inv_reserve[of sp t logical rv] by auto
  next
    case (step_abort sp r res sp')
    then show ?case using heap_inv_abort[of sp r] by auto
  next
    case (step_release_owner sp t res sp')
    then show ?case using heap_inv_release_owner[of sp t] by auto
  next
    case (step_release_closed sp sp')
    then show ?case using heap_inv_release_closed[of sp "[0..<length (hl_accounts (sps_heap sp))]"]
      by (auto simp: release_closed_heap_accounts_def)
  next
    case (step_initialize sp plan sp')
    then show ?case using heap_inv_advance[of sp] by (auto simp: commit_heap_initialization_def split: if_splits)
  next
    case (step_release sp status0 identity owner lplan sp')
    then show ?case using heap_inv_release[of sp status0 identity owner lplan] by auto
  next
    case (step_work sp rv sp')
    then show ?case using heap_inv_advance[of sp]
      by (auto simp: commit_heap_work_revision_def commit_heap_work_cleanup_revision_def split: if_splits)
  qed (blast intro: heap_inv_local_step heap_inv_charge heap_inv_close_heap heap_inv_close_owner heap_inv_attachment
      heap_inv_publication heap_inv_closure heap_inv_enroll heap_inv_claim heap_inv_fence heap_inv_remove_worker
      heap_inv_recovery heap_inv_retirement heap_inv_scrub_begin heap_inv_scrub_chunk heap_inv_reserve_host heap_inv_release_host)+
qed

end
