(* ===== verification/Heap_Ledger_Claims.thy ===== *)
theory Heap_Ledger_Claims
  imports Heap_Ledger_Sys
begin

text \<open>
  What the private heap ledger promises on every registry its operations can reach: charges are
  conserved and within their limits, live allocations never share memory, a discharged reservation is
  refused for ever, an abort undoes its reservation, and a retired allocation is scrubbed and released
  in a bounded number of steps.
\<close>

definition ledger_reachable :: "scoped_pointers \<Rightarrow> bool" where
  "ledger_reachable sp \<longleftrightarrow> reachable ledger_init ledger_step sp"

lemma ledger_reachable_inv: "ledger_reachable sp \<Longrightarrow> heap_inv sp"
  unfolding ledger_reachable_def by (rule ledger_sys.invariant_reachable)

lemma ledger_reachable_step: "ledger_reachable sp \<Longrightarrow> ledger_step sp sp' \<Longrightarrow> ledger_reachable sp'"
  unfolding ledger_reachable_def by (rule reach_step)

lemma ledger_reachable_steps: "ledger_reachable sp \<Longrightarrow> steps ledger_step sp sp' \<Longrightarrow> ledger_reachable sp'"
  unfolding ledger_reachable_def by (rule reachable_steps)

section \<open>Job numbers are never used twice\<close>

definition jobs_follow :: "scoped_pointers \<Rightarrow> scoped_pointers \<Rightarrow> bool" where
  "jobs_follow sp sp' \<longleftrightarrow> hl_next_job (sps_heap sp) \<le> hl_next_job (sps_heap sp')
     \<and> (\<forall>c r. job_res (sps_heap sp') c = Some r \<longrightarrow>
          job_res (sps_heap sp) c = Some r \<or> hl_next_job (sps_heap sp) \<le> hv_job r)"

lemma jobs_follow_same:
  "hl_next_job (sps_heap sp') = hl_next_job (sps_heap sp) \<Longrightarrow> job_res (sps_heap sp') = job_res (sps_heap sp) \<Longrightarrow> jobs_follow sp sp'"
  by (simp add: jobs_follow_def)

lemma jobs_follow_refl [simp]: "jobs_follow sp sp"
  by (simp add: jobs_follow_def)

lemma jobs_follow_trans: "jobs_follow a b \<Longrightarrow> jobs_follow b c \<Longrightarrow> jobs_follow a c"
  unfolding jobs_follow_def by (meson order_trans)

lemma jobs_follow_rows:
  assumes "hl_next_job (sps_heap sp') = hl_next_job (sps_heap sp)"
    and "hl_cleanup (sps_heap sp') = (hl_cleanup (sps_heap sp))[c := v]"
    and "v = None \<or> (\<exists>j j0. v = Some j \<and> row_at (hl_cleanup (sps_heap sp)) c = Some j0 \<and> cr_reservation j = cr_reservation j0)"
  shows "jobs_follow sp sp'"
  using assms unfolding jobs_follow_def by (auto simp: job_res_def split: if_splits)

lemma next_job_up: "(n::u64) \<noteq> u64_max \<Longrightarrow> n \<le> n + 1"
  using unat_succ_u64[of n] by (simp add: word_le_nat_alt)

lemma follow_local: "sp_step sp sp' \<Longrightarrow> jobs_follow sp sp'"
proof (rule jobs_follow_same)
  assume s: "sp_step sp sp'"
  have "hl_next_job (sps_heap sp') = hl_next_job (sps_heap sp) \<and> hl_cleanup (sps_heap sp') = hl_cleanup (sps_heap sp)"
    using s
  proof cases
    case (sp_leave scope ru)
    then show ?thesis using leave_scope_Inl[of sp scope] leave_scope_Inr[of sp scope] by (cases ru) (metis, metis heap_ledger_advance_sel(2,7))
  qed (auto simp: enter_scope_for_def bind_frame_def register_def bind_backing_def take_backing_def Let_def
      split: sum.splits option.splits if_splits slot_record.splits)
  then show "hl_next_job (sps_heap sp') = hl_next_job (sps_heap sp)" "job_res (sps_heap sp') = job_res (sps_heap sp)"
    by (simp_all add: job_res_def fun_eq_iff)
qed

lemma follow_reserve:
  assumes "heap_inv sp" "reserve_heap sp t logical rv = Some (res, sp')"
  shows "jobs_follow sp sp'"
proof (cases "reserve_plan sp t logical rv")
  case (Inl e)
  then show ?thesis using assms(2) by (simp add: reserve_heap_def)
next
  case (Inr x)
  then obtain r rec plan where p: "reserve_plan sp t logical rv = Inr (r, rec, plan)" by (cases x) auto
  from p have n: "hl_next_job (sps_heap sp) \<noteq> u64_max" "hv_job r = hl_next_job (sps_heap sp)"
    by (rule reserve_plan_checks, simp)+
  from assms(2) p obtain pl where "sp' = reserve_effect sp r rec pl" by (auto simp: reserve_heap_def split: option.splits)
  then show ?thesis using n next_job_up[OF n(1)]
    by (auto simp: jobs_follow_def job_res_def reserve_effect_def ledger_update_def account_charge_def split: if_splits)
qed

lemma follow_discharge: "jobs_follow sp (discharge_effect sp r rec pl)"
  by (rule jobs_follow_rows[where v = None]) (simp_all add: discharge_effect_def ledger_update_def account_charge_def)

lemma follow_update_job:
  assumes "\<And>j. cr_reservation (f j) = cr_reservation j" "sps_heap sp1 = sps_heap sp"
  shows "jobs_follow sp (ledger_update (update_job c f) sp1)"
proof (rule jobs_follow_same)
  have m: "map_option cr_reservation (map_option f x) = map_option cr_reservation x" for x using assms(1) by (cases x) simp_all
  have "job_res (update_job c f (sps_heap sp)) i = job_res (sps_heap sp) i" for i
    by (cases "c = i") (simp_all add: job_res_def update_job_def row_at_def m)
  then show "job_res (sps_heap (ledger_update (update_job c f) sp1)) = job_res (sps_heap sp)"
    by (simp add: ledger_update_def assms(2) fun_eq_iff job_res_def)
qed (simp add: assms(2) update_job_def ledger_update_def)

lemma follow_release_closed: "release_closed_from is sp = Some sp' \<Longrightarrow> jobs_follow sp sp'"
proof (induction "is" arbitrary: sp)
  case (Cons i "is")
  have "jobs_follow sp sp1" if "release_owner sp t = Some (res, sp1)" for t res sp1
    using that by (intro jobs_follow_same)
      (auto simp: release_owner_def Let_def ledger_update_def job_res_def fun_eq_iff split: sum.splits option.splits)
  then show ?case using Cons by (fastforce intro: jobs_follow_trans split: option.splits if_splits)
qed simp

lemma follow_scrub:
  assumes "cr_reservation (cup_next plan) = cr_reservation (cup_prior plan)" "commit_heap_scrub sp plan = Some (status, sp')"
  shows "jobs_follow sp sp'"
proof -
  from assms(2) have "row_at (hl_cleanup (sps_heap sp)) (cup_cleanup plan) = Some (cup_prior plan)"
    "sp' = ledger_update (\<lambda>h. h\<lparr>hl_cleanup := (hl_cleanup h)[cup_cleanup plan := Some (cup_next plan)]\<rparr>) sp"
    by (auto simp: commit_heap_scrub_def check_cleanup_commit_def split: if_splits)
  then show ?thesis using assms(1)
    by (intro jobs_follow_rows[where v = "Some (cup_next plan)" and c = "cup_cleanup plan"]) (auto simp: ledger_update_def)
qed

lemma cup_next_reservation:
  assumes "prepare_heap_scrub_begin sp lease identity owner = Inr plan \<or> prepare_heap_scrub_chunk sp status identity owner n = Inr plan"
  shows "cr_reservation (cup_next plan) = cr_reservation (cup_prior plan)"
proof -
  obtain p0 f where "cup_next p0 = cup_prior p0" "plan = p0\<lparr>cup_next := f (cup_next p0)\<rparr>" "\<And>j. cr_reservation (f j) = cr_reservation j"
    using assms
  proof (elim disjE)
    assume "prepare_heap_scrub_begin sp lease identity owner = Inr plan"
    then obtain p0 where p: "prepare_retired_cleanup sp lease identity owner None = Inr p0"
      "plan = p0\<lparr>cup_next := (cup_next p0)\<lparr>cr_progress := Scrubbing 0\<rparr>\<rparr>" by (auto simp: prepare_heap_scrub_begin_def result_simps)
    from p(1) have "cup_next p0 = cup_prior p0" by (rule retired_cleanup_Inr)
    then show thesis using that[of p0 "\<lambda>j. j\<lparr>cr_progress := Scrubbing 0\<rparr>"] p(2) by simp
  next
    assume "prepare_heap_scrub_chunk sp status identity owner n = Inr plan"
    then obtain p0 v s pr where p: "prepare_retired_cleanup sp (hcs_lease status) identity owner (Some status) = Inr p0"
      "plan = p0\<lparr>cup_next := (cup_next p0)\<lparr>cr_version := v, cr_sequence := s, cr_progress := pr\<rparr>\<rparr>"
      by (auto simp: prepare_heap_scrub_chunk_def Let_def result_simps)
    from p(1) have "cup_next p0 = cup_prior p0" by (rule retired_cleanup_Inr)
    then show thesis using that[of p0 "\<lambda>j. j\<lparr>cr_version := v, cr_sequence := s, cr_progress := pr\<rparr>"] p(2) by simp
  qed
  then show ?thesis by simp
qed

lemma follow_release:
  assumes "commit_heap_release sp plan = Some sp'"
  shows "jobs_follow sp sp'"
proof (rule jobs_follow_rows[where v = None and c = "cup_cleanup (hlp_cleanup plan)"])
  show "hl_next_job (sps_heap sp') = hl_next_job (sps_heap sp)"
    "hl_cleanup (sps_heap sp') = (hl_cleanup (sps_heap sp))[cup_cleanup (hlp_cleanup plan) := None]"
    using assms by (auto simp: commit_heap_release_def Let_def ledger_update_def account_charge_def split: if_splits option.splits)
qed simp

lemma follow_host:
  assumes "reserve_host_storage sp t logical rv = (res, sp')"
  shows "jobs_follow sp sp'"
proof (cases "sp' = sp")
  case False
  have "hl_next_job (sps_heap sp) \<noteq> u64_max \<and> hl_next_job (sps_heap sp') = hl_next_job (sps_heap sp) + 1
      \<and> hl_cleanup (sps_heap sp') = hl_cleanup (sps_heap sp)"
    using assms False by (auto simp: reserve_host_storage_def Let_def result_simps ledger_update_def account_charge_def split: sum.splits)
  then show ?thesis using next_job_up by (simp add: jobs_follow_def job_res_def)
qed simp

lemma queue_row: "map_option cr_reservation (row_at (map (queue_job_of t) xs) i) = map_option cr_reservation (row_at xs i)"
  by (cases "xs ! i") (auto simp: row_at_def queue_job_of_def)

lemma follow_step:
  assumes "ledger_step sp sp'" "heap_inv sp"
  shows "jobs_follow sp sp'"
  using assms
proof (induction rule: ledger_step.induct)
  case (step_local sp sp')
  show ?case using follow_local[OF step_local(1)] .
next
  case (step_reserve sp t logical rv res sp')
  show ?case using follow_reserve[OF step_reserve(2,1)] .
next
  case (step_abort sp r res sp')
  then show ?case using follow_discharge by (auto simp: abort_heap_def split: sum.splits option.splits prod.splits)
next
  case (step_close sp t p res sp')
  then show ?case
    by (auto simp: close_heap_def set_slot_state_def split: sum.splits option.splits intro!: follow_update_job)
next
  case (step_close_owner sp t res sp')
  then show ?case by (intro jobs_follow_same) (auto simp: close_owner_def queue_row ledger_update_def job_res_def fun_eq_iff
      split: sum.splits if_splits)
next
  case (step_release_closed sp sp')
  then show ?case using follow_release_closed by (simp add: release_closed_heap_accounts_def)
next
  case (step_scrub_begin sp lease identity owner uplan status sp')
  then show ?case using follow_scrub cup_next_reservation by blast
next
  case (step_scrub_chunk sp status0 identity owner amount uplan status sp')
  then show ?case using follow_scrub cup_next_reservation by blast
next
  case (step_release sp status0 identity owner lplan sp')
  then show ?case by (intro follow_release)
next
  case (step_reserve_host sp t logical rv hres sp')
  then show ?case by (intro follow_host)
next
  case (step_closure sp cplan out sp')
  then show ?case
    by (auto simp: commit_attached_heap_closure_def Let_def set_slot_state_def split: if_splits option.splits intro!: follow_update_job)
next
  case (step_claim sp worker identity r owner rv wplan lease sp')
  then show ?case by (auto simp: commit_heap_worker_claim_def split: if_splits option.splits intro!: follow_update_job)
next
  case (step_transition sp lease owner recover rplan sp')
  then show ?case by (auto simp: commit_heap_worker_recovery_def split: if_splits intro!: follow_update_job)
qed (rule jobs_follow_same, auto simp: charge_heap_fabric_storage_def admit_owner_def release_owner_def commit_heap_attachment_def
    commit_heap_initialization_def commit_heap_image_publication_def enroll_cleanup_worker_record_def fence_cleanup_worker_record_def
    remove_cleanup_worker_record_def commit_heap_retirement_def release_host_storage_def commit_heap_work_revision_def
    commit_heap_work_cleanup_revision_def account_charge_def set_slot_state_def set_slot_record_def
    Let_def ledger_update_def job_res_def fun_eq_iff split: if_splits sum.splits option.splits)+

section \<open>Charges and extents\<close>

definition slot_charge :: "owner_account \<Rightarrow> pslot \<Rightarrow> nat" where
  "slot_charge t s = (case heap_slot_record s of None \<Rightarrow> 0 | Some rec \<Rightarrow> if hr_owner rec = t then unat (hr_rounded rec) else 0)"

lemma owned_slot: "i < length (sps_slots sp) \<Longrightarrow> owned t (lifetimes sp i) = slot_charge t (sps_slots sp ! i)"
  by (auto simp: owned_def lifetimes_def lifetime_of_def slot_charge_def record_lifetime_def split: option.split)

lemma usage_slots:
  "usage (length (sps_slots sp)) (lifetimes sp) S t = (\<Sum>i<length (sps_slots sp). slot_charge t (sps_slots sp ! i)) + row_sum (hosted t) S"
  unfolding usage_def by (simp add: owned_slot)

lemma placed_extents:
  assumes inv: "heap_inv sp" and e: "reserved_extents sp r = Inr e"
  obtains p where "hl_placement (sps_heap sp) = Some p"
    "manager_ok (hp_physical p)" "manager_reservation_extent (hp_physical p) (reservation_key_of r) = Some (he_physical e)"
    "arena_ok (hp_virtual_arenas p ! oa_index (hv_owner r))"
    "virtual_reservation_extent (hp_virtual_arenas p ! oa_index (hv_owner r)) (reservation_key_of r) = Some (he_virtual e)"
    "\<exists>c. job_res (sps_heap sp) c = Some r"
proof -
  from e obtain rec p where x: "reservation_record sp r = Inr rec" "hl_placement (sps_heap sp) = Some p"
    by (auto simp: reserved_extents_def result_simps)
  from inv x obtain e' where e': "reserved_extents sp r = Inr e'"
    "manager_reservation_extent (hp_physical p) (reservation_key_of r) = Some (he_physical e')"
    "virtual_reservation_extent (hp_virtual_arenas p ! oa_index (hv_owner r)) (reservation_key_of r) = Some (he_virtual e')"
    by (rule job_extents)
  note P = placed_okD[OF heap_invD(4)[OF inv, unfolded x(2)]]
  have j: "job_res (sps_heap sp) (hr_cleanup rec) = Some r" using x(1) by (auto simp: reservation_record_Inr job_res_def)
  have "oa_index (hv_owner r) < length (hl_accounts (sps_heap sp))" using tokens_bound[OF job_owner_token[OF inv j]] .
  then show thesis using that[OF x(2) P(1) _ P(3)] e' e x(1) j by auto
qed

section \<open>Scrubbing to the end\<close>

text \<open>
  The work of a cleanup worker on one retired allocation: chunks of a page, the last one possibly
  shorter, until the job is clean.  \<open>n\<close> bounds the number of chunks.
\<close>

definition chunk_amount :: "heap_cleanup_status \<Rightarrow> u64 \<Rightarrow> u64" where
  "chunk_amount status rounded = min 4096 (rounded - status_done status rounded)"

fun scrub_run :: "nat \<Rightarrow> cleanup_worker_identity \<Rightarrow> allocation_owner \<Rightarrow> u64 \<Rightarrow> heap_cleanup_status \<Rightarrow> scoped_pointers
    \<Rightarrow> (heap_cleanup_status \<times> scoped_pointers) option" where
  "scrub_run 0 identity owner rounded status sp = Some (status, sp)"
| "scrub_run (Suc n) identity owner rounded status sp =
     (if status_is_clean status then Some (status, sp)
      else case prepare_heap_scrub_chunk sp status identity owner (chunk_amount status rounded) of
        Inl _ \<Rightarrow> None
      | Inr plan \<Rightarrow> (case commit_heap_scrub sp plan of
                       None \<Rightarrow> None
                     | Some (status', sp') \<Rightarrow> scrub_run n identity owner rounded status' sp'))"

text \<open>The allocation of \<open>status\<close> is retired and leased to the active worker \<open>identity\<close> for \<open>owner\<close>.\<close>

definition scrub_ready :: "scoped_pointers \<Rightarrow> heap_cleanup_status \<Rightarrow> cleanup_worker_identity \<Rightarrow> allocation_owner \<Rightarrow> heap_record \<Rightarrow> bool" where
  "scrub_ready sp status identity owner rec \<longleftrightarrow>
     (let r = cls_reservation (hcs_lease status) in
      reservation_record sp r = Inr rec \<and> ps_state (sps_slots sp ! hv_slot r) = SRetired
      \<and> row_at (hl_cleanup (sps_heap sp)) (hr_cleanup rec) = Some (hcs_job status) \<and> cr_reservation (hcs_job status) = r
      \<and> cr_lease (hcs_job status) = Held (cls_epoch (hcs_lease status)) (cls_worker (hcs_lease status))
      \<and> cls_epoch (hcs_lease status) \<noteq> 0
      \<and> current_worker sp (cls_worker (hcs_lease status)) identity = Inr ()
      \<and> (\<exists>a. account_of sp (hv_owner r) = Inr a \<and> acc_owner a = owner) \<and> hl_placement (sps_heap sp) \<noteq> None)"

lemma scrub_ready_plan:
  assumes inv: "heap_inv sp" and rdy: "scrub_ready sp status identity owner rec"
  obtains plan where "prepare_retired_cleanup sp (hcs_lease status) identity owner (Some status) = Inr plan"
    "cup_prior plan = hcs_job status" "cup_next plan = hcs_job status" "cup_cleanup plan = hr_cleanup rec"
    "cup_lease plan = hcs_lease status" "cup_revision plan = hl_revision (sps_heap sp)"
    "ext_size (he_physical (hcp_extents (cup_closure plan))) = hr_rounded rec"
    "hcp_reservation (cup_closure plan) = cls_reservation (hcs_lease status)" "hr_extents rec = Some (hcp_extents (cup_closure plan))"
proof -
  let ?r = "cls_reservation (hcs_lease status)" and ?h = "sps_heap sp"
  note R = rdy[unfolded scrub_ready_def Let_def]
  from R obtain a p where a: "account_of sp (hv_owner ?r) = Inr a" "acc_owner a = owner" "hl_placement ?h = Some p" by auto
  have rec: "reservation_record sp ?r = Inr rec" and row: "row_at (hl_cleanup ?h) (hr_cleanup rec) = Some (hcs_job status)"
    and jr: "cr_reservation (hcs_job status) = ?r" using R by blast+
  from inv row obtain rec' and a' :: account where v: "reservation_record sp (cr_reservation (hcs_job status)) = Inr rec'"
    "stage_ok (ps_state (sps_slots sp ! hv_slot (cr_reservation (hcs_job status)))) rec' (hcs_job status) (acc_closed a')" by (rule job_view)
  have "rec' = rec" using v(1) rec jr by simp
  then have st: "hr_ever_attached rec" "cr_queued (hcs_job status)" using v(2) R by (auto simp: jr stage_ok_def pending_state_def)
  from inv rec a(1) st(1) a(3) obtain e where e: "hr_extents rec = Some e" "ext_size (he_physical e) = hr_rounded rec"
    "prepare_attached_heap_closure sp ?r (acc_owner a) =
      Inr \<lparr>hcp_reservation = ?r, hcp_owner = acc_owner a, hcp_logical = hr_logical rec, hcp_writable = hr_writable rec,
           hcp_extents = e, hcp_cleanup = hr_cleanup rec, hcp_stage = ps_state (sps_slots sp ! hv_slot ?r),
           hcp_revision = hl_revision ?h\<rparr>" by (rule closure_ready)
  have nth: "hl_cleanup ?h ! hr_cleanup rec = Some (hcs_job status)" using row by (simp add: row_at_Some)
  have lease: "prepare_heap_worker_lease sp (hcs_lease status) identity owner
    = Inr \<lparr>hcp_reservation = ?r, hcp_owner = acc_owner a, hcp_logical = hr_logical rec, hcp_writable = hr_writable rec,
           hcp_extents = e, hcp_cleanup = hr_cleanup rec, hcp_stage = SRetired, hcp_revision = hl_revision ?h\<rparr>"
    using R e(3) a(2) st nth by (simp add: prepare_heap_worker_lease_def Let_def pending_state_def)
  show thesis using that[of "\<lparr>cup_closure = \<lparr>hcp_reservation = ?r, hcp_owner = acc_owner a, hcp_logical = hr_logical rec,
        hcp_writable = hr_writable rec, hcp_extents = e, hcp_cleanup = hr_cleanup rec, hcp_stage = SRetired, hcp_revision = hl_revision ?h\<rparr>,
      cup_lease = hcs_lease status, cup_cleanup = hr_cleanup rec, cup_prior = hcs_job status, cup_next = hcs_job status,
      cup_revision = hl_revision ?h\<rparr>"] lease rec nth e
    by (simp add: prepare_retired_cleanup_def hcp_is_retired_def)
qed

lemma scrub_ready_progress:
  assumes inv: "heap_inv sp" and rdy: "scrub_ready sp status identity owner rec"
  shows "progress_valid SRetired rec (hcs_job status)" "is_page_aligned (hr_rounded rec)"
proof -
  let ?r = "cls_reservation (hcs_lease status)"
  note R = rdy[unfolded scrub_ready_def Let_def]
  have row: "row_at (hl_cleanup (sps_heap sp)) (hr_cleanup rec) = Some (hcs_job status)" using R by blast
  from inv row obtain rec' and a' :: account where v: "reservation_record sp (cr_reservation (hcs_job status)) = Inr rec'"
    "stage_ok (ps_state (sps_slots sp ! hv_slot (cr_reservation (hcs_job status)))) rec' (hcs_job status) (acc_closed a')"
    "page_ceil (hr_logical rec') = Inr (hr_rounded rec')" by (rule job_view)
  have "rec' = rec" using v(1) R by auto
  then show "progress_valid SRetired rec (hcs_job status)" "is_page_aligned (hr_rounded rec)"
    using v(2,3) R page_ceil_Inr[OF v(3)] by (auto simp: stage_ok_def)
qed

lemma scrub_ready_frame:
  assumes rdy: "scrub_ready sp status identity owner rec"
    and j: "cr_reservation job = cr_reservation (hcs_job status)" "cr_lease job = cr_lease (hcs_job status)"
  shows "scrub_ready (ledger_update (\<lambda>h. h\<lparr>hl_cleanup := (hl_cleanup h)[hr_cleanup rec := Some job]\<rparr>) sp)
    \<lparr>hcs_lease = hcs_lease status, hcs_job = job\<rparr> identity owner rec"
proof -
  let ?sp = "ledger_update (\<lambda>h. h\<lparr>hl_cleanup := (hl_cleanup h)[hr_cleanup rec := Some job]\<rparr>) sp" and ?r = "cls_reservation (hcs_lease status)"
  note R = rdy[unfolded scrub_ready_def Let_def]
  have row: "row_at (hl_cleanup (sps_heap sp)) (hr_cleanup rec) = Some (hcs_job status)" "cr_reservation (hcs_job status) = ?r" using R by blast+
  have same: "account_of ?sp t = account_of sp t" "current_worker ?sp w identity = current_worker sp w identity" "sps_slots ?sp = sps_slots sp" for t w
    by (simp_all add: account_of_def current_worker_def worker_of_def ledger_update_def)
  have row': "row_at (hl_cleanup (sps_heap ?sp)) (hr_cleanup rec) = Some job" using row by (simp add: ledger_update_def row_at_Some)
  have "reservation_record ?sp ?r = Inr rec"
    using R row' j(1) row(2) unfolding reservation_record_Inr same by auto
  then show ?thesis using R row' j row(2) unfolding scrub_ready_def Let_def by (simp add: same) (simp add: ledger_update_def)
qed

lemma page_aligned_mod16:
  assumes "is_page_aligned w" shows "w mod 16 = 0"
proof -
  have "4096 dvd unat w" using assms by (simp add: page_aligned_iff mod_eq_0_iff_dvd)
  then have "16 dvd unat w" by (rule dvd_trans[rotated]) simp
  then show ?thesis by (simp add: word_unat_eq_iff unat_mod mod_eq_0_iff_dvd)
qed

lemma chunk_amount:
  assumes "d < rounded" "d mod 16 = 0" "is_page_aligned rounded" "cr_progress (hcs_job status) = Scrubbing d"
  shows "chunk_amount status rounded \<noteq> 0" "chunk_amount status rounded \<le> 4096" "chunk_amount status rounded mod 16 = 0"
    "chunk_amount status rounded \<le> rounded - d" "d + chunk_amount status rounded = rounded \<longleftrightarrow> unat rounded - unat d \<le> 4096"
    "unat rounded - unat d > 4096 \<Longrightarrow> chunk_amount status rounded = 4096"
proof -
  have a: "chunk_amount status rounded = min 4096 (rounded - d)" using assms(4) by (simp add: chunk_amount_def status_done_def)
  have s: "unat (rounded - d) = unat rounded - unat d" using assms(1) by (simp add: unat_sub word_less_nat_alt word_le_nat_alt)
  have m: "rounded mod 16 = 0" using assms(3) by (rule page_aligned_mod16)
  have "(rounded - d) mod 16 = 0"
    using m assms(2) assms(1) by (simp add: word_unat_eq_iff unat_mod s) (metis dvd_diff_nat mod_eq_0_iff_dvd)
  then show "chunk_amount status rounded mod 16 = 0" by (simp add: a min_def)
  show "chunk_amount status rounded \<noteq> 0" using assms(1) by (simp add: a min_def) auto
  show "chunk_amount status rounded \<le> 4096" "chunk_amount status rounded \<le> rounded - d" by (simp_all add: a)
  have le: "rounded - d \<le> 4096 \<longleftrightarrow> unat rounded - unat d \<le> 4096" by (simp add: word_le_nat_alt s)
  show "d + chunk_amount status rounded = rounded \<longleftrightarrow> unat rounded - unat d \<le> 4096"
    unfolding le[symmetric] by (auto simp: a min_def diff_eq_eq add.commute)
  show "chunk_amount status rounded = 4096" if "unat rounded - unat d > 4096"
    using that le by (auto simp: a min_def not_le)
qed

lemma scrub_chunk_step:
  assumes inv: "heap_inv sp" and rdy: "scrub_ready sp status identity owner rec"
    and pr: "cr_progress (hcs_job status) = Scrubbing d"
    and room: "unat (cr_version (hcs_job status)) + 1 < 2 ^ 64" "unat (cr_sequence (hcs_job status)) + 1 < 2 ^ 64"
  obtains plan status' sp' where
    "prepare_heap_scrub_chunk sp status identity owner (chunk_amount status (hr_rounded rec)) = Inr plan"
    "commit_heap_scrub sp plan = Some (status', sp')" "heap_inv sp'" "scrub_ready sp' status' identity owner rec"
    "hcs_lease status' = hcs_lease status"
    "unat (cr_version (hcs_job status')) = unat (cr_version (hcs_job status)) + 1"
    "unat (cr_sequence (hcs_job status')) = unat (cr_sequence (hcs_job status)) + 1"
    "unat (hr_rounded rec) - unat d \<le> 4096 \<Longrightarrow> status_is_clean status'"
    "unat (hr_rounded rec) - unat d > 4096 \<Longrightarrow> \<exists>d'. cr_progress (hcs_job status') = Scrubbing d' \<and> unat d' = unat d + 4096"
proof -
  let ?n = "chunk_amount status (hr_rounded rec)" and ?j = "hcs_job status" and ?w = "hr_rounded rec"
  from inv rdy obtain p0 where p: "prepare_retired_cleanup sp (hcs_lease status) identity owner (Some status) = Inr p0"
    "cup_prior p0 = ?j" "cup_next p0 = ?j" "cup_cleanup p0 = hr_cleanup rec" "cup_lease p0 = hcs_lease status"
    "cup_revision p0 = hl_revision (sps_heap sp)" "ext_size (he_physical (hcp_extents (cup_closure p0))) = ?w" by (rule scrub_ready_plan)
  have dw: "d < ?w" "d mod 16 = 0" using scrub_ready_progress(1)[OF inv rdy] pr by (simp_all add: progress_valid_def)
  note A = chunk_amount[OF dw scrub_ready_progress(2)[OF inv rdy] pr]
  define job' where "job' = ?j\<lparr>cr_version := cr_version ?j + 1, cr_sequence := cr_sequence ?j + 1,
    cr_progress := (if d + ?n = ?w then ScrubClean else Scrubbing (d + ?n))\<rparr>"
  have up: "checked_add (cr_version ?j) 1 = Some (cr_version ?j + 1)" "checked_add (cr_sequence ?j) 1 = Some (cr_sequence ?j + 1)"
    "unat (cr_version ?j + 1) = unat (cr_version ?j) + 1" "unat (cr_sequence ?j + 1) = unat (cr_sequence ?j) + 1"
    using room by (simp_all add: checked_add_def unat_word_ariths)
  have prep: "prepare_heap_scrub_chunk sp status identity owner ?n = Inr (p0\<lparr>cup_next := job'\<rparr>)"
    using p(1-3,7) pr A(1-4) up by (simp add: prepare_heap_scrub_chunk_def scrubbing_done_def job'_def)
  note R = rdy[unfolded scrub_ready_def Let_def]
  have gen: "ps_generation (sps_slots sp ! hv_slot (cls_reservation (hcs_lease status))) = hv_generation (cls_reservation (hcs_lease status))"
    using R unfolding reservation_record_Inr by blast
  have chk: "check_cleanup_commit sp (p0\<lparr>cup_next := job'\<rparr>)" using p R gen by (simp add: check_cleanup_commit_def Let_def)
  let ?sp = "ledger_update (\<lambda>h. h\<lparr>hl_cleanup := (hl_cleanup h)[hr_cleanup rec := Some job']\<rparr>) sp"
  have com: "commit_heap_scrub sp (p0\<lparr>cup_next := job'\<rparr>) = Some (\<lparr>hcs_lease = hcs_lease status, hcs_job = job'\<rparr>, ?sp)"
    using chk p(4,5) by (simp add: commit_heap_scrub_def)
  have inv': "heap_inv ?sp" using heap_inv_scrub_chunk[OF inv prep com] .
  have rdy': "scrub_ready ?sp \<lparr>hcs_lease = hcs_lease status, hcs_job = job'\<rparr> identity owner rec"
    by (rule scrub_ready_frame[OF rdy]) (simp_all add: job'_def)
  have more: "\<exists>d'. cr_progress job' = Scrubbing d' \<and> unat d' = unat d + 4096" if "unat ?w - unat d > 4096"
  proof -
    have n: "?n = 4096" "d + ?n \<noteq> ?w" using A(5,6) that by auto
    have "unat ?w < 2 ^ 64" by (rule order.strict_trans2[OF unsigned_less]) simp
    then have "unat d + 4096 < 2 ^ 64" using that by simp
    then have "unat (d + 4096) = unat d + 4096" by (simp add: unat_word_ariths)
    then show ?thesis using n by (simp add: job'_def)
  qed
  show thesis by (rule that[OF prep com inv' rdy']) (use up A(5) more in \<open>simp_all add: job'_def status_is_clean_def\<close>)
qed

lemma scrub_run_clean:
  assumes "heap_inv sp" "scrub_ready sp status identity owner rec" "cr_progress (hcs_job status) = Scrubbing d"
    and "unat (hr_rounded rec) - unat d \<le> 4096 * n" "unat (cr_version (hcs_job status)) + n < 2 ^ 64"
      "unat (cr_sequence (hcs_job status)) + n < 2 ^ 64"
  shows "\<exists>status' sp'. scrub_run n identity owner (hr_rounded rec) status sp = Some (status', sp') \<and> status_is_clean status'
    \<and> heap_inv sp' \<and> scrub_ready sp' status' identity owner rec \<and> hcs_lease status' = hcs_lease status"
  using assms
proof (induction n arbitrary: sp status d)
  case 0
  have "d < hr_rounded rec" using scrub_ready_progress(1)[OF 0(1,2)] 0(3) by (simp add: progress_valid_def)
  then show ?case using 0(4) by (simp add: word_less_nat_alt)
next
  case (Suc n)
  have notclean: "\<not> status_is_clean status" using Suc.prems(3) by (simp add: status_is_clean_def)
  from Suc.prems(1-3) obtain plan status' sp' where s:
    "prepare_heap_scrub_chunk sp status identity owner (chunk_amount status (hr_rounded rec)) = Inr plan"
    "commit_heap_scrub sp plan = Some (status', sp')" "heap_inv sp'" "scrub_ready sp' status' identity owner rec"
    "hcs_lease status' = hcs_lease status"
    "unat (cr_version (hcs_job status')) = unat (cr_version (hcs_job status)) + 1"
    "unat (cr_sequence (hcs_job status')) = unat (cr_sequence (hcs_job status)) + 1"
    "unat (hr_rounded rec) - unat d \<le> 4096 \<Longrightarrow> status_is_clean status'"
    "unat (hr_rounded rec) - unat d > 4096 \<Longrightarrow> \<exists>d'. cr_progress (hcs_job status') = Scrubbing d' \<and> unat d' = unat d + 4096"
    by (rule scrub_chunk_step) (use Suc.prems(5,6) in auto)
  have run: "scrub_run (Suc n) identity owner (hr_rounded rec) status sp = scrub_run n identity owner (hr_rounded rec) status' sp'"
    using notclean s(1,2) by simp
  show ?case
  proof (cases "unat (hr_rounded rec) - unat d \<le> 4096")
    case True
    have "scrub_run n identity owner (hr_rounded rec) status' sp' = Some (status', sp')" using s(8)[OF True] by (cases n) simp_all
    then show ?thesis using run s(3-5,8) True by auto
  next
    case False
    then obtain d' where "cr_progress (hcs_job status') = Scrubbing d'" "unat d' = unat d + 4096" using s(9) by auto
    then have "\<exists>status2 sp2. scrub_run n identity owner (hr_rounded rec) status' sp' = Some (status2, sp2) \<and> status_is_clean status2
      \<and> heap_inv sp2 \<and> scrub_ready sp2 status2 identity owner rec \<and> hcs_lease status2 = hcs_lease status'"
      by (intro Suc.IH[OF s(3,4)]) (use Suc.prems(4-6) s(6,7) in auto)
    then show ?thesis using run s(5) by simp
  qed
qed

section \<open>Release and abort\<close>

lemma release_ready:
  assumes inv: "heap_inv sp" and rdy: "scrub_ready sp status identity owner rec" and cl: "status_is_clean status"
  shows "\<exists>plan. prepare_heap_release sp status identity owner = Inr plan"
proof -
  let ?r = "cls_reservation (hcs_lease status)" and ?h = "sps_heap sp"
  from inv rdy obtain p0 where p: "prepare_retired_cleanup sp (hcs_lease status) identity owner (Some status) = Inr p0"
    "hcp_reservation (cup_closure p0) = ?r" "hr_extents rec = Some (hcp_extents (cup_closure p0))" by (rule scrub_ready_plan)
  note R = rdy[unfolded scrub_ready_def Let_def]
  from R obtain a pm where a: "account_of sp (hv_owner ?r) = Inr a" "hl_placement ?h = Some pm" by auto
  have rec: "reservation_record sp ?r = Inr rec" using R by blast
  then have j: "job_res ?h (hr_cleanup rec) = Some ?r" and l: "lifetimes sp (hv_slot ?r) = Some (record_lifetime (hv_generation ?r) rec)"
    by (auto simp: reservation_record_Inr job_res_def lifetimes_def lifetime_of_def)
  have "\<exists>pl. prepare_cancel pm ?r (hcp_extents (cup_closure p0)) (cup_revision p0) = Inr pl"
    by (rule cancel_ready[OF heap_invD(4)[OF inv, unfolded a(2)] j tokens_bound[OF job_owner_token[OF inv j]] l])
      (simp add: record_lifetime_def p(3))
  then show ?thesis using p(1,2) cl rec a by (auto simp: prepare_heap_release_def)
qed

definition job_dead :: "u64 \<Rightarrow> scoped_pointers \<Rightarrow> bool" where
  "job_dead k sp \<longleftrightarrow> k < hl_next_job (sps_heap sp) \<and> (\<forall>c r. job_res (sps_heap sp) c = Some r \<longrightarrow> hv_job r \<noteq> k)"

lemma job_dead_record: "job_dead (hv_job r) sp \<Longrightarrow> \<exists>e. reservation_record sp r = Inl e"
proof (cases "reservation_record sp r")
  case (Inr rec)
  assume "job_dead (hv_job r) sp"
  moreover have "job_res (sps_heap sp) (hr_cleanup rec) = Some r" using Inr by (auto simp: reservation_record_Inr job_res_def)
  ultimately show ?thesis unfolding job_dead_def by blast
qed simp

lemma job_dead_follow: "job_dead k sp \<Longrightarrow> jobs_follow sp sp' \<Longrightarrow> job_dead k sp'"
  unfolding job_dead_def jobs_follow_def by (auto intro: less_le_trans) (metis leD)

lemma job_dead_steps:
  assumes "steps ledger_step sp t" "heap_inv sp" "job_dead k sp"
  shows "job_dead k t"
proof -
  have "heap_inv t \<and> job_dead k t"
    using assms by (induction) (auto intro: ledger_sys.step_inv job_dead_follow follow_step)
  then show ?thesis ..
qed

lemma job_dead_row:
  assumes inv: "heap_inv sp" and j: "job_res (sps_heap sp) c = Some r"
    and sp': "hl_cleanup (sps_heap sp') = (hl_cleanup (sps_heap sp))[c := None]" "hl_next_job (sps_heap sp') = hl_next_job (sps_heap sp)"
  shows "job_dead (hv_job r) sp'"
proof -
  have "hv_job r' \<noteq> hv_job r" if "job_res (sps_heap sp') c' = Some r'" for c' r'
    using other_job_slot[OF inv j, of c' r'] that j by (auto simp: job_res_def sp' row_at_Some split: if_splits)
  moreover have "hv_job r < hl_next_job (sps_heap sp)" using identity_okD(2)[OF heap_invD(2)[OF inv] j] by blast
  ultimately show ?thesis by (simp add: job_dead_def sp'(2))
qed

lemma abort_dead:
  assumes inv: "heap_inv sp" and a: "abort_heap sp r = Some (Inr (), sp')"
  shows "job_dead (hv_job r) sp'"
proof -
  from a obtain rec plan pl where p: "abort_plan sp r = Inr (rec, plan)" "sp' = discharge_effect sp r rec pl"
    by (auto simp: abort_heap_def split: sum.splits option.splits prod.splits)
  from p(1) have "reservation_record sp r = Inr rec" by (auto simp: abort_plan_def Let_def result_simps split: option.splits)
  then have j: "job_res (sps_heap sp) (hr_cleanup rec) = Some r" by (auto simp: reservation_record_Inr job_res_def)
  show ?thesis by (rule job_dead_row[OF inv j]) (simp_all add: p(2) discharge_effect_def ledger_update_def account_charge_def)
qed

lemma release_dead:
  assumes inv: "heap_inv sp" and p: "prepare_heap_release sp status identity owner = Inr plan"
    and c: "commit_heap_release sp plan = Some sp'"
  shows "job_dead (hv_job (cls_reservation (hcs_lease status))) sp'"
proof -
  from p have r: "prepare_retired_cleanup sp (hcs_lease status) identity owner (Some status) = Inr (hlp_cleanup plan)"
    by (auto simp: prepare_heap_release_def Let_def result_simps)
  from r obtain rec :: heap_record where x: "row_at (hl_cleanup (sps_heap sp)) (hr_cleanup rec) = Some (cup_prior (hlp_cleanup plan))"
    "cr_reservation (cup_prior (hlp_cleanup plan)) = cls_reservation (hcs_lease status)" "cup_cleanup (hlp_cleanup plan) = hr_cleanup rec"
    by (rule retired_cleanup_Inr)
  have j: "job_res (sps_heap sp) (hr_cleanup rec) = Some (cls_reservation (hcs_lease status))" using x by (simp add: job_res_def)
  show ?thesis by (rule job_dead_row[OF inv j])
    (use c x(3) in \<open>auto simp: commit_heap_release_def Let_def ledger_update_def account_charge_def split: if_splits option.splits\<close>)
qed

text \<open>What a reservation leaves, as the abort that follows sees it.\<close>

lemma reserve_record:
  assumes inv: "heap_inv sp" and r: "reserve_heap sp owner n rv = Some (Inr r, sp1)"
  obtains rec pl a where "reservation_record sp1 r = Inr rec" "sp1 = reserve_effect sp r rec pl" "heap_inv sp1" "hv_owner r = owner"
    "hr_owner rec = owner" "\<not> hr_published rec" "\<not> hr_ever_attached rec" "row_at (hl_accounts (sps_heap sp)) (oa_index owner) = Some a"
    "row_at (hl_cleanup (sps_heap sp)) (hr_cleanup rec) = None" "free_slot sp = Some (hv_slot r)"
    "hv_generation r = ps_generation (sps_slots sp ! hv_slot r) + 1" "hl_placement (sps_heap sp1) = pl"
proof -
  have inv1: "heap_inv sp1" using heap_inv_reserve[OF inv, of owner n rv] r by auto
  from r obtain rec plan pl where p: "reserve_plan sp owner n rv = Inr (r, rec, plan)" "sp1 = reserve_effect sp r rec pl"
    by (auto simp: reserve_heap_def split: sum.splits option.splits prod.splits)
  from inv p(1) obtain i a c w where x: "r = \<lparr>hv_slot = i, hv_generation = ps_generation (sps_slots sp ! i) + 1,
      hv_job = hl_next_job (sps_heap sp), hv_owner = owner\<rparr>"
    "free_slot sp = Some i" "account_of sp owner = Inr a" "c < length (hl_cleanup (sps_heap sp))" "row_at (hl_cleanup (sps_heap sp)) c = None"
    "rec = \<lparr>hr_owner = owner, hr_logical = n, hr_rounded = w, hr_cleanup = c, hr_published = False,
       hr_writable = True, hr_ever_attached = False, hr_extents = map_option admission_extents plan\<rparr>" by (rule reserve_plan_Inr)
  have sel: "hv_slot r = i" "hv_owner r = owner" "hr_cleanup rec = c" by (simp_all add: x(1,6))
  have a: "row_at (hl_accounts (sps_heap sp)) (oa_index owner) = Some a" "acc_token a = owner" using x(3) by (simp_all add: account_of_Inr)
  have "row_at (hl_cleanup (sps_heap sp1)) c = Some \<lparr>cr_reservation = r, cr_queued = False, cr_lease = LEASE_EMPTY, cr_version = 0,
      cr_sequence = 0, cr_progress = ScrubPending\<rparr>" using x(4) by (simp add: p(2) reserve_effect_def ledger_update_def sel)
  moreover have "account_of sp1 owner = Inr (a\<lparr>acc_reserved := acc_reserved a + hr_rounded rec\<rparr>)"
    using a by (simp add: account_of_Inr p(2) reserve_effect_def ledger_update_def sel account_charge_accounts[OF a(1)] row_at_Some)
  moreover have "sps_slots sp1 ! i = \<lparr>ps_generation = hv_generation r, ps_state = SReserved, ps_record = RHeap rec\<rparr>"
    "i < length (sps_slots sp1)"
    using free_slot_no_lifetime[OF inv x(2)] by (simp_all add: p(2) reserve_effect_def ledger_update_def sel)
  ultimately have "reservation_record sp1 r = Inr rec"
    unfolding reservation_record_Inr using x(6) by (simp add: sel slot_reserved_state_def heap_slot_record_def)
  then show thesis using that[OF _ p(2) inv1] a x by (simp add: p(2) reserve_effect_def ledger_update_def)
qed

lemma abort_ready:
  assumes inv: "heap_inv sp" and rec: "reservation_record sp r = Inr rec" and f: "\<not> hr_published rec" "\<not> hr_ever_attached rec"
    and st: "ps_state (sps_slots sp ! hv_slot r) = SReserved \<or> ps_state (sps_slots sp ! hv_slot r) = SClosing"
  shows "\<exists>sp'. abort_heap sp r = Some (Inr (), sp') \<and> heap_inv sp' \<and> (\<exists>pl. sp' = discharge_effect sp r rec pl)"
proof -
  let ?h = "sps_heap sp"
  note x = rec[unfolded reservation_record_Inr]
  then obtain a where a: "account_of sp (hv_owner r) = Inr a" and own: "hr_owner rec = hv_owner r" by blast
  have ch: "hr_rounded rec \<le> acc_reserved a" "acc_reserved a \<le> hl_reserved_bytes ?h" using job_charge[OF inv rec a] by blast+
  have j: "job_res ?h (hr_cleanup rec) = Some r" and l: "lifetimes sp (hv_slot r) = Some (record_lifetime (hv_generation r) rec)"
    using rec by (auto simp: reservation_record_Inr job_res_def lifetimes_def lifetime_of_def)
  have "\<exists>plan. abort_plan sp r = Inr (rec, plan)"
  proof (cases "hl_placement ?h")
    case None
    then have "hr_extents rec = None" using heap_invD(4)[OF inv] l by (fastforce simp: placed_ok_def record_lifetime_def)
    then show ?thesis using None rec f st a own ch by (simp add: abort_plan_def Let_def)
  next
    case (Some pm)
    from inv rec Some obtain e where e: "hr_extents rec = Some e" "ext_size (he_physical e) = hr_rounded rec"
      "ext_size (he_virtual e) = hr_rounded rec" by (rule job_extents)
    have "\<exists>pl. prepare_cancel pm r e (hl_revision ?h) = Inr pl"
      by (rule cancel_ready[OF heap_invD(4)[OF inv, unfolded Some] j tokens_bound[OF job_owner_token[OF inv j]] l])
        (simp add: record_lifetime_def e(1))
    then show ?thesis using Some e rec f st a own ch by (auto simp: abort_plan_def Let_def)
  qed
  then obtain plan where p: "abort_plan sp r = Inr (rec, plan)" by blast
  obtain res sp' where s: "abort_heap sp r = Some (res, sp')" "heap_inv sp'" using heap_inv_abort[OF inv] by blast
  then show ?thesis using p by (auto simp: abort_heap_def split: option.splits)
qed

end
