(* ===== verification/Heap_Ledger_Props.thy ===== *)
theory Heap_Ledger_Props
  imports Heap_Ledger_Claims
begin

text \<open>
  A worked registry, and the properties of the private heap ledger with their witnesses on it.
\<close>

section \<open>A worked registry\<close>

definition demo_window :: extent where
  "demo_window = mk_extent 4096 8192"

definition demo_limits :: registry_limits where
  "demo_limits = \<lparr>rl_slots = 2, rl_scopes = 0, rl_owners = 1, rl_cleanup = 2, rl_global_bytes = 65536\<rparr>"

definition demo_pool :: heap_placement_limits where
  "demo_pool = \<lparr>hpl_physical_pool = demo_window, hpl_physical_claims = 2, hpl_virtual_window = demo_window, hpl_per_owner_claims = 2\<rparr>"

definition demo_place :: "claim option list \<Rightarrow> nat \<Rightarrow> extent list \<Rightarrow> u64 option \<Rightarrow> heap_placement" where
  "demo_place rows held free owner =
     \<lparr>hp_physical = \<lparr>pm_pool = demo_window, pm_free = free, pm_allocated = [], pm_committed = {},
        pm_bounded = Some \<lparr>cl_rows = rows, cl_held = held, cl_free_capacity = 4\<rparr>\<rparr>,
      hp_virtual_arenas = [\<lparr>vl_layout_start = 4096, vl_next = 4096, vl_limit = 12288, vl_regions = [],
        vl_reusable = Some \<lparr>va_free = free, va_claims = \<lparr>cl_rows = rows, cl_held = held, cl_free_capacity = 4\<rparr>, va_owner = owner\<rparr>\<rparr>]\<rparr>"

definition demo_registry :: scoped_pointers where
  "demo_registry = \<lparr>sps_slots = [SLOT_EMPTY, SLOT_EMPTY], sps_scopes = [], sps_active_slots_end = 0, sps_active_scopes_end = 0,
     sps_next_scope = 1, sps_heap = \<lparr>hl_accounts = [None], hl_cleanup = [None, None], hl_workers = [None],
       hl_host_storage = [None, None], hl_next_worker = 1, hl_next_owner = 1, hl_next_job = 1, hl_revision = 0, hl_fixed_bytes = 0,
       hl_reserved_bytes = 0, hl_limit = 65536, hl_placement = Some (demo_place [None, None] 0 [demo_window] None)\<rparr>\<rparr>"

lemma replicate_2: "replicate 2 x = [x, x]"
  by (simp add: numeral_2_eq_2)

lemma demo_new: "with_heap_placement_and_workers no_sizes demo_limits demo_pool 1 = Some (Inr demo_registry)"
  by (simp add: with_heap_placement_and_workers_def with_heap_placement_def with_limits_def demo_limits_def demo_pool_def no_sizes_def
     registry_footprint_def table_bytes_def heap_placement_minimum_def demo_registry_def demo_place_def
     virtual_minimum_reservation_bytes_def heap_placement_new_def manager_bounded_def reusable_def empty_registry_def
     claims_eval demo_window_def replicate_2)

definition demo_owner :: allocation_owner where
  "demo_owner = \<lparr>ao_process = \<lparr>pk_slot = 1, pk_generation = 1\<rparr>, ao_context = 7, ao_domain = DomainId 0\<rparr>"

definition demo_token :: owner_account where
  "demo_token = \<lparr>oa_index = 0, oa_serial = 1\<rparr>"

definition demo_account :: "u64 \<Rightarrow> account" where
  "demo_account n = \<lparr>acc_token = demo_token, acc_owner = demo_owner, acc_closed = False, acc_limit = 8192, acc_reserved = n\<rparr>"

definition demo_admitted :: scoped_pointers where
  "demo_admitted = demo_registry\<lparr>sps_heap := (sps_heap demo_registry)\<lparr>hl_accounts := [Some (demo_account 0)], hl_next_owner := 2,
     hl_revision := 1, hl_placement := Some (demo_place [None, None] 0 [demo_window] (Some 1))\<rparr>\<rparr>"

definition demo_reservation :: "nat \<Rightarrow> heap_reservation" where
  "demo_reservation i = \<lparr>hv_slot = i, hv_generation = 1, hv_job = of_nat i + 1, hv_owner = demo_token\<rparr>"

definition demo_page :: "nat \<Rightarrow> extent" where
  "demo_page i = mk_extent (4096 * (of_nat i + 1)) 4096"

definition demo_claim :: "nat \<Rightarrow> claim" where
  "demo_claim i = \<lparr>clm_key = \<lparr>rvk_owner = 1, rvk_slot = of_nat i + 1, rvk_generation = 1, rvk_job = of_nat i + 1\<rparr>, clm_extent = demo_page i\<rparr>"

definition demo_slot :: "nat \<Rightarrow> slot_state \<Rightarrow> bool \<Rightarrow> pslot" where
  "demo_slot i st attached = \<lparr>ps_generation = 1, ps_state = st, ps_record = RHeap \<lparr>hr_owner = demo_token, hr_logical = 100,
     hr_rounded = 4096, hr_cleanup = i, hr_published = False, hr_writable = True, hr_ever_attached = attached,
     hr_extents = Some \<lparr>he_physical = demo_page i, he_virtual = demo_page i\<rparr>\<rparr>\<rparr>"

definition demo_job :: "nat \<Rightarrow> bool \<Rightarrow> job_lease \<Rightarrow> cleanup_record" where
  "demo_job i queued lease = \<lparr>cr_reservation = demo_reservation i, cr_queued = queued, cr_lease = lease, cr_version = 0,
     cr_sequence = 0, cr_progress = ScrubPending\<rparr>"

definition demo_one :: "slot_state \<Rightarrow> bool \<Rightarrow> job_lease \<Rightarrow> worker_record option \<Rightarrow> u64 \<Rightarrow> u64 \<Rightarrow> scoped_pointers" where
  "demo_one st attached lease w next_worker rv = demo_admitted\<lparr>
     sps_slots := [demo_slot 0 st attached, SLOT_EMPTY], sps_active_slots_end := 1,
     sps_heap := (sps_heap demo_admitted)\<lparr>hl_accounts := [Some (demo_account 4096)],
       hl_cleanup := [Some (demo_job 0 (pending_state st) lease), None],
       hl_workers := [w], hl_next_worker := next_worker, hl_next_job := 2, hl_revision := rv, hl_reserved_bytes := 4096,
       hl_placement := Some (demo_place [Some (demo_claim 0), None] 1 [demo_page 1] (Some 1))\<rparr>\<rparr>"

definition demo_two :: scoped_pointers where
  "demo_two = demo_admitted\<lparr>
     sps_slots := [demo_slot 0 SReserved False, demo_slot 1 SReserved False], sps_active_slots_end := 2,
     sps_heap := (sps_heap demo_admitted)\<lparr>hl_accounts := [Some (demo_account 8192)],
       hl_cleanup := [Some (demo_job 0 False LEASE_EMPTY), Some (demo_job 1 False LEASE_EMPTY)],
       hl_next_job := 3, hl_revision := 3, hl_reserved_bytes := 8192,
       hl_placement := Some (demo_place [Some (demo_claim 0), Some (demo_claim 1)] 2 [] (Some 1))\<rparr>\<rparr>"

lemmas demo_defs = demo_registry_def demo_place_def demo_owner_def demo_token_def demo_account_def demo_window_def demo_admitted_def
  demo_reservation_def demo_page_def demo_claim_def demo_slot_def demo_job_def demo_one_def demo_two_def
  ledger_update_def heap_ledger_advance_def saturating_add_def mk_extent_def

lemmas reserve_eval = reserve_heap_def reserve_plan_def reserve_effect_def account_of_def free_slot_def slot_is_free_def SLOT_EMPTY_def
  row_at_def commit_placement_def prepare_reserve_def commit_reserve_def manager_prepare_heap_take_def manager_commit_heap_take_def
  virtual_prepare_heap_take_def virtual_commit_heap_take_def reservation_key_of_def total_reserved_bytes_def account_charge_def
  admission_extents_def pending_state_def claims_eval

lemma demo_admit: "admit_owner demo_registry demo_owner 8192 = Some (Inr demo_token, demo_admitted)"
  by (simp add: admit_owner_def admit_plan_def check_arena_def bind_arena_def check_binding_def bind_owner_def window_def claims_count_def demo_defs)

lemma demo_reserve: "reserve_heap demo_admitted demo_token 100 1 = Some (Inr (demo_reservation 0), demo_one SReserved False LEASE_EMPTY None 1 2)"
  by (simp add: reserve_eval demo_defs)

lemma demo_reserve_two: "reserve_heap (demo_one SReserved False LEASE_EMPTY None 1 2) demo_token 100 2 = Some (Inr (demo_reservation 1), demo_two)"
  by (simp add: reserve_eval demo_defs)

lemma demo_reachable:
  "ledger_reachable demo_registry" "ledger_reachable demo_admitted" "ledger_reachable (demo_one SReserved False LEASE_EMPTY None 1 2)"
  "ledger_reachable demo_two"
proof -
  show r0: "ledger_reachable demo_registry" unfolding ledger_reachable_def using demo_new by (intro reach_init) (auto simp: ledger_init_def)
  show r1: "ledger_reachable demo_admitted" using ledger_reachable_step[OF r0 step_admit[OF demo_admit]] .
  show r2: "ledger_reachable (demo_one SReserved False LEASE_EMPTY None 1 2)" using ledger_reachable_step[OF r1 step_reserve[OF demo_reserve]] .
  show "ledger_reachable demo_two" using ledger_reachable_step[OF r2 step_reserve[OF demo_reserve_two]] .
qed

definition demo_worker :: cleanup_worker where
  "demo_worker = \<lparr>cw_row = 1, cw_serial = 1\<rparr>"

definition demo_identity :: cleanup_worker_identity where
  "demo_identity = \<lparr>cwi_process = \<lparr>pk_slot = 2, pk_generation = 1\<rparr>, cwi_context = 9, cwi_domain = DomainId 0\<rparr>"

definition demo_row :: "worker_record option" where
  "demo_row = Some \<lparr>wr_handle = demo_worker, wr_identity = demo_identity, wr_state = WorkerActive\<rparr>"

definition demo_lease :: cleanup_lease where
  "demo_lease = \<lparr>cls_reservation = demo_reservation 0, cls_worker = demo_worker, cls_epoch = 1\<rparr>"

definition demo_closure :: "slot_state \<Rightarrow> u64 \<Rightarrow> heap_closure_plan" where
  "demo_closure st rv = \<lparr>hcp_reservation = demo_reservation 0, hcp_owner = demo_owner, hcp_logical = 100, hcp_writable = True,
     hcp_extents = \<lparr>he_physical = demo_page 0, he_virtual = demo_page 0\<rparr>, hcp_cleanup = 0, hcp_stage = st, hcp_revision = rv\<rparr>"

definition demo_retired :: scoped_pointers where
  "demo_retired = demo_one SRetired True (Held 1 demo_worker) demo_row 2 7"

lemmas cleanup_defs = demo_worker_def demo_identity_def demo_row_def demo_lease_def demo_closure_def demo_retired_def

lemmas closure_eval = prepare_heap_attachment_def prepare_heap_private_def commit_heap_attachment_def reserved_extents_def
  reservation_record_def heap_slot_record_def slot_reserved_state_def set_slot_record_def set_slot_state_def
  prepare_attached_heap_closure_def commit_attached_heap_closure_def custody_consistent_def progress_valid_def
  manager_reservation_extent_def virtual_reservation_extent_def update_job_def account_of_def row_at_def reservation_key_of_def
  pending_state_def claims_eval LEASE_EMPTY_def vec_get_def

lemmas worker_eval = enroll_cleanup_worker_record_def prepare_heap_worker_claim_def commit_heap_worker_claim_def current_worker_def
  worker_of_def unowned_epoch_def prepare_heap_worker_lease_def prepare_heap_retirement_def commit_heap_retirement_def
  hcp_is_retired_def prepare_retired_cleanup_def prepare_heap_scrub_begin_def checked_sub_def

definition demo_attachment :: heap_attachment_plan where
  "demo_attachment = \<lparr>hap_reservation = demo_reservation 0, hap_owner = demo_owner, hap_logical = 100,
     hap_extents = \<lparr>he_physical = demo_page 0, he_virtual = demo_page 0\<rparr>, hap_revision = 2\<rparr>"

lemma demo_attach:
  "prepare_heap_attachment (demo_one SReserved False LEASE_EMPTY None 1 2) (demo_reservation 0) demo_owner 2 = Inr demo_attachment"
  "commit_heap_attachment (demo_one SReserved False LEASE_EMPTY None 1 2) demo_attachment = Some (demo_one SReserved True LEASE_EMPTY None 1 3)"
  by (simp_all add: closure_eval demo_defs demo_attachment_def)

lemma demo_close:
  "commit_attached_heap_closure (demo_one SReserved True LEASE_EMPTY None 1 3) (demo_closure SReserved 3)
   = Some (CloseClosed, demo_one SClosing True LEASE_EMPTY None 1 4)"
  by (simp add: closure_eval demo_defs cleanup_defs)

lemma demo_enroll:
  "enroll_cleanup_worker_record (demo_one SClosing True LEASE_EMPTY None 1 4) demo_identity 4
   = (Inr demo_worker, demo_one SClosing True LEASE_EMPTY demo_row 2 5)"
  by (simp add: worker_eval closure_eval demo_defs cleanup_defs)

definition demo_claim_plan :: heap_worker_claim_plan where
  "demo_claim_plan = \<lparr>wcp_closure = demo_closure SClosing 5, wcp_cleanup = 0, wcp_prior = LEASE_EMPTY, wcp_lease = demo_lease, wcp_revision = 5\<rparr>"

lemma demo_claim_job:
  "prepare_heap_worker_claim (demo_one SClosing True LEASE_EMPTY demo_row 2 5) demo_worker demo_identity (demo_reservation 0) demo_owner 5
   = Inr demo_claim_plan"
  "commit_heap_worker_claim (demo_one SClosing True LEASE_EMPTY demo_row 2 5) demo_claim_plan
   = Some (demo_lease, demo_one SClosing True (Held 1 demo_worker) demo_row 2 6)"
  by (simp_all add: worker_eval closure_eval demo_defs cleanup_defs demo_claim_plan_def)

lemma demo_retire:
  "commit_heap_retirement (demo_one SClosing True (Held 1 demo_worker) demo_row 2 6)
     \<lparr>hrp_closure = demo_closure SClosing 6, hrp_lease = demo_lease, hrp_cleanup = 0, hrp_revision = 6\<rparr> = Some demo_retired"
  by (simp add: worker_eval closure_eval demo_defs cleanup_defs)

lemma demo_retired_reachable: "ledger_reachable demo_retired"
proof -
  note ledger_reachable_step[OF demo_reachable(3) step_attach[OF demo_attach]]
  from ledger_reachable_step[OF this step_closure[OF demo_close]]
  have "ledger_reachable (demo_one SClosing True LEASE_EMPTY None 1 4)" .
  from ledger_reachable_step[OF ledger_reachable_step[OF this step_enroll[OF demo_enroll]] step_claim[OF demo_claim_job]]
  show ?thesis by (rule ledger_reachable_step[OF _ step_retire[OF demo_retire]])
qed

lemma demo_begin:
  "prepare_heap_scrub_begin demo_retired demo_lease demo_identity demo_owner
   = Inr \<lparr>cup_closure = demo_closure SRetired 7, cup_lease = demo_lease, cup_cleanup = 0, cup_prior = demo_job 0 True (Held 1 demo_worker),
       cup_next = (demo_job 0 True (Held 1 demo_worker))\<lparr>cr_progress := Scrubbing 0\<rparr>, cup_revision = 7\<rparr>"
  by (simp add: worker_eval closure_eval demo_defs cleanup_defs)

section \<open>The ledger's properties\<close>

text \<open>
  C8: on every registry the ledger's operations can reach, each account is charged exactly the page-rounded bytes of
  the slots and of the host storage it owns and stays within its limit, the registry's reserved bytes are the sum of
  the accounts, and they fit with the fixed bytes under the registry's limit.
\<close>

theorem ledger_conservation:
  assumes "ledger_reachable sp"
  shows "(\<forall>i a. row_at (hl_accounts (sps_heap sp)) i = Some a \<longrightarrow>
      unat (acc_reserved a) = (\<Sum>j<length (sps_slots sp). slot_charge (acc_token a) (sps_slots sp ! j))
        + row_sum (hosted (acc_token a)) (hl_host_storage (sps_heap sp))
      \<and> acc_reserved a \<le> acc_limit a)
    \<and> unat (hl_reserved_bytes (sps_heap sp)) = row_sum (\<lambda>a. unat (acc_reserved a)) (hl_accounts (sps_heap sp))
    \<and> unat (hl_fixed_bytes (sps_heap sp)) + unat (hl_reserved_bytes (sps_heap sp)) \<le> unat (hl_limit (sps_heap sp))"
proof -
  note C = charges_okD[OF heap_invD(3)[OF ledger_reachable_inv[OF assms]]]
  show ?thesis using C(1-4) by (simp add: usage_slots)
qed

lemma ledger_conservation_witness:
  "ledger_reachable demo_two \<and> row_at (hl_accounts (sps_heap demo_two)) 0 = Some (demo_account 8192)
    \<and> (\<Sum>j<length (sps_slots demo_two). slot_charge demo_token (sps_slots demo_two ! j))
        + row_sum (hosted demo_token) (hl_host_storage (sps_heap demo_two)) = 8192"
proof -
  have a: "row_at (hl_accounts (sps_heap demo_two)) 0 = Some (demo_account 8192)" by (simp add: demo_defs row_at_def)
  have t: "acc_token (demo_account 8192) = demo_token" "acc_reserved (demo_account 8192) = 8192" by (simp_all add: demo_account_def)
  show ?thesis using ledger_conservation[OF demo_reachable(4)] a t demo_reachable(4) by fastforce
qed

text \<open>
  C5: the extents of two different reservations never share a physical byte, and two reservations of accounts with the
  same arena never share a virtual one.
\<close>

theorem live_extents_disjoint:
  assumes "ledger_reachable sp" "reserved_extents sp r = Inr e" "reserved_extents sp r' = Inr e'" "r \<noteq> r'"
  shows "ext_set (he_physical e) \<inter> ext_set (he_physical e') = {}
    \<and> (oa_index (hv_owner r) = oa_index (hv_owner r') \<longrightarrow> ext_set (he_virtual e) \<inter> ext_set (he_virtual e') = {})"
proof -
  note inv = ledger_reachable_inv[OF assms(1)]
  from inv assms(2) obtain p where p: "hl_placement (sps_heap sp) = Some p"
    "manager_ok (hp_physical p)" "manager_reservation_extent (hp_physical p) (reservation_key_of r) = Some (he_physical e)"
    "arena_ok (hp_virtual_arenas p ! oa_index (hv_owner r))"
    "virtual_reservation_extent (hp_virtual_arenas p ! oa_index (hv_owner r)) (reservation_key_of r) = Some (he_virtual e)"
    "\<exists>c. job_res (sps_heap sp) c = Some r" by (rule placed_extents)
  from inv assms(3) obtain p' where p': "hl_placement (sps_heap sp) = Some p'"
    "manager_reservation_extent (hp_physical p') (reservation_key_of r') = Some (he_physical e')"
    "virtual_reservation_extent (hp_virtual_arenas p' ! oa_index (hv_owner r')) (reservation_key_of r') = Some (he_virtual e')"
    "\<exists>c. job_res (sps_heap sp) c = Some r'" by (rule placed_extents)
  have "hv_job r \<noteq> hv_job r'" using p(6) p'(4) assms(4) other_job_slot[OF inv] by (metis option.inject)
  note k = key_job[OF this]
  have eq: "p' = p" using p(1) p'(1) by simp
  show ?thesis using physical.apart[OF p(2,3) p'(2)[unfolded eq] k]
      virtual_arenas.apart[OF p(4,5) _ k, of "he_virtual e'"] p'(3) by (simp add: eq)
qed

lemma demo_two_extents:
  "i < 2 \<Longrightarrow> reserved_extents demo_two (demo_reservation i) = Inr \<lparr>he_physical = demo_page i, he_virtual = demo_page i\<rparr>"
  by (cases i) (simp_all add: less_Suc_eq closure_eval demo_defs)

lemma live_extents_disjoint_witness:
  "ext_set (demo_page 0) \<inter> ext_set (demo_page 1) = {}
   \<and> reserved_extents demo_two (demo_reservation 0) = Inr \<lparr>he_physical = demo_page 0, he_virtual = demo_page 0\<rparr>"
  using live_extents_disjoint[OF demo_reachable(4) demo_two_extents[of 0] demo_two_extents[of 1]] demo_two_extents[of 0]
  by (simp add: demo_reservation_def)

text \<open>
  C6: once an abort or a release has discharged a reservation, the reservation is refused for ever: whatever the ledger
  does next, its record and its extents are errors and a second abort changes nothing.
\<close>

theorem discharged_reservation_dead:
  assumes "ledger_reachable sp"
    and "abort_heap sp r = Some (Inr (), sp')
      \<or> (\<exists>status identity owner plan. prepare_heap_release sp status identity owner = Inr plan \<and> commit_heap_release sp plan = Some sp'
           \<and> r = cls_reservation (hcs_lease status))"
    and "steps ledger_step sp' t"
  shows "\<exists>e. reservation_record t r = Inl e \<and> reserved_extents t r = Inl e \<and> abort_heap t r = Some (Inl e, t)"
proof -
  note inv = ledger_reachable_inv[OF assms(1)]
  have "job_dead (hv_job r) sp'" using assms(2) abort_dead[OF inv] release_dead[OF inv] by blast
  moreover have "ledger_step sp sp'" using assms(2) step_abort step_release by blast
  then have "heap_inv sp'" using inv by (rule ledger_sys.step_inv)
  ultimately have "job_dead (hv_job r) t" using job_dead_steps[OF assms(3)] by blast
  then obtain e where "reservation_record t r = Inl e" using job_dead_record by blast
  then show ?thesis by (simp add: reserved_extents_def abort_heap_def abort_plan_def)
qed

lemma demo_abort: "\<exists>sp. abort_heap demo_two (demo_reservation 0) = Some (Inr (), sp)"
proof -
  obtain rec where r: "reservation_record demo_two (demo_reservation 0) = Inr rec" "\<not> hr_published rec" "\<not> hr_ever_attached rec"
    by (simp add: closure_eval demo_defs)
  moreover have "ps_state (sps_slots demo_two ! hv_slot (demo_reservation 0)) = SReserved" by (simp add: demo_defs)
  ultimately show ?thesis using abort_ready[OF ledger_reachable_inv[OF demo_reachable(4)]] by blast
qed

lemma discharged_reservation_dead_witness:
  "\<exists>sp e. abort_heap demo_two (demo_reservation 0) = Some (Inr (), sp) \<and> abort_heap sp (demo_reservation 0) = Some (Inl e, sp)"
proof -
  obtain sp where a: "abort_heap demo_two (demo_reservation 0) = Some (Inr (), sp)" using demo_abort by blast
  have "\<exists>e. reservation_record sp (demo_reservation 0) = Inl e \<and> reserved_extents sp (demo_reservation 0) = Inl e
      \<and> abort_heap sp (demo_reservation 0) = Some (Inl e, sp)"
    by (rule discharged_reservation_dead[OF demo_reachable(4) disjI1 steps_refl]) (rule a)
  then show ?thesis using a by blast
qed

lemma begin_ready:
  assumes p: "prepare_heap_scrub_begin sp lease identity owner = Inr plan" and inv: "heap_inv sp"
  obtains rec status sp0 where "reservation_record sp (cls_reservation lease) = Inr rec" "commit_heap_scrub sp plan = Some (status, sp0)"
    "heap_inv sp0" "scrub_ready sp0 status identity owner rec" "hcs_lease status = lease"
    "hcs_job status = (cup_prior plan)\<lparr>cr_progress := Scrubbing 0\<rparr>"
proof -
  from p obtain p0 where q: "prepare_retired_cleanup sp lease identity owner None = Inr p0"
    "plan = p0\<lparr>cup_next := (cup_next p0)\<lparr>cr_progress := Scrubbing 0\<rparr>\<rparr>" by (auto simp: prepare_heap_scrub_begin_def result_simps)
  from q(1) obtain rec where c: "prepare_heap_worker_lease sp lease identity owner = Inr (cup_closure p0)"
    "reservation_record sp (cls_reservation lease) = Inr rec"
    "row_at (hl_cleanup (sps_heap sp)) (hr_cleanup rec) = Some (cup_prior p0)" "cr_reservation (cup_prior p0) = cls_reservation lease"
    "cup_cleanup p0 = hr_cleanup rec" "cup_next p0 = cup_prior p0" "cup_lease p0 = lease"
    "ps_state (sps_slots sp ! hv_slot (cls_reservation lease)) = SRetired" "cup_revision p0 = hl_revision (sps_heap sp)"
    by (rule retired_cleanup_Inr)
  from c(1) obtain rec' job where l: "prepare_attached_heap_closure sp (cls_reservation lease) owner = Inr (cup_closure p0)"
    "reservation_record sp (cls_reservation lease) = Inr rec'" "row_at (hl_cleanup (sps_heap sp)) (hr_cleanup rec') = Some job"
    "cr_lease job = Held (cls_epoch lease) (cls_worker lease)" "cls_epoch lease \<noteq> 0" by (rule lease_Inr)
  have w: "current_worker sp (cls_worker lease) identity = Inr ()"
    using c(1) by (auto simp: prepare_heap_worker_lease_def Let_def result_simps)
  from l(1) obtain a where a: "account_of sp (hv_owner (cls_reservation lease)) = Inr a" "acc_owner a = owner"
    "reserved_extents sp (cls_reservation lease) = Inr (hcp_extents (cup_closure p0))" by (rule closure_Inr)
  have "hl_placement (sps_heap sp) \<noteq> None" using a(3) by (auto simp: reserved_extents_def result_simps)
  then have "scrub_ready sp \<lparr>hcs_lease = lease, hcs_job = cup_prior p0\<rparr> identity owner rec"
    using c l w a by (auto simp: scrub_ready_def)
  from scrub_ready_frame[OF this, of "(cup_prior p0)\<lparr>cr_progress := Scrubbing 0\<rparr>"]
  have rdy: "scrub_ready (ledger_update (\<lambda>h. h\<lparr>hl_cleanup := (hl_cleanup h)[hr_cleanup rec := Some ((cup_prior p0)\<lparr>cr_progress := Scrubbing 0\<rparr>)]\<rparr>) sp)
    \<lparr>hcs_lease = lease, hcs_job = (cup_prior p0)\<lparr>cr_progress := Scrubbing 0\<rparr>\<rparr> identity owner rec" by simp
  have gen: "ps_generation (sps_slots sp ! hv_slot (cls_reservation lease)) = hv_generation (cls_reservation lease)"
    using c(2) unfolding reservation_record_Inr by blast
  have com: "commit_heap_scrub sp plan = Some (\<lparr>hcs_lease = lease, hcs_job = (cup_prior p0)\<lparr>cr_progress := Scrubbing 0\<rparr>\<rparr>,
      ledger_update (\<lambda>h. h\<lparr>hl_cleanup := (hl_cleanup h)[hr_cleanup rec := Some ((cup_prior p0)\<lparr>cr_progress := Scrubbing 0\<rparr>)]\<rparr>) sp)"
    using c gen by (simp add: commit_heap_scrub_def check_cleanup_commit_def q(2) Let_def)
  show thesis using that[OF c(2) com heap_inv_scrub_begin[OF inv p com] rdy] by (simp add: q(2))
qed

text \<open>
  C7: scrubbing ends.  Once a worker may begin on a retired allocation, one chunk per page of the allocation makes the
  job clean, no chunk being refused or panicking; the release that follows then succeeds and the reservation is gone.
  The two counters of the job must have room for one increment per page.
\<close>

theorem cleanup_terminates:
  assumes "ledger_reachable sp" "prepare_heap_scrub_begin sp lease identity owner = Inr plan"
    and "reservation_record sp (cls_reservation lease) = Inr rec" "pages = unat (hr_rounded rec) div 4096"
    and "unat (cr_version (cup_prior plan)) + pages < 2 ^ 64" "unat (cr_sequence (cup_prior plan)) + pages < 2 ^ 64"
  shows "\<exists>status0 sp0 status1 sp1 rplan sp2 e. commit_heap_scrub sp plan = Some (status0, sp0)
    \<and> scrub_run pages identity owner (hr_rounded rec) status0 sp0 = Some (status1, sp1) \<and> status_is_clean status1
    \<and> prepare_heap_release sp1 status1 identity owner = Inr rplan \<and> commit_heap_release sp1 rplan = Some sp2
    \<and> reservation_record sp2 (cls_reservation lease) = Inl e"
proof -
  note inv = ledger_reachable_inv[OF assms(1)]
  from assms(2) inv obtain rec' status0 sp0 where b: "reservation_record sp (cls_reservation lease) = Inr rec'"
    "commit_heap_scrub sp plan = Some (status0, sp0)" "heap_inv sp0" "scrub_ready sp0 status0 identity owner rec'"
    "hcs_lease status0 = lease" "hcs_job status0 = (cup_prior plan)\<lparr>cr_progress := Scrubbing 0\<rparr>" by (rule begin_ready)
  have rec: "rec' = rec" using b(1) assms(3) by simp
  note rdy = b(4)[unfolded rec]
  have "4096 * pages = unat (hr_rounded rec)"
    using scrub_ready_progress(2)[OF b(3) rdy] assms(4) by (simp add: page_aligned_iff mod_eq_0_iff_dvd)
  then have "\<exists>status1 sp1. scrub_run pages identity owner (hr_rounded rec) status0 sp0 = Some (status1, sp1) \<and> status_is_clean status1
      \<and> heap_inv sp1 \<and> scrub_ready sp1 status1 identity owner rec \<and> hcs_lease status1 = hcs_lease status0"
    by (intro scrub_run_clean[OF b(3) rdy, of 0]) (use assms(5,6) b(6) in simp_all)
  then obtain status1 sp1 where r: "scrub_run pages identity owner (hr_rounded rec) status0 sp0 = Some (status1, sp1)"
    "status_is_clean status1" "heap_inv sp1" "scrub_ready sp1 status1 identity owner rec" "hcs_lease status1 = lease" using b(5) by auto
  obtain rplan where p: "prepare_heap_release sp1 status1 identity owner = Inr rplan" using release_ready[OF r(3,4,2)] by blast
  obtain sp2 where c: "commit_heap_release sp1 rplan = Some sp2" using heap_inv_release[OF r(3) p] by blast
  obtain e where "reservation_record sp2 (cls_reservation lease) = Inl e"
    using job_dead_record release_dead[OF r(3) p c] r(5) by metis
  then show ?thesis using b(2) r(1,2) p c by blast
qed

lemma demo_retired_record: "\<exists>rec. reservation_record demo_retired (demo_reservation 0) = Inr rec \<and> hr_rounded rec = 4096"
  by (simp add: closure_eval demo_defs cleanup_defs)

lemma cleanup_terminates_witness:
  "\<exists>plan status0 sp0 status1 sp1. prepare_heap_scrub_begin demo_retired demo_lease demo_identity demo_owner = Inr plan
    \<and> commit_heap_scrub demo_retired plan = Some (status0, sp0)
    \<and> scrub_run 1 demo_identity demo_owner 4096 status0 sp0 = Some (status1, sp1) \<and> status_is_clean status1"
proof -
  obtain rec where r: "reservation_record demo_retired (cls_reservation demo_lease) = Inr rec" "hr_rounded rec = 4096"
    using demo_retired_record by (auto simp: demo_lease_def)
  show ?thesis using cleanup_terminates[OF demo_retired_reachable demo_begin r(1), of 1] demo_begin r(2) by (fastforce simp: demo_job_def)
qed

text \<open>A reservation's extents are the ones its record names.\<close>

lemma extents_by_record:
  assumes "heap_inv sp"
  shows "reserved_extents sp r = Inr e \<longleftrightarrow> (\<exists>rec. reservation_record sp r = Inr rec \<and> hr_extents rec = Some e)"
proof
  assume "\<exists>rec. reservation_record sp r = Inr rec \<and> hr_extents rec = Some e"
  then obtain rec where r: "reservation_record sp r = Inr rec" "hr_extents rec = Some e" by blast
  have l: "lifetimes sp (hv_slot r) = Some (record_lifetime (hv_generation r) rec)"
    using r(1) by (auto simp: reservation_record_Inr lifetimes_def lifetime_of_def)
  obtain p where p: "hl_placement (sps_heap sp) = Some p"
    using heap_invD(4)[OF assms] l r(2) by (cases "hl_placement (sps_heap sp)") (fastforce simp: placed_ok_def record_lifetime_def)+
  from assms r(1) p obtain e' where "hr_extents rec = Some e'" "reserved_extents sp r = Inr e'" by (rule job_extents)
  then show "reserved_extents sp r = Inr e" using r(2) by simp
qed (auto simp: reserved_extents_def result_simps)

lemma record_frame:
  assumes "hl_accounts (sps_heap sp') = hl_accounts (sps_heap sp)" "hl_cleanup (sps_heap sp') = hl_cleanup (sps_heap sp)"
    and "sps_slots sp' = (sps_slots sp)[i := s]" "\<not> slot_reserved_state (ps_state s)" "\<not> slot_reserved_state (ps_state (sps_slots sp ! i))"
  shows "reservation_record sp' r = Inr rec \<longleftrightarrow> reservation_record sp r = Inr rec"
proof -
  have "account_of sp' t = account_of sp t" for t using assms(1) by (simp add: account_of_def)
  then show ?thesis unfolding reservation_record_Inr using assms(2-5) by (cases "hv_slot r = i") auto
qed

text \<open>
  C9: aborting a fresh reservation undoes it.  The abort is accepted; accounts, cleanup jobs, reserved bytes, workers and
  host storage are what they were, exactly the same reservations are held with the same extents, and the slot is free
  again under its next generation (or retired, at the last generation).
\<close>

theorem reserve_abort_roundtrip:
  assumes "ledger_reachable sp" "reserve_heap sp owner logical rv = Some (Inr r, sp1)"
  shows "\<exists>sp2. abort_heap sp1 r = Some (Inr (), sp2)
    \<and> hl_accounts (sps_heap sp2) = hl_accounts (sps_heap sp) \<and> hl_cleanup (sps_heap sp2) = hl_cleanup (sps_heap sp)
    \<and> hl_reserved_bytes (sps_heap sp2) = hl_reserved_bytes (sps_heap sp) \<and> hl_workers (sps_heap sp2) = hl_workers (sps_heap sp)
    \<and> hl_host_storage (sps_heap sp2) = hl_host_storage (sps_heap sp)
    \<and> (\<forall>r' e. reserved_extents sp2 r' = Inr e \<longleftrightarrow> reserved_extents sp r' = Inr e)
    \<and> sps_slots sp2 = (sps_slots sp)[hv_slot r := \<lparr>ps_generation = ps_generation (sps_slots sp ! hv_slot r) + 1,
         ps_state = (if hv_generation r = u32_max then SExhausted else SFree), ps_record = REmpty\<rparr>]"
proof -
  note inv = ledger_reachable_inv[OF assms(1)]
  from inv assms(2) obtain rec pl a where r: "reservation_record sp1 r = Inr rec" "sp1 = reserve_effect sp r rec pl" "heap_inv sp1"
    "hv_owner r = owner" "hr_owner rec = owner" "\<not> hr_published rec" "\<not> hr_ever_attached rec"
    "row_at (hl_accounts (sps_heap sp)) (oa_index owner) = Some a" "row_at (hl_cleanup (sps_heap sp)) (hr_cleanup rec) = None"
    "free_slot sp = Some (hv_slot r)" "hv_generation r = ps_generation (sps_slots sp ! hv_slot r) + 1" by (rule reserve_record)
  have i: "hv_slot r < length (sps_slots sp)" "\<not> slot_reserved_state (ps_state (sps_slots sp ! hv_slot r))"
    using r(10) by (auto simp: free_slot_def slot_is_free_def slot_reserved_state_def dest: position_SomeD)
  have "ps_state (sps_slots sp1 ! hv_slot r) = SReserved" using i by (simp add: r(2) reserve_effect_def ledger_update_def)
  with abort_ready[OF r(3,1,6,7)] obtain sp2 pl2 where ab: "abort_heap sp1 r = Some (Inr (), sp2)" "heap_inv sp2"
    "sp2 = discharge_effect sp1 r rec pl2" by blast
  have c: "hr_cleanup rec < length (hl_cleanup (sps_heap sp)) \<Longrightarrow> hl_cleanup (sps_heap sp) ! hr_cleanup rec = None"
    using r(9) by (simp add: row_at_def)
  have cl: "hl_cleanup (sps_heap sp2) = hl_cleanup (sps_heap sp)"
    using c by (cases "hr_cleanup rec < length (hl_cleanup (sps_heap sp))")
      (simp_all add: ab(3) r(2) discharge_effect_def reserve_effect_def ledger_update_def account_charge_def list_update_same_conv list_update_beyond)
  have ac: "hl_accounts (sps_heap sp2) = hl_accounts (sps_heap sp)"
    using r(4,5,8) by (simp add: ab(3) r(2) discharge_effect_def reserve_effect_def ledger_update_def account_charge_def row_at_Some
        list_update_same_conv)
  have sl: "sps_slots sp2 = (sps_slots sp)[hv_slot r := \<lparr>ps_generation = ps_generation (sps_slots sp ! hv_slot r) + 1,
         ps_state = (if hv_generation r = u32_max then SExhausted else SFree), ps_record = REmpty\<rparr>]"
    using i r(11) by (simp add: ab(3) r(2) discharge_effect_def reserve_effect_def ledger_update_def slot_release_def trim_active_slots_def)
  have "reservation_record sp2 r' = Inr x \<longleftrightarrow> reservation_record sp r' = Inr x" for r' x
    by (rule record_frame[OF ac cl sl _ i(2)]) (simp add: slot_reserved_state_def)
  then have "\<forall>r' e. reserved_extents sp2 r' = Inr e \<longleftrightarrow> reserved_extents sp r' = Inr e"
    by (simp add: extents_by_record[OF ab(2)] extents_by_record[OF inv])
  then show ?thesis using ab(1) ac cl sl r(4,5)
    by (auto simp: ab(3) r(2) discharge_effect_def reserve_effect_def ledger_update_def account_charge_def)
qed

lemma reserve_abort_roundtrip_witness:
  "\<exists>sp2. reserve_heap demo_admitted demo_token 100 1 = Some (Inr (demo_reservation 0), demo_one SReserved False LEASE_EMPTY None 1 2)
    \<and> abort_heap (demo_one SReserved False LEASE_EMPTY None 1 2) (demo_reservation 0) = Some (Inr (), sp2)
    \<and> hl_accounts (sps_heap sp2) = [Some (demo_account 0)]"
  using reserve_abort_roundtrip[OF demo_reachable(2) demo_reserve] demo_reserve by (auto simp: demo_admitted_def)

end
