(* ===== verification/Spec2Isabelle.thy ===== *)
theory Spec2Isabelle
  imports Cap_Table Isa Scoped_Pointers Placement Fabric_Sec Fabric_Cells Block Heap_Ledger_Props
begin

text \<open>
  A verification development for Anka64, the capability machine of \<open>src/src/anka64\<close>.

  \<^bold>\<open>The program.\<close>  A \<^emph>\<open>fabric\<close> (\<open>fabric.rs\<close>) owns physical memory, the objects placed in it and the
  protection domains whose capabilities name those objects.  Every agent (a core or a device) reaches
  memory through a transaction that is authorized, translated and committed in three phases.  A
  process names its authority by handles of a \<^emph>\<open>capability table\<close> (\<open>state.rs\<close>).  \<^emph>\<open>Placement managers\<close>
  (\<open>placement.rs\<close>, \<open>placement/bounded.rs\<close>) hand out physical extents and virtual regions.  A \<^emph>\<open>registry
  of scoped pointers\<close> (\<open>scoped_pointers.rs\<close>) issues protected pointers whose kind the fabric keeps in a
  shadow of memory; the same registry holds the \<^emph>\<open>private heap ledger\<close> (\<open>scoped_pointers/heap.rs\<close> and
  its modules): owner accounts, reservations, publication, closure, cleanup workers, scrubbing and
  release.  The \<^emph>\<open>block controller\<close> (\<open>block.rs\<close>) moves blocks by delegated DMA.  Instructions are
  described by a table (\<open>desc.rs\<close>) that the assembler, decoder and disassembler (\<open>isa.rs\<close>) share.

  \<^bold>\<open>Theories and the code they model.\<close>
  \<^item> \<open>Prelude\<close>, \<open>Results\<close>, \<open>Btree_Map\<close>, \<open>Step_System\<close>: Rust's checked integer operations, \<open>?\<close> on results,
    iterators, \<open>BTreeMap\<close> as an ordered association list (locale \<open>btree_interface\<close>), and state machines
    with an invariant (locale \<open>step_system\<close>).
  \<^item> \<open>Arch_State\<close>, \<open>Cap_Table\<close>: \<open>state.rs\<close>.  Handles resolve to what was installed, memory and
    device handles are never reissued, and the slot counts add up.
  \<^item> \<open>Insn_Desc\<close>, \<open>Isa\<close>: \<open>desc.rs\<close>, \<open>isa.rs\<close>.  Encoding and decoding are inverse on every row of the table and
    the assembler emits legal instructions only; \<open>words_mut\<close>, which lends the word vector out, is an
    arbitrary edit, and an illegal word can only come from one.
  \<^item> \<open>Extents\<close>, \<open>Bounded_Claims\<close>, \<open>Placement_Managers\<close>, \<open>Placement\<close>: \<open>placement.rs\<close>, \<open>placement/bounded.rs\<close>.
    Free list and reservations tile the pool; a held claim can always be returned (locale
    \<open>extent_pool\<close>); placing an object through the manager is all or nothing.
  \<^item> \<open>Heap_Data\<close>, \<open>Scoped_Pointers\<close>: the registry, \<open>scoped_pointers.rs\<close>.  A pointer dies with its scope,
    pointer arithmetic does not wrap.
  \<^item> \<open>Fabric\<close>, \<open>Fabric_Auth\<close>, \<open>Fabric_Tx\<close>, \<open>Fabric_Ptr\<close>: \<open>fabric.rs\<close> and \<open>fabric/local_frames.rs\<close>: state,
    authority, transactions, pointer cells and frames.  \<open>Fabric_Exec\<close> proves that a whole transaction
    equals a one-step specification; \<open>Fabric_Inv\<close> makes the fabric a state machine; \<open>Fabric_Sec\<close> proves
    isolation, finality of revocation, write-xor-execute and disjointness of placements on every
    reachable fabric, the exactness of derivation and of delegation to devices, and that a commit
    uses the address of the translation phase wherever the object has moved since; \<open>Fabric_Cells\<close>
    that pointer kinds cannot be forged and that a frame of locals is issued completely or not at all.
  \<^item> \<open>Device_Slots\<close>, \<open>Block\<close>: \<open>block.rs\<close>.  Slots are conserved (locale \<open>completion_ring\<close>), every request
    completes within its latency plus two ticks, and a read moves exactly one block.
  \<^item> \<open>Heap_Ledger\<close>: every operation of \<open>scoped_pointers/heap.rs\<close> and of its modules.  \<open>Heap_Managers\<close> states
    the contract of the two managers a ledger uses (locale \<open>reservation_manager\<close>, interpreted for the
    physical pool and for the virtual arenas); \<open>Heap_Ledger_Inv\<close> is the ledger's invariant;
    \<open>Heap_Ledger_Steps\<close> and \<open>Heap_Ledger_Alloc\<close> prove that the operations keep it, \<open>Heap_Ledger_Sys\<close> that
    every reachable ledger has it; \<open>Heap_Ledger_Claims\<close> and \<open>Heap_Ledger_Props\<close> hold the properties of the
    ledger.

  \<^bold>\<open>Conventions.\<close>  Integers keep their width (\<open>u8\<close>, \<open>u32\<close>, \<open>u64\<close> are words) where the source can overflow;
  indices into vectors are \<open>nat\<close>.  A fallible operation returns \<open>error + value\<close> or an option, together
  with the state it leaves.  An outer \<open>option\<close> is a panic (\<open>None\<close>): an \<open>expect\<close>, an \<open>assert\<close> or an index out
  of range; the properties prove where it cannot happen.  Debug assertions are not modelled as
  panics; the block controller's are proved as \<open>conservation_ok\<close>.  \<open>size_of\<close> of the compiler is the
  argument \<open>type_sizes\<close>; a vector's capacity is the one it was asked for, or an argument where the
  code only compares it with a limit; a failing host allocation is an argument where the code answers
  it with a value of its own, and is left out where it only passes it on.

  \<^bold>\<open>Bounds.\<close>  No definition that models code uses fuel; \<open>scrub_run\<close> counts the cleanup steps a worker is
  given, and one step per page is proved to be enough.  Loops over vectors are structural; the loop of a transaction is
  the three phases the source runs; a device is advanced tick by tick and \<open>tx_rank\<close> bounds the ticks.
  The domain counter of the fabric wraps, so freshness of a domain is stated for fabrics that fewer
  than \<open>2 ^ 64\<close> operations have built (\<open>fabric_run\<close> counts them).

  \<^bold>\<open>Not modelled.\<close>  The network controller (\<open>nic.rs\<close>), the execution of instructions (\<open>core.rs\<close>), the
  interleaving of cores (\<open>multicore.rs\<close>), the guest-visible frame protocol (\<open>pointer_frames.rs\<close>) and the
  fabric side of the private heap (\<open>fabric/heap.rs\<close> and its modules); the kernel (\<open>os.rs\<close>), whose services
  dispatch over all of these; authority persistence, which is host file input and output; the guest
  toolchain (\<open>aom.rs\<close>, \<open>ankald.rs\<close>, \<open>cc.rs\<close> and the compilers); the development tools, which are host
  terminal and network input and output; and the earlier 68000 machine with its systems under
  \<open>src/src/cpu\<close>, \<open>src/src/bus\<close> and \<open>src/src/os.rs\<close>, which shares no code with Anka64.
\<close>

end
